(* ===== verification/SG_Prelude.thy ===== *)
theory SG_Prelude
  imports Main "HOL-Library.Word" "HOL-Library.Char_ord" "HOL-Library.List_Lexorder"
begin

text \<open>
  The prelude of the development: the types every component shares (byte strings, 64-bit
  integers, Go maps and times), the error values of all packages, the result of a Go call
  (a value, an error or a panic), and the ordered association lists that carry the key
  order of a bolt bucket.  The collections \<open>go_defs\<close> and \<open>tbl_simps\<close> gather the equations
  that the component proofs hand to the simplifier.
\<close>

section \<open>Shared types\<close>

text \<open>
  A Go \<^verbatim>\<open>string\<close> and a Go \<^verbatim>\<open>[]byte\<close> are both byte sequences; an Isabelle \<open>char\<close> is
  exactly one byte, and the order of \<open>string\<close> (lexicographic, a prefix first) is the order
  of \<^verbatim>\<open>bytes.Compare\<close>.
\<close>

type_synonym bytes = string
type_synonym uuid = string
type_synonym int64 = "64 word"
type_synonym uint64 = "64 word"

text \<open>
  A Go \<^verbatim>\<open>map[string]bool\<close>: \<open>None\<close> is the nil map, and \<open>Some xs\<close> lists the entries in the
  order in which the run time iterates over them.  The language leaves that order open, so
  a theorem about every list is a theorem about every order.
\<close>

type_synonym smap = "(string \<times> bool) list option"

text \<open>
  \<^verbatim>\<open>time.Time\<close>: nanoseconds since the Unix epoch and the location pointer.  Decoding a
  timestamp gives the UTC or the local location, or a location of its own for any other
  offset.
\<close>

datatype zone = ZUTC | ZLocal | ZFixed int

record gtime =
  t_ns :: int
  t_zone :: zone

section \<open>Errors and results\<close>

datatype bolt_err =
    ErrBucketNotFound
  | ErrBucketExists
  | ErrBucketNameRequired
  | ErrKeyRequired
  | ErrKeyTooLarge
  | ErrIncompatibleValue

text \<open>
  The error values of the packages.  A constructor stands for a Go error type, so a type
  switch in the source is a case distinction here; \<open>Wrapped\<close> is an error made by
  \<^verbatim>\<open>errors.Wrap\<close>, which hides the type of its cause from a type switch, and \<open>Errorf\<close> an
  error made by \<^verbatim>\<open>errors.Errorf\<close> or \<^verbatim>\<open>errors.New\<close>.
\<close>

datatype err =
    ErrMissingBucket bytes
  | ExistsError bytes bytes
  | MissingError bytes bytes
  | BoltErr bolt_err
  | JsonErr
  | Errorf string
  | Wrapped string err
  | users_ErrExists string
  | users_ErrMissing string
  | auth_ErrDisabled string
  | auth_ErrExists string
  | auth_ErrMissing string
  | auth_ErrInvalid string
  | auth_ErrInvalidTokenType string
  | auth_ErrMissingSession bytes
  | auth_ErrTokenExpired bytes
  | auth_ErrContextMissing bytes
  | auth_Found bytes bytes string
  | admin_ErrNotFound bytes
  | incept_ErrTicketMissing string
  | convo_errMissing bytes
  | convo_errExists bytes
  | stream_errMissing bytes
  | stream_errExists bytes
  | river_errExists bytes
  | river_errStreamMissing bytes
  | river_errUnknownSurvey bytes
  | river_missing "uint64 list"
  | SockErr string

text \<open>A call returns a value, returns a non-nil error, or panics.\<close>

datatype 'a go = Ret 'a | Fail err | Panic

fun go_bind :: "'a go \<Rightarrow> ('a \<Rightarrow> 'b go) \<Rightarrow> 'b go" where
  "go_bind (Ret a) f = f a"
| "go_bind (Fail e) f = Fail e"
| "go_bind Panic f = Panic"

fun go_of_option :: "err \<Rightarrow> 'a option \<Rightarrow> 'a go" where
  "go_of_option e None = Fail e"
| "go_of_option e (Some a) = Ret a"

section \<open>Go maps\<close>

definition smap_get :: "smap \<Rightarrow> string \<Rightarrow> bool" where
  "smap_get m k = (case m of None \<Rightarrow> False | Some xs \<Rightarrow> map_of xs k = Some True)"

definition smap_keys :: "smap \<Rightarrow> string list" where
  "smap_keys m = (case m of None \<Rightarrow> [] | Some xs \<Rightarrow> map fst xs)"

text \<open>Assignment to a key: a nil map panics, an existing key keeps its place.\<close>

fun assoc_set :: "'k \<Rightarrow> 'v \<Rightarrow> ('k \<times> 'v) list \<Rightarrow> ('k \<times> 'v) list" where
  "assoc_set k v [] = [(k, v)]"
| "assoc_set k v (p # ps) = (if fst p = k then (k, v) # ps else p # assoc_set k v ps)"

fun smap_set :: "string \<Rightarrow> bool \<Rightarrow> smap \<Rightarrow> smap go" where
  "smap_set k v None = Panic"
| "smap_set k v (Some xs) = Ret (Some (assoc_set k v xs))"

definition smap_ok :: "smap \<Rightarrow> bool" where
  "smap_ok m = (case m of None \<Rightarrow> True | Some xs \<Rightarrow> distinct (map fst xs))"

text \<open>\<^verbatim>\<open>reflect.DeepEqual\<close> on two maps: both nil, or both non-nil with the same entries.\<close>

definition smap_deep_equal :: "smap \<Rightarrow> smap \<Rightarrow> bool" where
  "smap_deep_equal a b =
     (case (a, b) of
        (None, None) \<Rightarrow> True
      | (Some xs, Some ys) \<Rightarrow>
          list_all (\<lambda>p. map_of ys (fst p) = map_of xs (fst p)) xs \<and>
          list_all (\<lambda>p. map_of xs (fst p) = map_of ys (fst p)) ys
      | _ \<Rightarrow> False)"

section \<open>Ordered association lists\<close>

text \<open>
  A bolt bucket keeps its entries sorted by key.  Insertion keeps the order, removal
  filters; lookup is \<open>map_of\<close>.
\<close>

fun al_put :: "'k::linorder \<Rightarrow> 'v \<Rightarrow> ('k \<times> 'v) list \<Rightarrow> ('k \<times> 'v) list" where
  "al_put k v [] = [(k, v)]"
| "al_put k v (p # ps) =
     (if fst p < k then p # al_put k v ps
      else if fst p = k then (k, v) # ps
      else (k, v) # p # ps)"

definition al_del :: "'k \<Rightarrow> ('k \<times> 'v) list \<Rightarrow> ('k \<times> 'v) list" where
  "al_del k ps = filter (\<lambda>p. fst p \<noteq> k) ps"

definition al_sorted :: "('k::linorder \<times> 'v) list \<Rightarrow> bool" where
  "al_sorted ps = sorted_wrt (<) (map fst ps)"

section \<open>Collections and lemmas\<close>

named_theorems go_defs "definitions of operations, for unfolding in component proofs"
named_theorems tbl_simps "how operations change the table view of the database"

lemma map_of_assoc_set [simp]: "map_of (assoc_set k v ps) = (map_of ps)(k \<mapsto> v)"
  by (induction ps) (auto simp: fun_eq_iff)

lemma fst_set_assoc_set [simp]: "fst ` set (assoc_set k v ps) = insert k (fst ` set ps)"
  by (induction ps) auto

lemma distinct_assoc_set [simp]:
  "distinct (map fst ps) \<Longrightarrow> distinct (map fst (assoc_set k v ps))"
  by (induction ps) auto

lemma smap_get_None [simp]: "smap_get None k = False"
  by (simp add: smap_get_def)

lemma smap_get_set: "smap_set k v m = Ret m' \<Longrightarrow> smap_get m' j = (if j = k then v else smap_get m j)"
  by (cases m) (auto simp: smap_get_def)

lemma smap_keys_set:
  assumes "smap_set k v m = Ret m'"
  shows "set (smap_keys m') = insert k (set (smap_keys m))"
proof (cases m)
  case None
  with assms show ?thesis by simp
next
  case (Some xs)
  with assms have "m' = Some (assoc_set k v xs)" by simp
  with Some show ?thesis by (simp add: smap_keys_def)
qed

lemma smap_set_Fail [simp]: "smap_set k v m \<noteq> Fail e"
  by (cases m) auto

lemma smap_get_keys: "smap_get m k \<Longrightarrow> k \<in> set (smap_keys m)"
  by (cases m) (force simp: smap_get_def smap_keys_def dest: map_of_SomeD)+

lemma smap_deep_equal_Some:
  "smap_deep_equal (Some xs) (Some ys) \<longleftrightarrow> map_of xs = map_of ys"
proof -
  have "smap_deep_equal (Some xs) (Some ys) \<longleftrightarrow>
      (\<forall>k \<in> fst ` set xs. map_of ys k = map_of xs k) \<and> (\<forall>k \<in> fst ` set ys. map_of xs k = map_of ys k)"
    by (auto simp: smap_deep_equal_def list_all_iff)
  also have "\<dots> \<longleftrightarrow> (\<forall>k. map_of xs k = map_of ys k)"
    by (metis map_of_eq_None_iff)
  finally show ?thesis by (simp add: fun_eq_iff)
qed

lemma smap_deep_equal_None [simp]:
  "smap_deep_equal None b \<longleftrightarrow> b = None"
  "smap_deep_equal a None \<longleftrightarrow> a = None"
  by (cases a; cases b; simp add: smap_deep_equal_def)+

lemma smap_deep_equal_refl [simp]: "smap_deep_equal a a"
  by (cases a) (simp_all add: smap_deep_equal_Some)

lemma smap_deep_equal_get: "smap_deep_equal a b \<Longrightarrow> smap_get a k = smap_get b k"
  by (cases a; cases b) (auto simp: smap_deep_equal_Some smap_get_def)

lemma map_of_al_put [simp]: "map_of (al_put k v ps) = (map_of ps)(k \<mapsto> v)"
  by (induction ps) (auto simp: fun_eq_iff)

lemma al_put_put [simp]: "al_put k v (al_put k w ps) = al_put k v ps"
  by (induction ps) auto

lemma map_of_al_del [simp]: "map_of (al_del k ps) = (map_of ps)(k := None)"
  unfolding al_del_def by (induction ps) (auto simp: fun_eq_iff)

lemma fst_set_al_put [simp]: "fst ` set (al_put k v ps) = insert k (fst ` set ps)"
  by (induction ps) auto

lemma set_al_put: "set (al_put k v ps) \<subseteq> insert (k, v) (set ps)"
  by (induction ps) auto

lemma set_al_del [simp]: "set (al_del k ps) = {p \<in> set ps. fst p \<noteq> k}"
  by (auto simp: al_del_def)

lemma al_sorted_Cons [simp]:
  "al_sorted (p # ps) \<longleftrightarrow> (\<forall>q \<in> set ps. fst p < fst q) \<and> al_sorted ps"
  by (auto simp: al_sorted_def)

lemma al_sorted_Nil [simp]: "al_sorted []"
  by (simp add: al_sorted_def)

lemma al_sorted_put: "al_sorted ps \<Longrightarrow> al_sorted (al_put k v ps)"
proof (induction ps)
  case (Cons p ps)
  then show ?case
    using set_al_put [of k v ps] by (auto dest: subsetD order.strict_trans)
qed simp

lemma al_sorted_del: "al_sorted ps \<Longrightarrow> al_sorted (al_del k ps)"
  by (induction ps) (auto simp: al_del_def)

lemma al_sorted_distinct: "al_sorted ps \<Longrightarrow> distinct (map fst ps)"
  by (auto simp: al_sorted_def strict_sorted_iff)

lemma al_del_fresh: "k \<notin> fst ` set ps \<Longrightarrow> al_del k ps = ps"
  by (auto simp: al_del_def filter_id_conv)

lemma al_del_put_fresh: "k \<notin> fst ` set ps \<Longrightarrow> al_del k (al_put k v ps) = ps"
  by (induction ps) (auto simp: al_del_def al_del_fresh filter_id_conv)

lemma find_append: "find P (xs @ ys) = (case find P xs of None \<Rightarrow> find P ys | Some x \<Rightarrow> Some x)"
  by (induction xs) auto

lemma find_first_iff:
  "find P xs = Some n \<longleftrightarrow> (\<exists>pre post. xs = pre @ n # post \<and> P n \<and> (\<forall>m \<in> set pre. \<not> P m))"
proof
  assume "find P xs = Some n"
  then show "\<exists>pre post. xs = pre @ n # post \<and> P n \<and> (\<forall>m \<in> set pre. \<not> P m)"
  proof (induction xs)
    case (Cons x xs)
    show ?case
    proof (cases "P x")
      case True
      with Cons.prems have "x # xs = [] @ n # xs \<and> P n \<and> (\<forall>m \<in> set []. \<not> P m)" by simp
      then show ?thesis by blast
    next
      case False
      with Cons obtain pre post where "xs = pre @ n # post" "P n" "\<forall>m \<in> set pre. \<not> P m" by auto
      with False have "x # xs = (x # pre) @ n # post \<and> P n \<and> (\<forall>m \<in> set (x # pre). \<not> P m)" by simp
      then show ?thesis by blast
    qed
  qed simp
next
  assume "\<exists>pre post. xs = pre @ n # post \<and> P n \<and> (\<forall>m \<in> set pre. \<not> P m)"
  then obtain pre post where xs: "xs = pre @ n # post" "P n" and "\<forall>m \<in> set pre. \<not> P m" by blast
  then have "find P pre = None" by (auto simp: find_None_iff)
  with xs show "find P xs = Some n" by (simp add: find_append)
qed

lemma go_bind_eq_Ret: "go_bind m f = Ret b \<longleftrightarrow> (\<exists>a. m = Ret a \<and> f a = Ret b)"
  by (cases m) auto

lemma go_of_option_eq [simp]:
  "go_of_option e x = Ret a \<longleftrightarrow> x = Some a"
  "go_of_option e x = Panic \<longleftrightarrow> False"
  "go_of_option e x = Fail e' \<longleftrightarrow> x = None \<and> e' = e"
  by (cases x; auto)+

end
