(* ===== verification/Bolt.thy ===== *)
theory Bolt
  imports SG_Prelude
begin

text \<open>
  The database underneath every package: the vendored bolt key-value store
  (\<^verbatim>\<open>vendor/github.com/boltdb/bolt\<close>, \<^verbatim>\<open>bucket.go\<close>, \<^verbatim>\<open>cursor.go\<close>).  A bucket is a sequence
  counter and a list of entries in key order; an entry is a value or a nested bucket.  The
  pages of bolt's B+tree are not modelled: what a cursor visits is the ordered list.  A
  value is a byte string, or the JSON document that \<^verbatim>\<open>json.Marshal\<close> produced, kept as a
  tree because no code looks at its bytes.

  A \<^verbatim>\<open>*bolt.Bucket\<close> handle is the path of names that leads to the bucket.  A method call on
  a nil handle dereferences a nil pointer, so it is a panic here.
\<close>

section \<open>Documents, buckets, transactions\<close>

text \<open>
  A JSON string stays in the form in which the Go type reads it: as text, as an RFC 3339
  time, as base64 bytes or as a UUID.  Object members carry the names of the struct fields
  they belong to.
\<close>

datatype json =
    JNull
  | JBool bool
  | JNum int
  | JStr string
  | JTime gtime
  | JBytes bytes
  | JUUID uuid
  | JArr "json list"
  | JObj "(string \<times> json) list"

datatype val = Raw bytes | Doc json

datatype entry = Leaf val | Sub bucket
and bucket = Bucket (bseq: uint64) (bents: "(bytes \<times> entry) list")

type_synonym db = bucket
type_synonym 'a dbop = "db \<Rightarrow> 'a go \<times> db"
type_synonym path = "bytes list"

definition empty_bucket :: bucket where
  "empty_bucket = Bucket 0 []"

definition ent :: "bytes \<Rightarrow> bucket \<Rightarrow> entry option" where
  "ent k b = map_of (bents b) k"

definition set_ent :: "bytes \<Rightarrow> entry \<Rightarrow> bucket \<Rightarrow> bucket" where
  "set_ent k e b = Bucket (bseq b) (al_put k e (bents b))"

definition del_ent :: "bytes \<Rightarrow> bucket \<Rightarrow> bucket" where
  "del_ent k b = Bucket (bseq b) (al_del k (bents b))"

section \<open>Bucket operations\<close>

definition MaxKeySize :: nat where
  "MaxKeySize = 32768"

text \<open>\<^verbatim>\<open>Cursor.seek\<close>: the entry of the key, or of the next key when it does not exist.\<close>

definition Cursor_seek :: "bytes \<Rightarrow> bucket \<Rightarrow> (bytes \<times> entry) option" where
  "Cursor_seek k b = find (\<lambda>p. k \<le> fst p) (bents b)"

text \<open>
  \<^verbatim>\<open>Bucket.Get\<close> and \<^verbatim>\<open>Bucket.Put\<close> compare the key the cursor found with the key asked for;
  \<^verbatim>\<open>Bucket.Delete\<close> does not, and refuses when the next key is a nested bucket.
\<close>

definition Bucket_Get :: "bytes \<Rightarrow> bucket \<Rightarrow> val option" where
  "Bucket_Get k b = (case ent k b of Some (Leaf v) \<Rightarrow> Some v | _ \<Rightarrow> None)"

definition Bucket_Put :: "bytes \<Rightarrow> val \<Rightarrow> bucket \<Rightarrow> bolt_err + bucket" where
  "Bucket_Put k v b =
     (if k = [] then Inl ErrKeyRequired
      else if length k > MaxKeySize then Inl ErrKeyTooLarge
      else (case ent k b of
              Some (Sub _) \<Rightarrow> Inl ErrIncompatibleValue
            | _ \<Rightarrow> Inr (set_ent k (Leaf v) b)))"

definition Bucket_Delete :: "bytes \<Rightarrow> bucket \<Rightarrow> bolt_err + bucket" where
  "Bucket_Delete k b =
     (case Cursor_seek k b of
        Some (_, Sub _) \<Rightarrow> Inl ErrIncompatibleValue
      | _ \<Rightarrow> Inr (del_ent k b))"

definition Bucket_CreateBucket :: "bytes \<Rightarrow> bucket \<Rightarrow> bolt_err + bucket" where
  "Bucket_CreateBucket k b =
     (if k = [] then Inl ErrBucketNameRequired
      else (case ent k b of
              Some (Sub _) \<Rightarrow> Inl ErrBucketExists
            | Some (Leaf _) \<Rightarrow> Inl ErrIncompatibleValue
            | None \<Rightarrow> Inr (set_ent k (Sub empty_bucket) b)))"

definition Bucket_CreateBucketIfNotExists :: "bytes \<Rightarrow> bucket \<Rightarrow> bolt_err + bucket" where
  "Bucket_CreateBucketIfNotExists k b =
     (case Bucket_CreateBucket k b of
        Inl ErrBucketExists \<Rightarrow> Inr b
      | r \<Rightarrow> r)"

text \<open>The child buckets go with the bucket, so nothing but the entry is removed.\<close>

definition Bucket_DeleteBucket :: "bytes \<Rightarrow> bucket \<Rightarrow> bolt_err + bucket" where
  "Bucket_DeleteBucket k b =
     (case ent k b of
        None \<Rightarrow> Inl ErrBucketNotFound
      | Some (Leaf _) \<Rightarrow> Inl ErrIncompatibleValue
      | Some (Sub _) \<Rightarrow> Inr (del_ent k b))"

definition Bucket_NextSequence :: "bucket \<Rightarrow> uint64 \<times> bucket" where
  "Bucket_NextSequence b = (bseq b + 1, Bucket (bseq b + 1) (bents b))"

text \<open>What \<^verbatim>\<open>ForEach\<close> and the cursor loops visit: a nested bucket shows a nil value.\<close>

definition Bucket_items :: "bucket \<Rightarrow> (bytes \<times> val option) list" where
  "Bucket_items b =
     map (\<lambda>p. (fst p, case snd p of Leaf v \<Rightarrow> Some v | Sub _ \<Rightarrow> None)) (bents b)"

section \<open>Handles\<close>

fun bkt_at :: "path \<Rightarrow> bucket \<Rightarrow> bucket option" where
  "bkt_at [] b = Some b"
| "bkt_at (n # ns) b = (case ent n b of Some (Sub c) \<Rightarrow> bkt_at ns c | _ \<Rightarrow> None)"

fun bkt_set :: "path \<Rightarrow> bucket \<Rightarrow> bucket \<Rightarrow> bucket" where
  "bkt_set [] c b = c"
| "bkt_set (n # ns) c b =
     (case ent n b of Some (Sub d) \<Rightarrow> set_ent n (Sub (bkt_set ns c d)) b | _ \<Rightarrow> b)"

text \<open>A mutating call and a reading call through a handle.\<close>

definition on_bkt :: "path \<Rightarrow> (bucket \<Rightarrow> bolt_err + bucket) \<Rightarrow> unit dbop" where
  "on_bkt p f s =
     (case bkt_at p s of
        None \<Rightarrow> (Panic, s)
      | Some b \<Rightarrow> (case f b of
                     Inl e \<Rightarrow> (Fail (BoltErr e), s)
                   | Inr b' \<Rightarrow> (Ret (), bkt_set p b' s)))"

definition rd_bkt :: "path \<Rightarrow> (bucket \<Rightarrow> 'a go) \<Rightarrow> 'a dbop" where
  "rd_bkt p f s = (case bkt_at p s of None \<Rightarrow> (Panic, s) | Some b \<Rightarrow> (f b, s))"

section \<open>Transactions\<close>

text \<open>
  \<^verbatim>\<open>db.View\<close> runs a function on a read-only transaction; \<^verbatim>\<open>db.Update\<close> commits when the
  function returns nil and rolls back when it returns an error or panics.
\<close>

definition db_View :: "'a dbop \<Rightarrow> db \<Rightarrow> 'a go \<times> db" where
  "db_View f s = (fst (f s), s)"

definition db_Update :: "'a dbop \<Rightarrow> db \<Rightarrow> 'a go \<times> db" where
  "db_Update f s = (case f s of (Ret a, s') \<Rightarrow> (Ret a, s') | (r, _) \<Rightarrow> (r, s))"

definition db_bind :: "'a dbop \<Rightarrow> ('a \<Rightarrow> 'b dbop) \<Rightarrow> 'b dbop" where
  "db_bind m f s =
     (case m s of
        (Ret a, s') \<Rightarrow> f a s'
      | (Fail e, s') \<Rightarrow> (Fail e, s')
      | (Panic, s') \<Rightarrow> (Panic, s'))"

definition db_return :: "'a \<Rightarrow> 'a dbop" where
  "db_return a s = (Ret a, s)"

definition db_fail :: "err \<Rightarrow> 'a dbop" where
  "db_fail e s = (Fail e, s)"

text \<open>Run an operation and inspect the error it returns, as \<^verbatim>\<open>switch err\<close> does.\<close>

definition db_catch :: "'a dbop \<Rightarrow> (err \<Rightarrow> 'a dbop) \<Rightarrow> 'a dbop" where
  "db_catch m h s = (case m s of (Fail e, s') \<Rightarrow> h e s' | r \<Rightarrow> r)"

section \<open>Well-formed buckets\<close>

text \<open>
  A bucket is well-formed when its keys, and those of every bucket below it, are strictly
  increasing.  A bucket is flat when it holds no nested bucket.
\<close>

fun wf_entry :: "entry \<Rightarrow> bool" and wf_bucket :: "bucket \<Rightarrow> bool" where
  "wf_entry (Leaf v) = True"
| "wf_entry (Sub b) = wf_bucket b"
| "wf_bucket (Bucket q es) = (al_sorted es \<and> (\<forall>p \<in> set es. wf_entry (snd p)))"

definition flat_bucket :: "bucket \<Rightarrow> bool" where
  "flat_bucket b = list_all (\<lambda>p. case snd p of Leaf _ \<Rightarrow> True | Sub _ \<Rightarrow> False) (bents b)"

section \<open>Lemmas\<close>

lemma ent_set_ent [simp]: "ent j (set_ent k e b) = (if j = k then Some e else ent j b)"
  by (simp add: ent_def set_ent_def)

lemma ent_del_ent [simp]: "ent j (del_ent k b) = (if j = k then None else ent j b)"
  by (simp add: ent_def del_ent_def)

lemma ent_empty [simp]: "ent k empty_bucket = None"
  by (simp add: ent_def empty_bucket_def)

lemma bseq_set_del [simp]: "bseq (set_ent k e b) = bseq b" "bseq (del_ent k b) = bseq b"
  by (simp_all add: set_ent_def del_ent_def)

lemma bkt_at_set_same [simp]: "bkt_at p s = Some b \<Longrightarrow> bkt_at p (bkt_set p c s) = Some c"
proof (induction p arbitrary: s)
  case (Cons n p)
  then show ?case by (auto split: option.splits entry.splits)
qed simp

lemma set_ent_set_ent [simp]: "set_ent k e (set_ent k e' b) = set_ent k e b"
  by (simp add: set_ent_def)

lemma bkt_set_set [simp]: "bkt_set p d (bkt_set p c s) = bkt_set p d s" if "bkt_at p s \<noteq> None"
  using that
proof (induction p arbitrary: s)
  case (Cons n p)
  then show ?case by (auto split: option.splits entry.splits)
qed simp

lemma bkt_at_append: "bkt_at (p @ q) s = (case bkt_at p s of None \<Rightarrow> None | Some b \<Rightarrow> bkt_at q b)"
  by (induction p arbitrary: s) (auto split: option.splits entry.splits)

text \<open>Two paths that part at some name do not see each other's updates.\<close>

lemma bkt_at_set_other:
  "m \<noteq> n \<Longrightarrow> bkt_at (p @ n # q) (bkt_set (p @ m # r) c s) = bkt_at (p @ n # q) s"
proof (induction p arbitrary: s)
  case Nil
  then show ?case by (auto split: option.splits entry.splits)
next
  case (Cons x p)
  then show ?case by (auto split: option.splits entry.splits)
qed

lemma bkt_at_set_top [simp]: "m \<noteq> n \<Longrightarrow> bkt_at (n # q) (bkt_set (m # r) c s) = bkt_at (n # q) s"
  using bkt_at_set_other [of m n "[]"] by simp

lemma wf_set_ent: "wf_bucket b \<Longrightarrow> wf_entry e \<Longrightarrow> wf_bucket (set_ent k e b)"
proof (cases b)
  case (Bucket q es)
  assume "wf_bucket b" "wf_entry e"
  then show ?thesis
    using set_al_put [of k e es] by (auto simp: Bucket set_ent_def al_sorted_put dest!: subsetD)
qed

lemma wf_del_ent: "wf_bucket b \<Longrightarrow> wf_bucket (del_ent k b)"
  by (cases b) (auto simp: del_ent_def al_sorted_del)

lemma wf_ent: "wf_bucket b \<Longrightarrow> ent k b = Some e \<Longrightarrow> wf_entry e"
  by (cases b) (auto simp: ent_def dest!: map_of_SomeD)

lemma wf_empty_bucket [simp]: "wf_bucket empty_bucket"
  by (simp add: empty_bucket_def)

lemma wf_bkt_at: "wf_bucket s \<Longrightarrow> bkt_at p s = Some b \<Longrightarrow> wf_bucket b"
proof (induction p arbitrary: s)
  case (Cons n p)
  then show ?case by (auto split: option.splits entry.splits dest: wf_ent)
qed simp

lemma wf_bkt_set: "wf_bucket s \<Longrightarrow> wf_bucket c \<Longrightarrow> wf_bucket (bkt_set p c s)"
proof (induction p arbitrary: s)
  case (Cons n p)
  then show ?case by (auto split: option.splits entry.splits intro!: wf_set_ent dest: wf_ent)
qed simp

lemma flat_ent: "flat_bucket b \<Longrightarrow> ent k b \<noteq> Some (Sub c)"
  by (auto simp: flat_bucket_def ent_def list_all_iff dest!: map_of_SomeD)

lemma flat_seek: "flat_bucket b \<Longrightarrow> Cursor_seek k b = Some (j, e) \<Longrightarrow> \<exists>v. e = Leaf v"
  by (auto simp: flat_bucket_def Cursor_seek_def find_Some_iff list_all_iff split: entry.splits
      dest!: nth_mem) (metis entry.exhaust snd_conv)

lemma flat_Delete: "flat_bucket b \<Longrightarrow> Bucket_Delete k b = Inr (del_ent k b)"
  by (auto simp: Bucket_Delete_def split: option.splits entry.splits dest: flat_seek)

lemma flat_Put:
  "flat_bucket b \<Longrightarrow> k \<noteq> [] \<Longrightarrow> length k \<le> MaxKeySize \<Longrightarrow> Bucket_Put k v b = Inr (set_ent k (Leaf v) b)"
  by (auto simp: Bucket_Put_def flat_ent split: option.splits entry.splits)

lemma flat_set_leaf: "flat_bucket b \<Longrightarrow> flat_bucket (set_ent k (Leaf v) b)"
  using set_al_put [of k "Leaf v" "bents b"]
  by (auto simp: flat_bucket_def set_ent_def list_all_iff dest!: subsetD)

lemma flat_del: "flat_bucket b \<Longrightarrow> flat_bucket (del_ent k b)"
  by (auto simp: flat_bucket_def del_ent_def list_all_iff)

lemma flat_empty [simp]: "flat_bucket empty_bucket"
  by (simp add: flat_bucket_def empty_bucket_def)

lemma Bucket_Get_set [simp]: "Bucket_Get j (set_ent k (Leaf v) b) = (if j = k then Some v else Bucket_Get j b)"
  by (simp add: Bucket_Get_def)

lemma Bucket_Get_del [simp]: "Bucket_Get j (del_ent k b) = (if j = k then None else Bucket_Get j b)"
  by (simp add: Bucket_Get_def)

lemma Bucket_Get_empty [simp]: "Bucket_Get k empty_bucket = None"
  by (simp add: Bucket_Get_def)

lemma db_bind_simps:
  "m s = (Ret a, s') \<Longrightarrow> db_bind m f s = f a s'"
  "m s = (Fail e, s') \<Longrightarrow> db_bind m f s = (Fail e, s')"
  "m s = (Panic, s') \<Longrightarrow> db_bind m f s = (Panic, s')"
  by (simp_all add: db_bind_def)

lemma db_bind_Ret:
  "db_bind m f s = (Ret b, s') \<longleftrightarrow> (\<exists>a s1. m s = (Ret a, s1) \<and> f a s1 = (Ret b, s'))"
  by (auto simp: db_bind_def split: prod.splits go.splits)

lemma db_Update_Ret: "f s = (Ret a, s') \<Longrightarrow> db_Update f s = (Ret a, s')"
  by (simp add: db_Update_def)

lemma db_Update_not_Ret: "fst (f s) = r \<Longrightarrow> (\<And>a. r \<noteq> Ret a) \<Longrightarrow> db_Update f s = (r, s)"
  by (cases "f s") (auto simp: db_Update_def split: go.splits)

lemma db_Update_Fail: "f s = (Fail e, s') \<Longrightarrow> db_Update f s = (Fail e, s)"
  by (simp add: db_Update_def)

end
