(* ===== verification/Store.thy ===== *)
theory Store
  imports Bolt
begin

text \<open>
  Package \<^verbatim>\<open>store\<close>: the functions on a bolt transaction from which every other package
  builds its own (\<^verbatim>\<open>store/funcs.go\<close>, \<^verbatim>\<open>store.go\<close>, \<^verbatim>\<open>errors.go\<close>, \<^verbatim>\<open>loadstorer.go\<close>).  A Go
  \<^verbatim>\<open>func(*bolt.Tx) error\<close> is a \<open>unit dbop\<close>; a function that fills a pointer returns what it
  fills in.  The JSON codec that \<^verbatim>\<open>Marshal\<close> and \<^verbatim>\<open>Unmarshal\<close> find by reflection is an
  argument.  The second half gives the table view of the database, the interface
  \<open>kv_tables\<close> that the clients rely on, and its interpretation on the model.
\<close>

section \<open>Errors\<close>

fun store_IsMissingBucket :: "err \<Rightarrow> bool" where
  "store_IsMissingBucket (ErrMissingBucket _) = True"
| "store_IsMissingBucket _ = False"

fun store_IsExists :: "err \<Rightarrow> bool" where
  "store_IsExists (ExistsError _ _) = True"
| "store_IsExists _ = False"

fun store_IsMissing :: "err \<Rightarrow> bool" where
  "store_IsMissing (MissingError _ _) = True"
| "store_IsMissing _ = False"

text \<open>\<^verbatim>\<open>OrMissing\<close> on a mutation or view: a missing key or bucket is no error, and what the
  function would have filled in keeps its value \<open>d\<close>.\<close>

definition store_OrMissing :: "'a \<Rightarrow> 'a dbop \<Rightarrow> 'a dbop" where
  "store_OrMissing d m =
     db_catch m (\<lambda>e. if store_IsMissingBucket e \<or> store_IsMissing e then db_return d else db_fail e)"

section \<open>Keys and values\<close>

definition store_Put :: "bytes \<Rightarrow> bytes \<Rightarrow> val \<Rightarrow> unit dbop" where
  "store_Put b k v = on_bkt [b] (Bucket_Put k v)"

definition store_Get :: "bytes \<Rightarrow> bytes \<Rightarrow> val dbop" where
  "store_Get b k = rd_bkt [b] (\<lambda>B. go_of_option (MissingError k b) (Bucket_Get k B))"

definition store_Delete :: "bytes \<Rightarrow> bytes \<Rightarrow> unit dbop" where
  "store_Delete b k = on_bkt [b] (Bucket_Delete k)"

definition store_Marshal :: "('a \<Rightarrow> json) \<Rightarrow> bytes \<Rightarrow> 'a \<Rightarrow> bytes \<Rightarrow> unit dbop" where
  "store_Marshal enc b x k = store_Put b k (Doc (enc x))"

text \<open>\<^verbatim>\<open>json.Unmarshal\<close> of a stored value into a variable that holds \<open>to\<close>.\<close>

fun json_Unmarshal :: "(json \<Rightarrow> 'a \<Rightarrow> 'a option) \<Rightarrow> val \<Rightarrow> 'a \<Rightarrow> 'a go" where
  "json_Unmarshal dec (Doc j) to = go_of_option JsonErr (dec j to)"
| "json_Unmarshal dec (Raw _) to = Fail JsonErr"

text \<open>The same on what a cursor shows, where the value of a nested bucket is nil.\<close>

fun json_Unmarshal_item :: "(json \<Rightarrow> 'a \<Rightarrow> 'a option) \<Rightarrow> val option \<Rightarrow> 'a \<Rightarrow> 'a go" where
  "json_Unmarshal_item dec (Some v) to = json_Unmarshal dec v to"
| "json_Unmarshal_item dec None to = Fail JsonErr"

definition store_Unmarshal :: "(json \<Rightarrow> 'a \<Rightarrow> 'a option) \<Rightarrow> bytes \<Rightarrow> 'a \<Rightarrow> bytes \<Rightarrow> 'a dbop" where
  "store_Unmarshal dec b to k =
     rd_bkt [b] (\<lambda>B. case Bucket_Get k B of
                       Some v \<Rightarrow> json_Unmarshal dec v to
                     | None \<Rightarrow> Fail (MissingError k b))"

definition store_CheckExists :: "bytes \<Rightarrow> bytes \<Rightarrow> unit dbop" where
  "store_CheckExists b k =
     rd_bkt [b] (\<lambda>B. if Bucket_Get k B = None then Fail (MissingError k b) else Ret ())"

definition store_CheckNotExist :: "bytes \<Rightarrow> bytes \<Rightarrow> unit dbop" where
  "store_CheckNotExist b k =
     rd_bkt [b] (\<lambda>B. if Bucket_Get k B \<noteq> None then Fail (ExistsError k b) else Ret ())"

section \<open>Loops\<close>

text \<open>A \<^verbatim>\<open>ForEach\<close> callback with the variables it captures as an accumulator.\<close>

fun go_foreach :: "('x \<Rightarrow> 'a \<Rightarrow> 'a go) \<Rightarrow> 'x list \<Rightarrow> 'a \<Rightarrow> 'a go" where
  "go_foreach f [] a = Ret a"
| "go_foreach f (x # xs) a = go_bind (f x a) (go_foreach f xs)"

definition store_ForEach :: "bytes \<Rightarrow> (bytes \<times> val option \<Rightarrow> 'a \<Rightarrow> 'a go) \<Rightarrow> 'a \<Rightarrow> 'a dbop" where
  "store_ForEach b f a = rd_bkt [b] (\<lambda>B. go_foreach f (Bucket_items B) a)"

fun store_Wrap :: "unit dbop list \<Rightarrow> unit dbop" where
  "store_Wrap [] s = (Ret (), s)"
| "store_Wrap (app # apps) s =
     (case app s of (Ret _, s') \<Rightarrow> store_Wrap apps s' | r \<Rightarrow> r)"

section \<open>Nested buckets\<close>

fun store_GetNestedBucket :: "path \<Rightarrow> bytes list \<Rightarrow> path dbop" where
  "store_GetNestedBucket b [] s = (Ret b, s)"
| "store_GetNestedBucket b (bk # bks) s =
     (case bkt_at b s of
        None \<Rightarrow> (Panic, s)
      | Some _ \<Rightarrow>
          (case bkt_at (b @ [bk]) s of
             None \<Rightarrow> (Fail (ErrMissingBucket bk), s)
           | Some _ \<Rightarrow> store_GetNestedBucket (b @ [bk]) bks s))"

fun store_MakeNestedBucket :: "path \<Rightarrow> bytes list \<Rightarrow> path dbop" where
  "store_MakeNestedBucket b [] s = (Ret b, s)"
| "store_MakeNestedBucket b (bk # bks) s =
     db_bind (on_bkt b (Bucket_CreateBucketIfNotExists bk))
       (\<lambda>_. store_MakeNestedBucket (b @ [bk]) bks) s"

section \<open>Lists of loaders, storers and deleters\<close>

text \<open>A \<^verbatim>\<open>Storer\<close> takes what to store, a \<^verbatim>\<open>Loader\<close> the variable to fill, a \<^verbatim>\<open>Deleter\<close>
  nothing.\<close>

definition store_StoreAll :: "('w \<Rightarrow> unit dbop) list \<Rightarrow> 'w list \<Rightarrow> unit dbop" where
  "store_StoreAll ss what s =
     (if length ss \<noteq> length what then (Fail (Errorf ''number of storers must match number of objects''), s)
      else store_Wrap (map2 (\<lambda>st w. st w) ss what) s)"

fun load_each :: "('w \<Rightarrow> 'w dbop) list \<Rightarrow> 'w list \<Rightarrow> 'w list dbop" where
  "load_each (l # ls) (w # ws) s =
     db_bind (l w) (\<lambda>w'. db_bind (load_each ls ws) (\<lambda>ws'. db_return (w' # ws'))) s"
| "load_each _ _ s = (Ret [], s)"

definition store_LoadAll :: "('w \<Rightarrow> 'w dbop) list \<Rightarrow> 'w list \<Rightarrow> 'w list dbop" where
  "store_LoadAll ls into s =
     (if length ls \<noteq> length into then (Fail (Errorf ''number of loaders must match number of objects''), s)
      else load_each ls into s)"

definition store_DeleteAll :: "unit dbop list \<Rightarrow> unit dbop" where
  "store_DeleteAll ds = store_Wrap ds"

section \<open>Versions and set-up\<close>

definition VerNone :: bytes where "VerNone = []"
definition VerAlpha001_2 :: bytes where "VerAlpha001_2 = ''0.0.1-alpha-2''"
definition Ver001 :: bytes where "Ver001 = ''0.0.1''"
definition VerCurrent :: bytes where "VerCurrent = Ver001"
definition VersionBucket :: bytes where "VersionBucket = ''version''"

definition store_PutV :: "bytes \<Rightarrow> unit dbop" where
  "store_PutV v =
     store_Wrap
       [on_bkt [] (Bucket_CreateBucketIfNotExists VersionBucket),
        store_Put VersionBucket ''version'' (Raw v)]"

definition store_migrations :: "(bytes \<times> (bytes \<times> unit dbop) list) list" where
  "store_migrations =
     [(VerNone, [(VerAlpha001_2, store_PutV VerAlpha001_2), (Ver001, store_PutV Ver001)]),
      (VerAlpha001_2, [(Ver001, store_PutV Ver001)])]"

definition store_MigrateFrom :: "bytes \<Rightarrow> bytes \<Rightarrow> unit dbop" where
  "store_MigrateFrom from to =
     (case map_of store_migrations from of
        None \<Rightarrow> db_fail (Errorf ''no migration defined from version'')
      | Some msFrom \<Rightarrow>
          if from = to then db_return ()
          else (case map_of msFrom to of
                  None \<Rightarrow> db_fail (Errorf ''no migration defined from version to version'')
                | Some mTo \<Rightarrow> mTo))"

fun raw_bytes :: "val option \<Rightarrow> bytes" where
  "raw_bytes (Some (Raw bs)) = bs"
| "raw_bytes _ = []"

definition store_Migrate :: "bytes \<Rightarrow> unit dbop" where
  "store_Migrate v s =
     (case bkt_at [VersionBucket] s of
        Some B \<Rightarrow>
          (let oldVer = raw_bytes (Bucket_Get ''version'' B)
           in if v \<noteq> oldVer then store_MigrateFrom oldVer v s else (Ret (), s))
      | None \<Rightarrow> store_MigrateFrom VerNone v s)"

definition store_SetupBuckets :: "bytes list \<Rightarrow> unit dbop" where
  "store_SetupBuckets bs = store_Wrap (map (\<lambda>b. on_bkt [] (Bucket_CreateBucketIfNotExists b)) bs)"

definition store_Prep :: "bytes list \<Rightarrow> unit dbop" where
  "store_Prep bs = store_Wrap [store_Migrate VerCurrent, store_SetupBuckets bs]"

section \<open>The table view\<close>

text \<open>
  What the clients see of a top-level bucket is a table from keys to values.  \<open>has_tbl b s\<close>
  says that the bucket is there and holds values only; \<open>db_put\<close> and \<open>db_del\<close> are the
  states after a successful \<open>store_Put\<close> and \<open>store_Delete\<close>.
\<close>

definition table :: "db \<Rightarrow> bytes \<Rightarrow> bytes \<Rightarrow> val option" where
  "table s b k = (case bkt_at [b] s of None \<Rightarrow> None | Some B \<Rightarrow> Bucket_Get k B)"

definition has_tbl :: "bytes \<Rightarrow> db \<Rightarrow> bool" where
  "has_tbl b s = (case bkt_at [b] s of None \<Rightarrow> False | Some B \<Rightarrow> flat_bucket B)"

definition valid_key :: "bytes \<Rightarrow> bool" where
  "valid_key k = (k \<noteq> [] \<and> length k \<le> MaxKeySize)"

definition db_put :: "bytes \<Rightarrow> bytes \<Rightarrow> val \<Rightarrow> db \<Rightarrow> db" where
  "db_put b k v s = (case bkt_at [b] s of None \<Rightarrow> s | Some B \<Rightarrow> bkt_set [b] (set_ent k (Leaf v) B) s)"

definition db_del :: "bytes \<Rightarrow> bytes \<Rightarrow> db \<Rightarrow> db" where
  "db_del b k s = (case bkt_at [b] s of None \<Rightarrow> s | Some B \<Rightarrow> bkt_set [b] (del_ent k B) s)"

text \<open>
  The interface of a store with tables: the states after a put and after a delete, the view
  of a state, and which tables it has.
\<close>

locale kv_tables =
  fixes put :: "bytes \<Rightarrow> bytes \<Rightarrow> val \<Rightarrow> 's \<Rightarrow> 's"
    and del :: "bytes \<Rightarrow> bytes \<Rightarrow> 's \<Rightarrow> 's"
    and view :: "'s \<Rightarrow> bytes \<Rightarrow> bytes \<Rightarrow> val option"
    and ok :: "bytes \<Rightarrow> 's \<Rightarrow> bool"
  assumes view_put: "ok b s \<Longrightarrow> view (put b k v s) = (view s)(b := (view s b)(k \<mapsto> v))"
    and view_del: "ok b s \<Longrightarrow> view (del b k s) = (view s)(b := (view s b)(k := None))"
    and ok_put: "ok b s \<Longrightarrow> ok c (put b k v s) = ok c s"
    and ok_del: "ok b s \<Longrightarrow> ok c (del b k s) = ok c s"
begin

text \<open>Clients store and delete lists of keys; the view after the whole list.\<close>

lemma ok_fold_put: "ok b s \<Longrightarrow> ok c (fold (\<lambda>p. put b (fst p) (snd p)) kvs s) = ok c s"
  by (induction kvs arbitrary: s) (simp_all add: ok_put)

lemma ok_fold_del: "ok b s \<Longrightarrow> ok c (fold (del b) ks s) = ok c s"
  by (induction ks arbitrary: s) (simp_all add: ok_del)

lemma view_fold_put:
  "ok b s \<Longrightarrow> view (fold (\<lambda>p. put b (fst p) (snd p)) kvs s) = (view s)(b := view s b ++ map_of (rev kvs))"
proof (induction kvs arbitrary: s)
  case Nil
  then show ?case by simp
next
  case (Cons p kvs)
  have "view (fold (\<lambda>p. put b (fst p) (snd p)) (p # kvs) s) =
      (view (put b (fst p) (snd p) s))(b := view (put b (fst p) (snd p) s) b ++ map_of (rev kvs))"
    using Cons.IH [of "put b (fst p) (snd p) s"] Cons.prems by (simp only: fold.simps comp_apply ok_put)
  also have "\<dots> = (view s)(b := view s b ++ map_of (rev (p # kvs)))"
    unfolding view_put [OF Cons.prems] by simp
  finally show ?case .
qed

lemma view_fold_del:
  "ok b s \<Longrightarrow> view (fold (del b) ks s) = (view s)(b := view s b |` (- set ks))"
proof (induction ks arbitrary: s)
  case Nil
  then show ?case by simp
next
  case (Cons k ks)
  then show ?case
    by (auto simp: ok_del view_del fun_eq_iff restrict_map_def)
qed

text \<open>Deleting what was put on an unused key gives the old view back.\<close>

lemma view_put_del: "ok b s \<Longrightarrow> view s b k = None \<Longrightarrow> view (del b k (put b k v s)) = view s"
  by (auto simp: ok_put view_put view_del fun_eq_iff)

end

section \<open>Lemmas\<close>

lemma has_tblE:
  assumes "has_tbl b s"
  obtains B where "bkt_at [b] s = Some B" and "flat_bucket B"
  using assms by (auto simp: has_tbl_def split: option.splits)

lemma bkt_at_db_put:
  "has_tbl b s \<Longrightarrow> bkt_at [c] (db_put b k v s) =
     (if c = b then map_option (set_ent k (Leaf v)) (bkt_at [b] s) else bkt_at [c] s)"
  by (erule has_tblE) (cases "c = b"; simp add: db_put_def del: bkt_at.simps bkt_set.simps)

lemma bkt_at_db_del:
  "has_tbl b s \<Longrightarrow> bkt_at [c] (db_del b k s) =
     (if c = b then map_option (del_ent k) (bkt_at [b] s) else bkt_at [c] s)"
  by (erule has_tblE) (cases "c = b"; simp add: db_del_def del: bkt_at.simps bkt_set.simps)

lemma has_tbl_db_put [simp]: "has_tbl b s \<Longrightarrow> has_tbl c (db_put b k v s) = has_tbl c s"
  by (auto simp: has_tbl_def [of c] bkt_at_db_put simp del: bkt_at.simps elim!: has_tblE
      intro: flat_set_leaf)

lemma has_tbl_db_del [simp]: "has_tbl b s \<Longrightarrow> has_tbl c (db_del b k s) = has_tbl c s"
  by (auto simp: has_tbl_def [of c] bkt_at_db_del simp del: bkt_at.simps elim!: has_tblE
      intro: flat_del)

lemma table_db_put [simp]:
  "has_tbl b s \<Longrightarrow> table (db_put b k v s) = (table s)(b := (table s b)(k \<mapsto> v))"
  by (auto simp: table_def bkt_at_db_put fun_eq_iff simp del: bkt_at.simps elim!: has_tblE)

lemma table_db_del [simp]:
  "has_tbl b s \<Longrightarrow> table (db_del b k s) = (table s)(b := (table s b)(k := None))"
  by (auto simp: table_def bkt_at_db_del fun_eq_iff simp del: bkt_at.simps elim!: has_tblE)

interpretation bolt: kv_tables db_put db_del table has_tbl
  by unfold_locales simp_all

lemma wf_db_put: "wf_bucket s \<Longrightarrow> wf_bucket (db_put b k v s)"
proof (cases "bkt_at [b] s")
  case (Some B)
  assume "wf_bucket s"
  then have "wf_bucket (set_ent k (Leaf v) B)"
    using wf_bkt_at [OF \<open>wf_bucket s\<close> Some] by (simp add: wf_set_ent)
  with \<open>wf_bucket s\<close> show ?thesis
    by (simp add: db_put_def Some wf_bkt_set del: bkt_at.simps bkt_set.simps)
qed (simp add: db_put_def del: bkt_at.simps)

lemma wf_db_del: "wf_bucket s \<Longrightarrow> wf_bucket (db_del b k s)"
proof (cases "bkt_at [b] s")
  case (Some B)
  assume "wf_bucket s"
  then have "wf_bucket (del_ent k B)"
    using wf_bkt_at [OF \<open>wf_bucket s\<close> Some] by (simp add: wf_del_ent)
  with \<open>wf_bucket s\<close> show ?thesis
    by (simp add: db_del_def Some wf_bkt_set del: bkt_at.simps bkt_set.simps)
qed (simp add: db_del_def del: bkt_at.simps)

text \<open>The store functions in terms of the table view.\<close>

lemma store_Put_ok [simp]:
  "has_tbl b s \<Longrightarrow> valid_key k \<Longrightarrow> store_Put b k v s = (Ret (), db_put b k v s)"
  by (erule has_tblE) (simp add: store_Put_def on_bkt_def db_put_def flat_Put valid_key_def del: bkt_at.simps)

lemma store_Put_invalid:
  "has_tbl b s \<Longrightarrow> \<not> valid_key k \<Longrightarrow> \<exists>e. store_Put b k v s = (Fail (BoltErr e), s)"
  by (erule has_tblE) (auto simp: store_Put_def on_bkt_def Bucket_Put_def valid_key_def simp del: bkt_at.simps)

lemma store_Delete_ok [simp]: "has_tbl b s \<Longrightarrow> store_Delete b k s = (Ret (), db_del b k s)"
  by (erule has_tblE) (simp add: store_Delete_def on_bkt_def db_del_def flat_Delete del: bkt_at.simps)

lemma store_Get_eq:
  "has_tbl b s \<Longrightarrow> store_Get b k s = (go_of_option (MissingError k b) (table s b k), s)"
  by (erule has_tblE) (simp add: store_Get_def rd_bkt_def table_def del: bkt_at.simps)

lemma store_Unmarshal_eq:
  "has_tbl b s \<Longrightarrow> store_Unmarshal dec b to k s =
     (case table s b k of Some v \<Rightarrow> json_Unmarshal dec v to | None \<Rightarrow> Fail (MissingError k b), s)"
  by (erule has_tblE) (simp add: store_Unmarshal_def rd_bkt_def table_def del: bkt_at.simps)

lemma store_CheckExists_eq:
  "has_tbl b s \<Longrightarrow> store_CheckExists b k s =
     (if table s b k = None then Fail (MissingError k b) else Ret (), s)"
  by (erule has_tblE) (simp add: store_CheckExists_def rd_bkt_def table_def del: bkt_at.simps)

lemma store_CheckNotExist_eq:
  "has_tbl b s \<Longrightarrow> store_CheckNotExist b k s =
     (if table s b k = None then Ret () else Fail (ExistsError k b), s)"
  by (erule has_tblE) (auto simp: store_CheckNotExist_def rd_bkt_def table_def simp del: bkt_at.simps)

lemmas store_eqs = store_Get_eq store_Unmarshal_eq store_CheckExists_eq store_CheckNotExist_eq

lemma store_Marshal_ok [simp]:
  "has_tbl b s \<Longrightarrow> valid_key k \<Longrightarrow> store_Marshal enc b x k s = (Ret (), db_put b k (Doc (enc x)) s)"
  by (simp add: store_Marshal_def)

lemma json_Unmarshal_Ret: "json_Unmarshal dec v to = Ret x \<longleftrightarrow> (\<exists>j. v = Doc j \<and> dec j to = Some x)"
  by (cases v) auto

text \<open>Reads never change the state.\<close>

lemma rd_bkt_state [simp]: "snd (rd_bkt p f s) = s"
  by (simp add: rd_bkt_def split: option.splits)

lemma store_read_state [simp]:
  "snd (store_Get b k s) = s" "snd (store_Unmarshal dec b to k s) = s"
  "snd (store_CheckExists b k s) = s" "snd (store_CheckNotExist b k s) = s"
  "snd (store_ForEach b f a s) = s"
  by (simp_all add: store_Get_def store_Unmarshal_def store_CheckExists_def store_CheckNotExist_def
      store_ForEach_def)

lemma store_Wrap_Ret:
  "store_Wrap (app # apps) s = (Ret u, s') \<longleftrightarrow> (\<exists>s1 v. app s = (Ret v, s1) \<and> store_Wrap apps s1 = (Ret u, s'))"
  by (auto split: prod.splits go.splits)

lemma store_Wrap_append:
  "store_Wrap (xs @ ys) s = (case store_Wrap xs s of (Ret _, s') \<Rightarrow> store_Wrap ys s' | r \<Rightarrow> r)"
  by (induction xs arbitrary: s) (auto split: prod.splits go.splits)

lemma go_foreach_append:
  "go_foreach f (xs @ ys) a = go_bind (go_foreach f xs a) (go_foreach f ys)"
proof (induction xs arbitrary: a)
  case (Cons x xs)
  then show ?case by (cases "f x a") simp_all
qed simp

text \<open>Storing and deleting many keys of one table.\<close>

lemma store_Wrap_Puts:
  "has_tbl b s \<Longrightarrow> list_all (\<lambda>p. valid_key (fst p)) kvs \<Longrightarrow>
   store_Wrap (map (\<lambda>p. store_Put b (fst p) (snd p)) kvs) s
     = (Ret (), fold (\<lambda>p. db_put b (fst p) (snd p)) kvs s)"
  by (induction kvs arbitrary: s) simp_all

lemma store_Wrap_Deletes:
  "has_tbl b s \<Longrightarrow> store_Wrap (map (store_Delete b) ks) s = (Ret (), fold (db_del b) ks s)"
  by (induction ks arbitrary: s) simp_all

section \<open>Fresh databases\<close>

text \<open>A database with empty buckets of the given names, as \<^verbatim>\<open>SetupBuckets\<close> leaves it.\<close>

definition db_of :: "bytes list \<Rightarrow> db" where
  "db_of bs = Bucket 0 (map (\<lambda>b. (b, Sub empty_bucket)) bs)"

lemma ent_db_of: "ent b (db_of bs) = (if b \<in> set bs then Some (Sub empty_bucket) else None)"
  unfolding ent_def db_of_def bucket.sel by (induction bs) auto

lemma has_tbl_db_of [simp]: "has_tbl b (db_of bs) = (b \<in> set bs)"
  by (auto simp: has_tbl_def ent_db_of)

lemma table_db_of [simp]: "table (db_of bs) b k = None"
  by (simp add: table_def ent_db_of)

lemma wf_db_of [simp]: "sorted_wrt (<) bs \<Longrightarrow> wf_bucket (db_of bs)"
  by (auto simp: db_of_def al_sorted_def comp_def)

end
