(* ===== verification/Json.thy ===== *)
theory Json
  imports Store
begin

text \<open>
  How \<^verbatim>\<open>encoding/json\<close> fills the fields of the program's structs.  Decoding goes into a
  variable that already has a value: a member that is absent leaves its field alone, \<^verbatim>\<open>null\<close>
  sets a map, slice or pointer to nil and leaves any other field alone, and a member of the
  wrong type is an error.  The locale \<open>json_codec\<close> is the contract between a struct's
  encoder and decoder; its lemmas carry it through the store functions.
\<close>

section \<open>Fields\<close>

definition jfield :: "string \<Rightarrow> json \<Rightarrow> json option" where
  "jfield n j = (case j of JObj fs \<Rightarrow> map_of (rev fs) n | _ \<Rightarrow> None)"

fun is_obj :: "json \<Rightarrow> bool" where
  "is_obj (JObj _) = True"
| "is_obj JNull = True"
| "is_obj _ = False"

fun dec_str :: "json option \<Rightarrow> string \<Rightarrow> string option" where
  "dec_str None d = Some d"
| "dec_str (Some JNull) d = Some d"
| "dec_str (Some (JStr s)) d = Some s"
| "dec_str (Some _) d = None"

fun dec_bool :: "json option \<Rightarrow> bool \<Rightarrow> bool option" where
  "dec_bool None d = Some d"
| "dec_bool (Some JNull) d = Some d"
| "dec_bool (Some (JBool b)) d = Some b"
| "dec_bool (Some _) d = None"

fun dec_int64 :: "json option \<Rightarrow> int64 \<Rightarrow> int64 option" where
  "dec_int64 None d = Some d"
| "dec_int64 (Some JNull) d = Some d"
| "dec_int64 (Some (JNum n)) d =
     (if - (2 ^ 63) \<le> n \<and> n < 2 ^ 63 then Some (word_of_int n) else None)"
| "dec_int64 (Some _) d = None"

fun dec_bytes :: "json option \<Rightarrow> bytes \<Rightarrow> bytes option" where
  "dec_bytes None d = Some d"
| "dec_bytes (Some JNull) d = Some []"
| "dec_bytes (Some (JBytes b)) d = Some b"
| "dec_bytes (Some _) d = None"

fun dec_uuid :: "json option \<Rightarrow> uuid \<Rightarrow> uuid option" where
  "dec_uuid None d = Some d"
| "dec_uuid (Some JNull) d = Some d"
| "dec_uuid (Some (JUUID u)) d = Some u"
| "dec_uuid (Some _) d = None"

fun dec_time :: "json option \<Rightarrow> gtime \<Rightarrow> gtime option" where
  "dec_time None d = Some d"
| "dec_time (Some JNull) d = Some d"
| "dec_time (Some (JTime t)) d = Some t"
| "dec_time (Some _) d = None"

fun dec_time_ptr :: "json option \<Rightarrow> gtime option \<Rightarrow> gtime option option" where
  "dec_time_ptr None d = Some d"
| "dec_time_ptr (Some JNull) d = Some None"
| "dec_time_ptr (Some (JTime t)) d = Some (Some t)"
| "dec_time_ptr (Some _) d = None"

text \<open>A map keeps the entries it had; the members of the object are assigned in turn.\<close>

fun dec_members :: "(string \<times> json) list \<Rightarrow> (string \<times> bool) list \<Rightarrow> (string \<times> bool) list option" where
  "dec_members [] m = Some m"
| "dec_members ((k, JBool b) # fs) m = dec_members fs (assoc_set k b m)"
| "dec_members ((k, JNull) # fs) m = dec_members fs (assoc_set k False m)"
| "dec_members _ m = None"

fun dec_smap :: "json option \<Rightarrow> smap \<Rightarrow> smap option" where
  "dec_smap None d = Some d"
| "dec_smap (Some JNull) d = Some None"
| "dec_smap (Some (JObj fs)) d =
     map_option Some (dec_members fs (case d of None \<Rightarrow> [] | Some m \<Rightarrow> m))"
| "dec_smap (Some _) d = None"

fun dec_list :: "(json \<Rightarrow> 'a option) \<Rightarrow> json list \<Rightarrow> 'a list option" where
  "dec_list f [] = Some []"
| "dec_list f (j # js) =
     (case f j of None \<Rightarrow> None | Some a \<Rightarrow> map_option ((#) a) (dec_list f js))"

fun dec_slice :: "(json \<Rightarrow> 'a option) \<Rightarrow> json option \<Rightarrow> 'a list \<Rightarrow> 'a list option" where
  "dec_slice f None d = Some d"
| "dec_slice f (Some JNull) d = Some []"
| "dec_slice f (Some (JArr js)) d = dec_list f js"
| "dec_slice f (Some _) d = None"

fun text_of :: "json \<Rightarrow> string option" where
  "text_of (JStr s) = Some s"
| "text_of JNull = Some []"
| "text_of _ = None"

fun bytes_of :: "json \<Rightarrow> bytes option" where
  "bytes_of (JBytes b) = Some b"
| "bytes_of _ = None"

text \<open>Encoding of a map: \<^verbatim>\<open>null\<close> for the nil map, else one member per entry.\<close>

definition enc_smap :: "smap \<Rightarrow> json" where
  "enc_smap m = (case m of None \<Rightarrow> JNull | Some xs \<Rightarrow> JObj (map (\<lambda>p. (fst p, JBool (snd p))) xs))"

text \<open>\<^verbatim>\<open>omitempty\<close>: the member is left out when the field is empty.\<close>

definition omitempty :: "bool \<Rightarrow> string \<Rightarrow> json \<Rightarrow> (string \<times> json) list" where
  "omitempty e n j = (if e then [] else [(n, j)])"

section \<open>Codecs\<close>

text \<open>\<open>holds_tbl enc ok b t s\<close>: the bucket \<open>b\<close> of the database stores the typed table \<open>t\<close>.\<close>

definition holds_tbl :: "('a \<Rightarrow> json) \<Rightarrow> ('a \<Rightarrow> bool) \<Rightarrow> bytes \<Rightarrow> (bytes \<rightharpoonup> 'a) \<Rightarrow> db \<Rightarrow> bool" where
  "holds_tbl enc ok b t s \<longleftrightarrow>
     has_tbl b s \<and> (\<forall>x \<in> ran t. ok x) \<and> table s b = map_option (\<lambda>x. Doc (enc x)) \<circ> t"

text \<open>
  The contract of a struct's codec: decoding what was encoded, into a new variable, gives
  the value back for every value the encoding represents.
\<close>

locale json_codec =
  fixes enc :: "'a \<Rightarrow> json"
    and dec :: "json \<Rightarrow> 'a \<Rightarrow> 'a option"
    and zero :: 'a
    and ok :: "'a \<Rightarrow> bool"
  assumes dec_enc: "ok x \<Longrightarrow> dec (enc x) zero = Some x"
begin

lemma holds_table: "holds_tbl enc ok b t s \<Longrightarrow> table s b k = map_option (\<lambda>x. Doc (enc x)) (t k)"
  by (simp add: holds_tbl_def)

lemma Unmarshal_stored:
  "has_tbl b s \<Longrightarrow> table s b k = Some (Doc (enc x)) \<Longrightarrow> ok x \<Longrightarrow>
   store_Unmarshal dec b zero k s = (Ret x, s)"
  by (simp add: store_Unmarshal_eq dec_enc)

lemma Unmarshal_Marshal:
  "has_tbl b s \<Longrightarrow> valid_key k \<Longrightarrow> ok x \<Longrightarrow> store_Marshal enc b x k s = (Ret (), s') \<Longrightarrow>
   store_Unmarshal dec b zero k s' = (Ret x, s')"
  by (auto simp: store_Unmarshal_eq dec_enc)

text \<open>The refinement: on typed tables, \<^verbatim>\<open>Marshal\<close> is map update, \<^verbatim>\<open>Unmarshal\<close> lookup and
  \<^verbatim>\<open>Delete\<close> removal.\<close>

lemma holds_Marshal:
  assumes "holds_tbl enc ok b t s" and "valid_key k" and "ok x"
  shows "store_Marshal enc b x k s = (Ret (), db_put b k (Doc (enc x)) s)"
    and "holds_tbl enc ok b (t(k \<mapsto> x)) (db_put b k (Doc (enc x)) s)"
  using assms by (auto simp: holds_tbl_def fun_eq_iff ran_def)

lemma holds_Delete:
  assumes "holds_tbl enc ok b t s"
  shows "store_Delete b k s = (Ret (), db_del b k s)"
    and "holds_tbl enc ok b (t(k := None)) (db_del b k s)"
  using assms by (auto simp: holds_tbl_def fun_eq_iff ran_def)

lemma holds_Unmarshal:
  assumes "holds_tbl enc ok b t s"
  shows "store_Unmarshal dec b zero k s = (go_of_option (MissingError k b) (t k), s)"
proof (cases "t k")
  case None
  with assms show ?thesis by (simp add: holds_tbl_def store_Unmarshal_eq)
next
  case (Some x)
  with assms have "ok x" by (auto simp: holds_tbl_def intro: ranI)
  with Some assms show ?thesis by (simp add: holds_tbl_def store_Unmarshal_eq dec_enc)
qed

lemma holds_frame: "holds_tbl enc ok b t s \<Longrightarrow> has_tbl b s' \<Longrightarrow> table s' b = table s b \<Longrightarrow> holds_tbl enc ok b t s'"
  by (simp add: holds_tbl_def)

end

section \<open>Loops over typed tables\<close>

lemma flat_items:
  assumes flat: "flat_bucket B" and wf: "wf_bucket B"
  shows "(k, x) \<in> set (Bucket_items B) \<longleftrightarrow> (\<exists>v. x = Some v \<and> Bucket_Get k B = Some v)"
proof -
  define g where "g e = (case e of Leaf v \<Rightarrow> Some v | Sub _ \<Rightarrow> None)" for e
  have d: "distinct (map fst (bents B))" using wf by (cases B) (simp add: al_sorted_distinct)
  have "(k, x) \<in> set (Bucket_items B) \<longleftrightarrow> (\<exists>e. (k, e) \<in> set (bents B) \<and> x = g e)"
    by (auto simp: Bucket_items_def g_def image_iff intro: bexI [where x = "(k, e)" for e])
  also have "\<dots> \<longleftrightarrow> (\<exists>e. ent k B = Some e \<and> x = g e)"
    using d by (simp add: ent_def)
  also have "\<dots> \<longleftrightarrow> (\<exists>v. x = Some v \<and> Bucket_Get k B = Some v)"
  proof (cases "ent k B")
    case (Some e)
    with flat_ent [OF flat, of k] obtain v where "e = Leaf v" by (cases e) auto
    with Some show ?thesis by (simp add: g_def Bucket_Get_def)
  qed (simp add: Bucket_Get_def)
  finally show ?thesis .
qed

text \<open>A loop over a typed table visits its entries, each key once.\<close>

lemma holds_ForEach:
  assumes "wf_bucket s" and "holds_tbl enc ok b t s"
  obtains kxs where "map_of kxs = t" and "sorted_wrt (<) (map fst kxs)"
    and "\<And>f (a :: 'z). store_ForEach b f a s = (go_foreach f (map (\<lambda>p. (fst p, Some (Doc (enc (snd p))))) kxs) a, s)"
proof -
  obtain B where B: "bkt_at [b] s = Some B" "flat_bucket B"
    using assms(2) by (auto simp: holds_tbl_def elim!: has_tblE)
  have wf: "wf_bucket B" by (rule wf_bkt_at [OF assms(1) B(1)])
  define kxs where "kxs = map (\<lambda>p. (fst p, the (t (fst p)))) (bents B)"
  have srt: "sorted_wrt (<) (map fst (bents B))"
    using wf by (cases B) (simp add: al_sorted_def)
  have get: "Bucket_Get k B = map_option (\<lambda>x. Doc (enc x)) (t k)" for k
    using assms(2) B(1) by (auto simp: holds_tbl_def table_def fun_eq_iff simp del: bkt_at.simps)
  have items: "Bucket_items B = map (\<lambda>p. (fst p, Some (Doc (enc (snd p))))) kxs"
  proof -
    have "snd q = Some (Doc (enc (the (t (fst q)))))" if "q \<in> set (Bucket_items B)" for q
      using that flat_items [OF B(2) wf, of "fst q" "snd q"] get [of "fst q"] by auto
    then have "map (\<lambda>q. (fst q, Some (Doc (enc (the (t (fst q))))))) (Bucket_items B) = Bucket_items B"
      by (intro map_idI) (metis prod.collapse)
    then show ?thesis by (simp add: kxs_def Bucket_items_def comp_def)
  qed
  have keys: "map fst kxs = map fst (bents B)" by (simp add: kxs_def comp_def)
  have "map_of kxs k = t k" for k
  proof (cases "t k")
    case None
    then have "k \<notin> fst ` set (Bucket_items B)"
      using flat_items [OF B(2) wf, of k] get [of k] by force
    then show ?thesis using None by (simp add: items image_image map_of_eq_None_iff)
  next
    case (Some x)
    then have "(k, Some (Doc (enc x))) \<in> set (Bucket_items B)"
      using flat_items [OF B(2) wf, of k] get [of k] by simp
    then have "k \<in> fst ` set kxs" by (force simp: items)
    then have "k \<in> fst ` set (bents B)" by (metis keys list.set_map)
    then have "(k, the (t k)) \<in> set kxs" by (force simp: kxs_def)
    moreover have "distinct (map fst kxs)" using srt by (simp add: keys strict_sorted_iff)
    ultimately show ?thesis using Some by simp
  qed
  then have "map_of kxs = t" by (rule ext)
  moreover have "store_ForEach b f a s = (go_foreach f (map (\<lambda>p. (fst p, Some (Doc (enc (snd p))))) kxs) a, s)" for f and a :: 'z
    by (simp add: store_ForEach_def rd_bkt_def B(1) items del: bkt_at.simps)
  ultimately show thesis using that srt by (simp add: keys)
qed

section \<open>Lemmas\<close>

lemma dec_int64_enc [simp]: "dec_int64 (Some (JNum (sint w))) d = Some w"
  using sint_range_size [of w] by (simp add: word_size)

lemma sint64_range [simp]:
  "- 9223372036854775808 \<le> sint (w :: int64)" "sint (w :: int64) < 9223372036854775808"
  using sint_range_size [of w] by (simp_all add: word_size)

lemma dec_members_enc:
  "distinct (map fst m @ map fst xs) \<Longrightarrow> dec_members (map (\<lambda>p. (fst p, JBool (snd p))) xs) m = Some (m @ xs)"
proof (induction xs arbitrary: m)
  case (Cons p xs)
  have set_new: "k \<notin> fst ` set ps \<Longrightarrow> assoc_set k v ps = ps @ [(k, v)]" for k v and ps :: "(string \<times> bool) list"
    by (induction ps) auto
  from Cons show ?case by (cases p) (auto simp: set_new)
qed simp

lemma dec_smap_enc [simp]: "smap_ok m \<Longrightarrow> dec_smap (Some (enc_smap m)) None = Some m"
  by (cases m) (auto simp: enc_smap_def smap_ok_def dec_members_enc)

lemma dec_list_map [simp]: "(\<And>x. x \<in> set xs \<Longrightarrow> f (g x) = Some x) \<Longrightarrow> dec_list f (map g xs) = Some xs"
  by (induction xs) auto

lemma jfield_Nil [simp]: "jfield n (JObj []) = None"
  by (simp add: jfield_def)

lemma jfield_Cons [simp]:
  "jfield n (JObj (p # fs)) = (case jfield n (JObj fs) of Some j \<Rightarrow> Some j | None \<Rightarrow> if fst p = n then Some (snd p) else None)"
  by (cases p) (auto simp: jfield_def map_add_def map_of_append split: option.splits)

lemma jfield_omit_last [simp]:
  "jfield n (JObj (omitempty e m j)) = (if m = n \<and> \<not> e then Some j else None)"
  by (simp add: omitempty_def)

text \<open>Decoding a member that \<^verbatim>\<open>omitempty\<close> may have left out, into an empty field.\<close>

lemma dec_omitted [simp]:
  "dec_str (if x = [] then None else Some (JStr x)) [] = Some x"
  "dec_int64 (if w = 0 then None else Some (JNum (sint w))) 0 = Some w"
  "dec_bool (if b then Some (JBool b) else None) False = Some b"
  by simp_all

lemma jfield_omit [simp]:
  "jfield n (JObj (omitempty e m j @ fs)) =
     (case jfield n (JObj fs) of Some i \<Rightarrow> Some i | None \<Rightarrow> if m = n \<and> \<not> e then Some j else None)"
  by (auto simp: omitempty_def split: option.splits)

end
