(* ===== verification/Users.thy ===== *)
theory Users
  imports Json "HOL-Library.Monad_Syntax"
begin

text \<open>
  Package \<^verbatim>\<open>users\<close>: the user records and their coin (\<^verbatim>\<open>users/users.go\<close>), the groups of
  owner, readers and writers that tasks, streams and convos embed, and the filters on them
  (\<^verbatim>\<open>users/group.go\<close>).
\<close>

section \<open>Users\<close>

definition UserBucket :: bytes where
  "UserBucket = ''users''"

record User =
  user_Name :: string
  user_Coin :: int64

definition zero_User :: User where
  "zero_User = \<lparr>user_Name = [], user_Coin = 0\<rparr>"

definition enc_User :: "User \<Rightarrow> json" where
  "enc_User u = JObj (omitempty (user_Name u = []) ''name'' (JStr (user_Name u))
                      @ [(''coin'', JNum (sint (user_Coin u)))])"

definition dec_User :: "json \<Rightarrow> User \<Rightarrow> User option" where
  "dec_User j u =
     (if is_obj j then do {
        n \<leftarrow> dec_str (jfield ''name'' j) (user_Name u);
        c \<leftarrow> dec_int64 (jfield ''coin'' j) (user_Coin u);
        Some \<lparr>user_Name = n, user_Coin = c\<rparr>
      } else None)"

fun users_IsExists :: "err \<Rightarrow> bool" where
  "users_IsExists (users_ErrExists _) = True"
| "users_IsExists _ = False"

fun users_IsMissing :: "err \<Rightarrow> bool" where
  "users_IsMissing (users_ErrMissing _) = True"
| "users_IsMissing _ = False"

fun users_CheckUsersExist :: "string list \<Rightarrow> unit dbop" where
  "users_CheckUsersExist [] s = (Ret (), s)"
| "users_CheckUsersExist (name # names) s =
     (case store_CheckExists UserBucket name s of
        (Ret _, s') \<Rightarrow> users_CheckUsersExist names s'
      | (Fail e, s') \<Rightarrow> (Fail (if store_IsMissing e then users_ErrMissing name else e), s')
      | (Panic, s') \<Rightarrow> (Panic, s'))"

text \<open>The named result \<^verbatim>\<open>e\<close> of the Go function is the first argument.\<close>

fun check_not_exist :: "unit go \<Rightarrow> string list \<Rightarrow> unit dbop" where
  "check_not_exist e [] s = (e, s)"
| "check_not_exist e (name # names) s =
     (case store_CheckNotExist UserBucket name s of
        (Ret _, s') \<Rightarrow> check_not_exist (Ret ()) names s'
      | (Fail e', s') \<Rightarrow> if store_IsExists e' then (Fail (users_ErrExists name), s')
                        else check_not_exist (Fail e') names s'
      | (Panic, s') \<Rightarrow> (Panic, s'))"

definition users_CheckNotExist :: "string list \<Rightarrow> unit dbop" where
  "users_CheckNotExist names = check_not_exist (Ret ()) names"

definition users_Create :: "User \<Rightarrow> unit dbop" where
  "users_Create u = store_Marshal enc_User UserBucket u (user_Name u)"

definition users_Delete :: "string \<Rightarrow> unit dbop" where
  "users_Delete userID = store_Delete UserBucket userID"

definition users_ValidateNew :: "User \<Rightarrow> unit go" where
  "users_ValidateNew u =
     (if length (user_Name u) = 0 then Fail (Errorf ''name must not be blank'')
      else if user_Coin u \<noteq> 0 then Fail (Errorf ''user cannot be created with coin'')
      else Ret ())"

text \<open>\<^verbatim>\<open>AddCoin\<close> returns the user it was given with the new coin.  The addition is that of
  \<^verbatim>\<open>int64\<close>, so it wraps around.\<close>

definition users_AddCoin :: "User \<Rightarrow> int64 \<Rightarrow> User dbop" where
  "users_AddCoin u coin =
     db_bind (store_Unmarshal dec_User UserBucket zero_User (user_Name u)) (\<lambda>into.
       let into' = into\<lparr>user_Coin := user_Coin into + coin\<rparr>
       in db_bind (store_Marshal enc_User UserBucket into' (user_Name u)) (\<lambda>_.
            db_return (u\<lparr>user_Coin := user_Coin into'\<rparr>)))"

text \<open>All users; one variable is decoded into again and again.\<close>

definition users_GetAll_step :: "bytes \<times> val option \<Rightarrow> User \<times> User list \<Rightarrow> (User \<times> User list) go" where
  "users_GetAll_step kv acc =
     (case json_Unmarshal_item dec_User (snd kv) (fst acc) of
        Ret next \<Rightarrow> Ret (next, snd acc @ [next])
      | Fail e \<Rightarrow> Fail (Wrapped ''failed to unmarshal user'' e)
      | Panic \<Rightarrow> Panic)"

definition users_GetAll :: "User list dbop" where
  "users_GetAll =
     db_bind (store_ForEach UserBucket users_GetAll_step (zero_User, [])) (\<lambda>acc. db_return (snd acc))"

section \<open>Groups\<close>

record Group =
  g_Owner :: string
  g_Readers :: smap
  g_Writers :: smap

definition zero_Group :: Group where
  "zero_Group = \<lparr>g_Owner = [], g_Readers = None, g_Writers = None\<rparr>"

text \<open>The members that an embedded group adds to the JSON object of its struct.\<close>

definition enc_Group :: "Group \<Rightarrow> (string \<times> json) list" where
  "enc_Group g = [(''owner'', JStr (g_Owner g)),
                  (''readers'', enc_smap (g_Readers g)),
                  (''writers'', enc_smap (g_Writers g))]"

definition dec_Group :: "json \<Rightarrow> Group \<Rightarrow> Group option" where
  "dec_Group j g = do {
     ow \<leftarrow> dec_str (jfield ''owner'' j) (g_Owner g);
     rs \<leftarrow> dec_smap (jfield ''readers'' j) (g_Readers g);
     ws \<leftarrow> dec_smap (jfield ''writers'' j) (g_Writers g);
     Some \<lparr>g_Owner = ow, g_Readers = rs, g_Writers = ws\<rparr>
   }"

definition group_ok :: "Group \<Rightarrow> bool" where
  "group_ok g \<longleftrightarrow> smap_ok (g_Readers g) \<and> smap_ok (g_Writers g)"

definition users_AllUsers :: "Group \<Rightarrow> (string \<times> bool) list" where
  "users_AllUsers g =
     (let all0 = [(g_Owner g, True)];
          all1 = fold (\<lambda>u. assoc_set u True) (smap_keys (g_Readers g)) all0
      in fold (\<lambda>u. assoc_set u True) (smap_keys (g_Writers g)) all1)"

definition users_DiffGroups :: "Group \<Rightarrow> Group \<Rightarrow> (string \<times> bool) list" where
  "users_DiffGroups old new =
     (let allOld = users_AllUsers old;
          allNew = users_AllUsers new;
          was0 = fold (\<lambda>u. assoc_set u (smap_get (Some allNew) u)) (map fst allOld) []
      in fold (\<lambda>u. assoc_set u True) (map fst allNew) was0)"

text \<open>\<^verbatim>\<open>reflect.DeepEqual\<close> on two groups.\<close>

definition group_deep_equal :: "Group \<Rightarrow> Group \<Rightarrow> bool" where
  "group_deep_equal a b \<longleftrightarrow>
     g_Owner a = g_Owner b \<and> smap_deep_equal (g_Readers a) (g_Readers b)
     \<and> smap_deep_equal (g_Writers a) (g_Writers b)"

section \<open>Filters\<close>

datatype users_Filter =
    users_ByOwner string
  | users_ByReader string
  | users_ByWriter string
  | users_MultiAnd "users_Filter list"
  | users_MultiOr "users_Filter list"

fun users_Member :: "users_Filter \<Rightarrow> Group \<Rightarrow> bool" where
  "users_Member (users_ByOwner b) s = (g_Owner s = b)"
| "users_Member (users_ByReader b) s = smap_get (g_Readers s) b"
| "users_Member (users_ByWriter b) s = smap_get (g_Writers s) b"
| "users_Member (users_MultiAnd fs) s = list_all (\<lambda>f. users_Member f s) fs"
| "users_Member (users_MultiOr fs) s = list_ex (\<lambda>f. users_Member f s) fs"

text \<open>The filter that \<^verbatim>\<open>GetAll\<close> of convos and streams applies first.\<close>

definition users_defaultFilter :: "string \<Rightarrow> users_Filter" where
  "users_defaultFilter user =
     users_MultiOr [users_ByOwner user, users_ByReader user, users_ByWriter user]"

section \<open>Coin in circulation\<close>

text \<open>The coin of the user stored as an entry, and the sum over the users bucket, in
  \<^verbatim>\<open>int64\<close> arithmetic.\<close>

definition entry_coin :: "entry \<Rightarrow> int64" where
  "entry_coin e = (case e of Leaf (Doc j) \<Rightarrow> (case dec_User j zero_User of Some u \<Rightarrow> user_Coin u | None \<Rightarrow> 0) | _ \<Rightarrow> 0)"

definition total_coin :: "db \<Rightarrow> int64" where
  "total_coin s =
     (case bkt_at [UserBucket] s of
        None \<Rightarrow> 0
      | Some B \<Rightarrow> sum_list (map (\<lambda>p. entry_coin (snd p)) (bents B)))"

definition user_at :: "db \<Rightarrow> string \<Rightarrow> User option" where
  "user_at s n =
     (case table s UserBucket n of Some (Doc j) \<Rightarrow> dec_User j zero_User | _ \<Rightarrow> None)"

section \<open>Lemmas on users\<close>

lemma dec_enc_User [simp]: "dec_User (enc_User u) zero_User = Some u"
  by (cases u) (auto simp: dec_User_def enc_User_def zero_User_def split: option.splits)

lemma dec_enc_User_over: "user_Name u \<noteq> [] \<Longrightarrow> dec_User (enc_User u) v = Some u"
  by (cases u) (auto simp: dec_User_def enc_User_def split: option.splits)

interpretation user_codec: json_codec enc_User dec_User zero_User "\<lambda>_. True"
  by unfold_locales simp

lemma users_CheckUsersExist_eq:
  "has_tbl UserBucket s \<Longrightarrow>
   users_CheckUsersExist names s =
     (case find (\<lambda>n. table s UserBucket n = None) names of
        None \<Rightarrow> Ret () | Some n \<Rightarrow> Fail (users_ErrMissing n), s)"
  by (induction names) (auto simp: store_CheckExists_eq)

lemma users_CheckNotExist_state: "snd (users_CheckNotExist ns s) = s"
proof -
  have "snd (check_not_exist e ns s) = s" for e
  proof (induction ns arbitrary: e)
    case (Cons n ns)
    have "snd (store_CheckNotExist UserBucket n s) = s" by simp
    with Cons show ?case by (auto split: prod.splits go.splits simp del: store_read_state)
  qed simp
  then show ?thesis by (simp add: users_CheckNotExist_def)
qed

lemma users_CheckUsersExist_state [simp]: "snd (users_CheckUsersExist names s) = s"
proof (induction names)
  case (Cons n ns)
  have "snd (store_CheckExists UserBucket n s) = s" by simp
  with Cons show ?case by (auto split: prod.splits go.splits simp del: store_read_state)
qed simp

declare users_CheckUsersExist.simps [simp del]

lemma users_CheckNotExist_single:
  "has_tbl UserBucket s \<Longrightarrow>
   users_CheckNotExist [n] s =
     (if table s UserBucket n = None then Ret () else Fail (users_ErrExists n), s)"
  by (simp add: users_CheckNotExist_def store_CheckNotExist_eq)

lemma users_AddCoin_eq:
  assumes "has_tbl UserBucket s" and "valid_key (user_Name u)"
    and "user_at s (user_Name u) = Some v"
  shows "users_AddCoin u c s =
    (Ret (u\<lparr>user_Coin := user_Coin v + c\<rparr>),
     db_put UserBucket (user_Name u) (Doc (enc_User (v\<lparr>user_Coin := user_Coin v + c\<rparr>))) s)"
  using assms
  by (auto simp: users_AddCoin_def user_at_def db_bind_def db_return_def store_Unmarshal_eq
      split: option.splits val.splits)

lemma users_AddCoin_missing:
  "has_tbl UserBucket s \<Longrightarrow> table s UserBucket (user_Name u) = None \<Longrightarrow>
   users_AddCoin u c s = (Fail (MissingError (user_Name u) UserBucket), s)"
  by (simp add: users_AddCoin_def db_bind_def store_Unmarshal_eq)

lemma user_at_put [simp]:
  "has_tbl b s \<Longrightarrow> user_at (db_put b k v s) n =
     (if b = UserBucket \<and> n = k then (case v of Doc j \<Rightarrow> dec_User j zero_User | Raw _ \<Rightarrow> None)
      else user_at s n)"
  by (auto simp: user_at_def split: val.splits)

lemma sum_list_al_put:
  fixes f :: "'v \<Rightarrow> 'w::ab_group_add"
  shows "al_sorted ps \<Longrightarrow>
   sum_list (map (\<lambda>p. f (snd p)) (al_put k v ps)) =
     sum_list (map (\<lambda>p. f (snd p)) ps) + f v - (case map_of ps k of None \<Rightarrow> 0 | Some w \<Rightarrow> f w)"
proof (induction ps)
  case (Cons p ps)
  have "fst p \<noteq> k \<Longrightarrow> \<not> fst p < k \<Longrightarrow> map_of ps k = None"
    using Cons.prems by (auto simp: map_of_eq_None_iff)
  with Cons show ?case by (cases p) (auto simp: algebra_simps split: option.splits)
qed simp

lemma total_coin_put_gen:
  assumes "wf_bucket s" and "has_tbl UserBucket s"
  shows "total_coin (db_put UserBucket n (Doc (enc_User u)) s) =
    total_coin s + user_Coin u - (case user_at s n of None \<Rightarrow> 0 | Some v \<Rightarrow> user_Coin v)"
proof -
  obtain B where B: "bkt_at [UserBucket] s = Some B"
    using assms(2) by (auto simp: has_tbl_def split: option.splits)
  have srt: "al_sorted (bents B)"
    using wf_bkt_at [OF assms(1) B] by (cases B) auto
  have old: "(case map_of (bents B) n of None \<Rightarrow> 0 | Some w \<Rightarrow> entry_coin w) =
      (case user_at s n of None \<Rightarrow> 0 | Some v \<Rightarrow> user_Coin v)"
    using B
    by (auto simp: user_at_def table_def Bucket_Get_def ent_def entry_coin_def
        split: option.splits entry.splits val.splits)
  have new: "entry_coin (Leaf (Doc (enc_User u))) = user_Coin u"
    by (simp add: entry_coin_def)
  have at: "bkt_at [UserBucket] (db_put UserBucket n (Doc (enc_User u)) s) = Some (set_ent n (Leaf (Doc (enc_User u))) B)"
    using bkt_at_db_put [OF assms(2)] B by (simp del: bkt_at.simps)
  have "total_coin (db_put UserBucket n (Doc (enc_User u)) s) =
      sum_list (map (\<lambda>p. entry_coin (snd p)) (al_put n (Leaf (Doc (enc_User u))) (bents B)))"
    by (simp add: total_coin_def at set_ent_def del: bkt_at.simps)
  also have "\<dots> = total_coin s + user_Coin u - (case user_at s n of None \<Rightarrow> 0 | Some v \<Rightarrow> user_Coin v)"
    by (simp add: sum_list_al_put [OF srt] old new total_coin_def B del: bkt_at.simps)
  finally show ?thesis .
qed

lemma total_coin_put:
  assumes "wf_bucket s" and "has_tbl UserBucket s" and "user_at s n = Some v"
  shows "total_coin (db_put UserBucket n (Doc (enc_User u)) s) = total_coin s + user_Coin u - user_Coin v"
  using total_coin_put_gen [OF assms(1,2)] assms(3) by simp

section \<open>Lemmas on groups\<close>

lemma map_of_fold_set:
  "map_of (fold (\<lambda>u. assoc_set u (f u)) us m) x = (if x \<in> set us then Some (f x) else map_of m x)"
  by (induction us arbitrary: m) auto

lemma keys_fold_set: "fst ` set (fold (\<lambda>u. assoc_set u (f u)) us m) = set us \<union> fst ` set m"
  by (induction us arbitrary: m) auto

lemma distinct_fold_set:
  "distinct (map fst m) \<Longrightarrow> distinct (map fst (fold (\<lambda>u. assoc_set u (f u)) us m))"
  by (induction us arbitrary: m) auto

definition group_members :: "Group \<Rightarrow> string set" where
  "group_members g = insert (g_Owner g) (set (smap_keys (g_Readers g)) \<union> set (smap_keys (g_Writers g)))"

lemma AllUsers_keys: "fst ` set (users_AllUsers g) = group_members g"
  by (auto simp: users_AllUsers_def keys_fold_set group_members_def Let_def)

lemma AllUsers_map: "map_of (users_AllUsers g) u = (if u \<in> group_members g then Some True else None)"
  by (auto simp: users_AllUsers_def map_of_fold_set group_members_def Let_def)

lemma DiffGroups_map:
  "map_of (users_DiffGroups old new) u =
     (if u \<in> group_members new then Some True
      else if u \<in> group_members old then Some False else None)"
  by (simp add: users_DiffGroups_def Let_def map_of_fold_set AllUsers_keys smap_get_def AllUsers_map)

lemma DiffGroups_distinct: "distinct (map fst (users_DiffGroups old new))"
  by (simp add: users_DiffGroups_def Let_def distinct_fold_set)

lemma dec_enc_Group:
  "group_ok g \<Longrightarrow> (\<And>n. n \<in> {''owner'', ''readers'', ''writers''} \<Longrightarrow> jfield n (JObj fs) = map_of (enc_Group g) n) \<Longrightarrow>
   dec_Group (JObj fs) zero_Group = Some g"
  by (cases g) (simp add: dec_Group_def zero_Group_def enc_Group_def group_ok_def)

lemma defaultFilter_Member:
  "users_Member (users_defaultFilter user) g \<longleftrightarrow>
     g_Owner g = user \<or> smap_get (g_Readers g) user \<or> smap_get (g_Writers g) user"
  by (simp add: users_defaultFilter_def)

lemma GetAll_loop:
  "\<forall>p \<in> set ps. user_Name (snd p) \<noteq> [] \<Longrightarrow>
   \<exists>w'. go_foreach users_GetAll_step (map (\<lambda>p. (fst p, Some (Doc (enc_User (snd p))))) ps) (w, us)
      = Ret (w', us @ map snd ps)"
proof (induction ps arbitrary: w us)
  case (Cons p ps)
  then show ?case
    using Cons.IH [of "snd p" "us @ [snd p]"] by (simp add: users_GetAll_step_def dec_enc_User_over)
qed simp

section \<open>Properties\<close>

text \<open>
  \<^verbatim>\<open>DiffGroups\<close> lists every user of either group once: with \<open>True\<close>
  exactly the users of the new group, with \<open>False\<close> exactly those who were only in the old one.
\<close>

theorem DiffGroups_spec:
  "distinct (map fst (users_DiffGroups old new)) \<and>
   {u. (u, True) \<in> set (users_DiffGroups old new)} = group_members new \<and>
   {u. (u, False) \<in> set (users_DiffGroups old new)} = group_members old - group_members new"
proof -
  have "(u, b) \<in> set (users_DiffGroups old new) \<longleftrightarrow> map_of (users_DiffGroups old new) u = Some b" for u b
    by (simp add: DiffGroups_distinct)
  then show ?thesis
    by (auto simp: DiffGroups_distinct DiffGroups_map split: if_splits)
qed

text \<open>
  On a database with a users bucket, \<^verbatim>\<open>CheckUsersExist\<close> succeeds
  exactly when every named user is stored, reports the first one that is not, and changes
  nothing.
\<close>

theorem CheckUsersExist_iff:
  assumes "has_tbl UserBucket s"
  shows "snd (users_CheckUsersExist names s) = s \<and>
    (fst (users_CheckUsersExist names s) = Ret () \<longleftrightarrow> (\<forall>n \<in> set names. table s UserBucket n \<noteq> None)) \<and>
    (\<forall>n. fst (users_CheckUsersExist names s) = Fail (users_ErrMissing n) \<longleftrightarrow>
       (\<exists>pre post. names = pre @ n # post \<and> table s UserBucket n = None \<and>
                   (\<forall>m \<in> set pre. table s UserBucket m \<noteq> None)))"
proof -
  have "fst (users_CheckUsersExist names s) = Fail (users_ErrMissing n) \<longleftrightarrow>
      find (\<lambda>n. table s UserBucket n = None) names = Some n" for n
    by (simp add: users_CheckUsersExist_eq [OF assms] split: option.splits)
  then show ?thesis
    by (auto simp: users_CheckUsersExist_eq [OF assms] find_None_iff find_first_iff split: option.splits)
qed

definition demo_users :: db where
  "demo_users =
     db_put UserBucket ''bob'' (Doc (enc_User \<lparr>user_Name = ''bob'', user_Coin = 5\<rparr>))
       (db_put UserBucket ''ann'' (Doc (enc_User \<lparr>user_Name = ''ann'', user_Coin = 7\<rparr>)) (db_of [UserBucket]))"

lemma demo_users_has [simp]: "has_tbl UserBucket demo_users"
  by (simp add: demo_users_def)

lemma demo_users_wf [simp]: "wf_bucket demo_users"
  by (simp add: demo_users_def wf_db_put)

lemma demo_users_at [simp]:
  "user_at demo_users ''bob'' = Some \<lparr>user_Name = ''bob'', user_Coin = 5\<rparr>"
  "user_at demo_users ''ann'' = Some \<lparr>user_Name = ''ann'', user_Coin = 7\<rparr>"
  by (simp_all add: demo_users_def)

theorem CheckUsersExist_iff_witness:
  "has_tbl UserBucket demo_users \<and>
   fst (users_CheckUsersExist [''ann'', ''bob''] demo_users) = Ret () \<and>
   fst (users_CheckUsersExist [''ann'', ''eve''] demo_users) \<noteq> Ret ()"
  using CheckUsersExist_iff [of demo_users "[''ann'', ''bob'']"]
    CheckUsersExist_iff [of demo_users "[''ann'', ''eve'']"]
  by (simp add: demo_users_def)

text \<open>
  \<^verbatim>\<open>AddCoin\<close> on a stored user sets that user's coin to the sum, keeps
  every other user, reports the new coin, and changes the coin in circulation by exactly the
  amount, all in wrapping 64-bit arithmetic.
\<close>

theorem AddCoin_spec:
  assumes "wf_bucket s" and "has_tbl UserBucket s" and "valid_key (user_Name u)"
    and "user_at s (user_Name u) = Some v"
  shows "\<exists>s'. users_AddCoin u c s = (Ret (u\<lparr>user_Coin := user_Coin v + c\<rparr>), s') \<and>
     (\<forall>n. user_at s' n = (if n = user_Name u then Some (v\<lparr>user_Coin := user_Coin v + c\<rparr>) else user_at s n)) \<and>
     total_coin s' = total_coin s + c"
  unfolding users_AddCoin_eq [OF assms(2-4)]
  using assms by (intro exI [where x = "db_put UserBucket (user_Name u)
      (Doc (enc_User (v\<lparr>user_Coin := user_Coin v + c\<rparr>))) s"]) (simp add: total_coin_put)

theorem AddCoin_spec_witness:
  "\<exists>s'. users_AddCoin \<lparr>user_Name = ''bob'', user_Coin = 0\<rparr> 3 demo_users = (Ret \<lparr>user_Name = ''bob'', user_Coin = 8\<rparr>, s') \<and>
     user_at s' ''ann'' = Some \<lparr>user_Name = ''ann'', user_Coin = 7\<rparr> \<and> total_coin s' = total_coin demo_users + 3"
  using AddCoin_spec [of demo_users "\<lparr>user_Name = ''bob'', user_Coin = 0\<rparr>" "\<lparr>user_Name = ''bob'', user_Coin = 5\<rparr>" 3]
  by (force simp: valid_key_def MaxKeySize_def)

text \<open>
  \<^verbatim>\<open>GetAll\<close> returns the stored users in the order of their names.
  The Go code decodes every user into the same variable; because each stored user has its
  name and coin written out, nothing of the one before shows through.
\<close>

theorem users_GetAll_spec:
  assumes "wf_bucket s" and "holds_tbl enc_User (\<lambda>u. user_Name u \<noteq> []) UserBucket t s"
    and "\<forall>k u. t k = Some u \<longrightarrow> user_Name u = k"
  shows "\<exists>us. users_GetAll s = (Ret us, s) \<and> set us = ran t \<and> sorted_wrt (<) (map user_Name us)"
proof -
  obtain kus where kus: "map_of kus = t" "sorted_wrt (<) (map fst kus)"
    and each: "\<And>f (a :: User \<times> User list). store_ForEach UserBucket f a s =
      (go_foreach f (map (\<lambda>p. (fst p, Some (Doc (enc_User (snd p))))) kus) a, s)"
    by (rule holds_ForEach [OF assms(1,2)]) blast
  have d: "distinct (map fst kus)" using kus(2) by (simp add: strict_sorted_iff)
  have at: "(k, u) \<in> set kus \<longleftrightarrow> t k = Some u" for k u
    using d kus(1) by (auto simp: map_of_eq_Some_iff)
  have named: "\<forall>p \<in> set kus. user_Name (snd p) = fst p \<and> user_Name (snd p) \<noteq> []"
    using assms(2,3) at by (fastforce simp: holds_tbl_def ran_def)
  have "\<forall>p \<in> set kus. user_Name (snd p) \<noteq> []" using named by blast
  from GetAll_loop [OF this, of zero_User "[]"]
  have "users_GetAll s = (Ret (map snd kus), s)"
    by (auto simp: users_GetAll_def each db_bind_def db_return_def)
  moreover have "set (map snd kus) = ran t"
    using at by (force simp: ran_def)
  moreover have "map user_Name (map snd kus) = map fst kus"
    using named by simp
  ultimately show ?thesis using kus(2) by metis
qed

definition demo_users_map :: "string \<rightharpoonup> User" where
  "demo_users_map = [''ann'' \<mapsto> \<lparr>user_Name = ''ann'', user_Coin = 7\<rparr>, ''bob'' \<mapsto> \<lparr>user_Name = ''bob'', user_Coin = 5\<rparr>]"

lemma demo_users_ran:
  "ran demo_users_map = {\<lparr>user_Name = ''ann'', user_Coin = 7\<rparr>, \<lparr>user_Name = ''bob'', user_Coin = 5\<rparr>}"
  by (auto simp: demo_users_map_def)

lemma demo_users_holds: "holds_tbl enc_User (\<lambda>u. user_Name u \<noteq> []) UserBucket demo_users_map demo_users"
  unfolding holds_tbl_def demo_users_ran
  by (simp add: demo_users_def demo_users_map_def fun_eq_iff)

theorem users_GetAll_spec_witness:
  "\<exists>us. users_GetAll demo_users = (Ret us, demo_users) \<and> set us = ran demo_users_map \<and>
     sorted_wrt (<) (map user_Name us)"
  by (rule users_GetAll_spec [OF demo_users_wf demo_users_holds])
    (simp add: demo_users_map_def)

end
