(* ===== verification/Go_Sha256.thy ===== *)
theory Go_Sha256
  imports SG_Prelude
begin

unbundle bit_operations_syntax

text \<open>
  \<^verbatim>\<open>crypto/sha256\<close> of the Go standard library, which the packages \<^verbatim>\<open>auth\<close> and \<^verbatim>\<open>admin\<close> call
  through \<^verbatim>\<open>Sum256\<close> and \<^verbatim>\<open>Size\<close>: the padding of the message to blocks of 64 bytes, the
  message schedule and the compression of one block in 32-bit words, and the big-endian
  output of the eight state words.
\<close>

section \<open>Constants\<close>

definition sha256_init :: "32 word list" where
  "sha256_init =
     [0x6a09e667, 0xbb67ae85, 0x3c6ef372, 0xa54ff53a, 0x510e527f, 0x9b05688c, 0x1f83d9ab, 0x5be0cd19]"

definition sha256_K :: "32 word list" where
  "sha256_K =
     [0x428a2f98, 0x71374491, 0xb5c0fbcf, 0xe9b5dba5, 0x3956c25b, 0x59f111f1, 0x923f82a4, 0xab1c5ed5,
      0xd807aa98, 0x12835b01, 0x243185be, 0x550c7dc3, 0x72be5d74, 0x80deb1fe, 0x9bdc06a7, 0xc19bf174,
      0xe49b69c1, 0xefbe4786, 0x0fc19dc6, 0x240ca1cc, 0x2de92c6f, 0x4a7484aa, 0x5cb0a9dc, 0x76f988da,
      0x983e5152, 0xa831c66d, 0xb00327c8, 0xbf597fc7, 0xc6e00bf3, 0xd5a79147, 0x06ca6351, 0x14292967,
      0x27b70a85, 0x2e1b2138, 0x4d2c6dfc, 0x53380d13, 0x650a7354, 0x766a0abb, 0x81c2c92e, 0x92722c85,
      0xa2bfe8a1, 0xa81a664b, 0xc24b8b70, 0xc76c51a3, 0xd192e819, 0xd6990624, 0xf40e3585, 0x106aa070,
      0x19a4c116, 0x1e376c08, 0x2748774c, 0x34b0bcb5, 0x391c0cb3, 0x4ed8aa4a, 0x5b9cca4f, 0x682e6ff3,
      0x748f82ee, 0x78a5636f, 0x84c87814, 0x8cc70208, 0x90befffa, 0xa4506ceb, 0xbef9a3f7, 0xc67178f2]"

section \<open>Bytes and words\<close>

definition byte_at :: "nat \<Rightarrow> nat \<Rightarrow> char" where
  "byte_at n i = char_of ((n div 256 ^ i) mod 256)"

text \<open>The \<open>w\<close> bytes of a number, most significant first.\<close>

definition be_bytes :: "nat \<Rightarrow> nat \<Rightarrow> bytes" where
  "be_bytes w n = map (byte_at n) (rev [0..<w])"

definition be_value :: "bytes \<Rightarrow> nat" where
  "be_value bs = foldl (\<lambda>n c. n * 256 + of_char c) 0 bs"

fun chunks_of :: "nat \<Rightarrow> 'a list \<Rightarrow> 'a list list" where
  "chunks_of n [] = []"
| "chunks_of n (x # xs) = (x # take (n - 1) xs) # chunks_of n (drop (n - 1) xs)"

section \<open>The hash\<close>

definition sha256_pad :: "bytes \<Rightarrow> bytes" where
  "sha256_pad bs =
     (let n = length bs;
          z = (if n mod 64 < 56 then 55 - n mod 64 else 119 - n mod 64)
      in bs @ CHR 0x80 # replicate z CHR 0x00 @ be_bytes 8 (8 * n))"

definition rotr :: "nat \<Rightarrow> 32 word \<Rightarrow> 32 word" where
  "rotr i w = drop_bit i w OR push_bit (32 - i) w"

definition sha_s0 :: "32 word \<Rightarrow> 32 word" where
  "sha_s0 x = rotr 7 x XOR rotr 18 x XOR drop_bit 3 x"

definition sha_s1 :: "32 word \<Rightarrow> 32 word" where
  "sha_s1 x = rotr 17 x XOR rotr 19 x XOR drop_bit 10 x"

text \<open>The schedule, newest word first: \<open>sha256_schedule n ws\<close> adds \<open>n\<close> words.\<close>

fun sha256_schedule :: "nat \<Rightarrow> 32 word list \<Rightarrow> 32 word list" where
  "sha256_schedule 0 ws = ws"
| "sha256_schedule (Suc n) ws =
     sha256_schedule n ((sha_s1 (ws ! 1) + ws ! 6 + sha_s0 (ws ! 14) + ws ! 15) # ws)"

fun sha256_round :: "32 word \<Rightarrow> 32 word \<Rightarrow> 32 word list \<Rightarrow> 32 word list" where
  "sha256_round k w [a, b, c, d, e, f, g, h] =
     (let t1 = h + (rotr 6 e XOR rotr 11 e XOR rotr 25 e) + ((e AND f) XOR (NOT e AND g)) + k + w;
          t2 = (rotr 2 a XOR rotr 13 a XOR rotr 22 a) + ((a AND b) XOR (a AND c) XOR (b AND c))
      in [t1 + t2, a, b, c, d + t1, e, f, g])"
| "sha256_round _ _ st = st"

definition sha256_block :: "bytes \<Rightarrow> 32 word list \<Rightarrow> 32 word list" where
  "sha256_block blk st =
     (let ws = rev (sha256_schedule 48 (rev (map (\<lambda>c. word_of_nat (be_value c)) (chunks_of 4 blk))));
          st' = fold (\<lambda>(k, w). sha256_round k w) (zip sha256_K ws) st
      in map2 (+) st st')"

definition sha256_Sum256 :: "bytes \<Rightarrow> bytes" where
  "sha256_Sum256 bs =
     concat (map (\<lambda>w. be_bytes 4 (unat w)) (fold sha256_block (chunks_of 64 (sha256_pad bs)) sha256_init))"

definition sha256_Size :: nat where
  "sha256_Size = 32"

section \<open>The size of a hash\<close>

lemma length_be_bytes [simp]: "length (be_bytes w n) = w"
  by (simp add: be_bytes_def)

lemma length_sha256_round: "length st = 8 \<Longrightarrow> length (sha256_round k w st) = 8"
  by (induction k w st rule: sha256_round.induct) (simp_all add: Let_def)

lemma length_sha256_block: "length st = 8 \<Longrightarrow> length (sha256_block blk st) = 8"
proof -
  have "length st = 8 \<Longrightarrow> length (fold (\<lambda>(k, w). sha256_round k w) kws st) = 8" for kws
    by (induction kws arbitrary: st) (auto simp: length_sha256_round)
  then show "length st = 8 \<Longrightarrow> ?thesis" by (simp add: sha256_block_def Let_def)
qed

lemma length_sha256 [simp]: "length (sha256_Sum256 bs) = sha256_Size"
proof -
  have "length (fold sha256_block bks sha256_init) = 8" for bks
  proof -
    have "length st = 8 \<Longrightarrow> length (fold sha256_block bks st) = 8" for st
      by (induction bks arbitrary: st) (auto simp: length_sha256_block)
    then show ?thesis by (simp add: sha256_init_def)
  qed
  then show ?thesis
    by (simp add: sha256_Sum256_def length_concat comp_def sum_list_triv sha256_Size_def)
qed

end
