(* ===== verification/Auth.thy ===== *)
theory Auth
  imports Users Go_Sha256
begin

text \<open>
  Package \<^verbatim>\<open>auth\<close>: logins with salted password hashes and their disabling
  (\<^verbatim>\<open>auth/auth.go\<close>), sessions with bearer and refresh tokens (\<^verbatim>\<open>auth/session.go\<close>), the
  contexts that lead from a token to its user (\<^verbatim>\<open>auth/context.go\<close>) and the error predicates
  (\<^verbatim>\<open>auth/errors.go\<close>).  The clock and the random UUIDs are arguments.
\<close>

section \<open>Errors\<close>

fun auth_IsDisabled :: "err \<Rightarrow> bool" where
  "auth_IsDisabled (auth_ErrDisabled _) = True"
| "auth_IsDisabled _ = False"

fun auth_IsExists :: "err \<Rightarrow> bool" where
  "auth_IsExists (auth_ErrExists _) = True"
| "auth_IsExists _ = False"

fun auth_IsInvalidTokenType :: "err \<Rightarrow> bool" where
  "auth_IsInvalidTokenType (auth_ErrInvalidTokenType _) = True"
| "auth_IsInvalidTokenType _ = False"

fun auth_IsMissingSession :: "err \<Rightarrow> bool" where
  "auth_IsMissingSession (auth_ErrMissingSession _) = True"
| "auth_IsMissingSession _ = False"

fun auth_IsTokenExpired :: "err \<Rightarrow> bool" where
  "auth_IsTokenExpired (auth_ErrTokenExpired _) = True"
| "auth_IsTokenExpired _ = False"

fun auth_IsContextMissing :: "err \<Rightarrow> bool" where
  "auth_IsContextMissing (auth_ErrContextMissing _) = True"
| "auth_IsContextMissing _ = False"

section \<open>Contexts\<close>

type_synonym Token = bytes

definition ContextBucket :: bytes where
  "ContextBucket = ''contexts''"

record Context =
  ctx_Token :: Token
  ctx_RefreshToken :: Token
  ctx_UserID :: string

definition zero_Context :: Context where
  "zero_Context = \<lparr>ctx_Token = [], ctx_RefreshToken = [], ctx_UserID = []\<rparr>"

definition enc_Context :: "Context \<Rightarrow> json" where
  "enc_Context c = JObj [(''Token'', JBytes (ctx_Token c)),
                         (''RefreshToken'', JBytes (ctx_RefreshToken c)),
                         (''UserID'', JStr (ctx_UserID c))]"

definition dec_Context :: "json \<Rightarrow> Context \<Rightarrow> Context option" where
  "dec_Context j c =
     (if is_obj j then do {
        t \<leftarrow> dec_bytes (jfield ''Token'' j) (ctx_Token c);
        r \<leftarrow> dec_bytes (jfield ''RefreshToken'' j) (ctx_RefreshToken c);
        u \<leftarrow> dec_str (jfield ''UserID'' j) (ctx_UserID c);
        Some \<lparr>ctx_Token = t, ctx_RefreshToken = r, ctx_UserID = u\<rparr>
      } else None)"

datatype CtxField = CtxToken | CtxRefreshToken | CtxUserID

fun auth_ByField :: "Context \<Rightarrow> CtxField \<Rightarrow> bytes" where
  "auth_ByField c CtxToken = ctx_Token c"
| "auth_ByField c CtxRefreshToken = ctx_RefreshToken c"
| "auth_ByField c CtxUserID = ctx_UserID c"

text \<open>The search stops at the first context of the user by returning it as an error.\<close>

definition auth_FindContext_step :: "string \<Rightarrow> bytes \<times> val option \<Rightarrow> Context \<Rightarrow> Context go" where
  "auth_FindContext_step uid kv ctx =
     go_bind (json_Unmarshal_item dec_Context (snd kv) ctx) (\<lambda>c.
       if ctx_UserID c = uid then Fail (auth_Found (ctx_Token c) (ctx_RefreshToken c) (ctx_UserID c))
       else Ret c)"

definition auth_FindContext :: "string \<Rightarrow> Context dbop" where
  "auth_FindContext uid = store_ForEach ContextBucket (auth_FindContext_step uid) zero_Context"

definition auth_SaveContext :: "Context \<Rightarrow> unit dbop" where
  "auth_SaveContext c = store_Marshal enc_Context ContextBucket c (ctx_Token c)"

definition auth_GetContext :: "Context \<Rightarrow> Token \<Rightarrow> Context dbop" where
  "auth_GetContext c t =
     db_catch (store_Unmarshal dec_Context ContextBucket c t)
       (\<lambda>e. db_fail (if store_IsMissing e then auth_ErrContextMissing t else e))"

definition auth_DeleteContext :: "Token \<Rightarrow> unit dbop" where
  "auth_DeleteContext t = store_Delete ContextBucket t"

section \<open>Sessions\<close>

type_synonym TokenType = int64

definition BearerType :: TokenType where "BearerType = 0"
definition AdminType :: TokenType where "AdminType = 1"
definition RefreshType :: TokenType where "RefreshType = 2"

definition minute_ns :: int where
  "minute_ns = 60 * 1000000000"

definition auth_Expiration :: int64 where
  "auth_Expiration = word_of_int (5 * minute_ns)"

definition SessionBucket :: bytes where "SessionBucket = ''sessions''"
definition RefreshBucket :: bytes where "RefreshBucket = ''refresh''"

definition auth_tokenNames :: "(TokenType \<times> string) list" where
  "auth_tokenNames = [(BearerType, ''Bearer''), (RefreshType, ''Refresh''), (AdminType, ''Admin'')]"

definition auth_TokenType_String :: "TokenType \<Rightarrow> string" where
  "auth_TokenType_String t = (case map_of auth_tokenNames t of Some n \<Rightarrow> n | None \<Rightarrow> [])"

definition auth_ValidType :: "string \<Rightarrow> bool" where
  "auth_ValidType t = (t \<in> {''Bearer'', ''Refresh'', ''Admin''})"

record Session =
  sess_Token :: Token
  sess_ExpiresIn :: int64
  sess_Expiration :: gtime
  sess_TokenType :: TokenType
  sess_RefreshToken :: Token

definition zero_time :: gtime where
  "zero_time = \<lparr>t_ns = - 62135596800000000000, t_zone = ZUTC\<rparr>"

definition zero_Session :: Session where
  "zero_Session = \<lparr>sess_Token = [], sess_ExpiresIn = 0, sess_Expiration = zero_time,
                   sess_TokenType = 0, sess_RefreshToken = []\<rparr>"

text \<open>\<^verbatim>\<open>omitempty\<close> has no effect on the \<^verbatim>\<open>time.Time\<close> of \<^verbatim>\<open>expiresAt\<close>: a struct is never empty.\<close>

definition enc_Session :: "Session \<Rightarrow> json" where
  "enc_Session x = JObj [(''token'', JBytes (sess_Token x)),
                         (''expiresIn'', JNum (sint (sess_ExpiresIn x))),
                         (''expiresAt'', JTime (sess_Expiration x)),
                         (''tokenType'', JNum (sint (sess_TokenType x))),
                         (''refreshToken'', JBytes (sess_RefreshToken x))]"

definition dec_Session :: "json \<Rightarrow> Session \<Rightarrow> Session option" where
  "dec_Session j x =
     (if is_obj j then do {
        t \<leftarrow> dec_bytes (jfield ''token'' j) (sess_Token x);
        i \<leftarrow> dec_int64 (jfield ''expiresIn'' j) (sess_ExpiresIn x);
        e \<leftarrow> dec_time (jfield ''expiresAt'' j) (sess_Expiration x);
        k \<leftarrow> dec_int64 (jfield ''tokenType'' j) (sess_TokenType x);
        r \<leftarrow> dec_bytes (jfield ''refreshToken'' j) (sess_RefreshToken x);
        Some \<lparr>sess_Token = t, sess_ExpiresIn = i, sess_Expiration = e, sess_TokenType = k,
              sess_RefreshToken = r\<rparr>
      } else None)"

text \<open>\<open>u\<close> is what \<^verbatim>\<open>uuid.NewV4\<close> returned; a token of any other type is nil.\<close>

definition auth_NewToken :: "uuid \<Rightarrow> TokenType \<Rightarrow> Token" where
  "auth_NewToken u t = (if t = BearerType \<or> t = RefreshType then u else [])"

definition auth_Refresh :: "Session \<Rightarrow> gtime \<Rightarrow> int64 \<Rightarrow> Session dbop" where
  "auth_Refresh x expires validFor =
     (let x' = x\<lparr>sess_Expiration := expires, sess_ExpiresIn := validFor\<rparr>
      in db_bind (store_Marshal enc_Session SessionBucket x' (sess_Token x')) (\<lambda>_. db_return x'))"

definition auth_RefreshIfValid :: "Session \<Rightarrow> gtime \<Rightarrow> int64 \<Rightarrow> Session dbop" where
  "auth_RefreshIfValid x expires validFor =
     db_bind
       (db_catch (store_CheckExists RefreshBucket (sess_RefreshToken x))
          (\<lambda>e. db_fail (if store_IsMissing e then auth_ErrMissingSession (sess_RefreshToken x) else e)))
       (\<lambda>_. auth_Refresh x expires validFor)"

definition auth_CheckRefresh :: "Token \<Rightarrow> unit dbop" where
  "auth_CheckRefresh t = store_CheckExists RefreshBucket t"

definition auth_CheckToken :: "gtime \<Rightarrow> Token \<Rightarrow> unit dbop" where
  "auth_CheckToken now t =
     db_bind
       (db_catch (store_Unmarshal dec_Session SessionBucket zero_Session t)
          (\<lambda>e. db_fail (if store_IsMissing e then auth_ErrMissingSession t else e)))
       (\<lambda>existent. if t_ns (sess_Expiration existent) < t_ns now then db_fail (auth_ErrTokenExpired t)
                   else db_return ())"

text \<open>The assignments of \<^verbatim>\<open>NewSession\<close> to its session.\<close>

definition fill_session :: "Session \<Rightarrow> gtime \<Rightarrow> int64 \<Rightarrow> Token \<Rightarrow> Token \<Rightarrow> Session" where
  "fill_session x expiration validFor token refresh =
     x\<lparr>sess_Token := token, sess_RefreshToken := refresh, sess_TokenType := BearerType,
       sess_Expiration := expiration, sess_ExpiresIn := validFor\<rparr>"

definition auth_NewSession ::
    "Session \<Rightarrow> gtime \<Rightarrow> int64 \<Rightarrow> Token \<Rightarrow> Token \<Rightarrow> string \<Rightarrow> Session dbop" where
  "auth_NewSession x expiration validFor token refresh userID =
     (let x' = fill_session x expiration validFor token refresh
      in db_bind
           (store_Wrap
              [store_Marshal enc_Session SessionBucket x' (sess_Token x'),
               auth_SaveContext \<lparr>ctx_Token = sess_Token x', ctx_RefreshToken = sess_RefreshToken x',
                                 ctx_UserID = userID\<rparr>,
               store_Put RefreshBucket (sess_RefreshToken x') (Raw [])])
           (\<lambda>_. db_return x'))"

definition auth_DeleteToken :: "Token \<Rightarrow> unit dbop" where
  "auth_DeleteToken t =
     db_catch (store_Delete SessionBucket t)
       (\<lambda>e. db_fail (if store_IsMissing e then auth_ErrMissingSession t else e))"

definition ignore_missing :: "unit dbop \<Rightarrow> unit dbop" where
  "ignore_missing m = db_catch m (\<lambda>e. if store_IsMissing e then db_return () else db_fail e)"

definition auth_DeleteSession :: "Session \<Rightarrow> unit dbop" where
  "auth_DeleteSession x =
     store_Wrap [ignore_missing (store_Delete SessionBucket (sess_Token x)),
                 ignore_missing (store_Delete RefreshBucket (sess_RefreshToken x))]"

definition auth_ClearSessions :: "unit dbop" where
  "auth_ClearSessions =
     store_Wrap [on_bkt [] (Bucket_DeleteBucket SessionBucket),
                 on_bkt [] (Bucket_CreateBucket SessionBucket)]"

section \<open>Logins\<close>

definition LoginBucket :: bytes where
  "LoginBucket = ''logins''"

record Login =
  login_User :: User
  login_Disabled :: bool
  login_PWHash :: bytes
  login_Salt :: uuid

definition nil_uuid :: uuid where
  "nil_uuid = replicate 16 CHR 0x00"

definition zero_Login :: Login where
  "zero_Login = \<lparr>login_User = zero_User, login_Disabled = False, login_PWHash = [], login_Salt = nil_uuid\<rparr>"

abbreviation login_Name :: "Login \<Rightarrow> string" where
  "login_Name l \<equiv> user_Name (login_User l)"

text \<open>The embedded \<^verbatim>\<open>users.User\<close> puts its members into the object of the login.\<close>

definition enc_Login :: "Login \<Rightarrow> json" where
  "enc_Login l =
     JObj (omitempty (login_Name l = []) ''name'' (JStr (login_Name l))
           @ (''coin'', JNum (sint (user_Coin (login_User l))))
           # omitempty (\<not> login_Disabled l) ''disabled'' (JBool (login_Disabled l))
           @ [(''pwhash'', JBytes (login_PWHash l)), (''salt'', JUUID (login_Salt l))])"

definition dec_Login :: "json \<Rightarrow> Login \<Rightarrow> Login option" where
  "dec_Login j l =
     (if is_obj j then do {
        u \<leftarrow> dec_User j (login_User l);
        d \<leftarrow> dec_bool (jfield ''disabled'' j) (login_Disabled l);
        p \<leftarrow> dec_bytes (jfield ''pwhash'' j) (login_PWHash l);
        t \<leftarrow> dec_uuid (jfield ''salt'' j) (login_Salt l);
        Some \<lparr>login_User = u, login_Disabled = d, login_PWHash = p, login_Salt = t\<rparr>
      } else None)"

definition auth_CheckLoginNotExist :: "Login \<Rightarrow> unit dbop" where
  "auth_CheckLoginNotExist l =
     db_catch (store_CheckNotExist LoginBucket (login_Name l))
       (\<lambda>e. db_fail (if store_IsExists e then auth_ErrExists (login_Name l) else e))"

definition auth_ValidateNew :: "Login \<Rightarrow> unit go" where
  "auth_ValidateNew l =
     (if length (login_PWHash l) \<noteq> sha256_Size then Fail (Errorf ''invalid SHA-256 pwhash'')
      else users_ValidateNew (login_User l))"

definition auth_Check :: "Login \<Rightarrow> unit dbop" where
  "auth_Check l =
     db_bind
       (db_catch (store_Unmarshal dec_Login LoginBucket zero_Login (login_Name l))
          (\<lambda>e. db_fail (if store_IsMissing e then auth_ErrMissing (login_Name l) else e)))
       (\<lambda>got.
          if login_Disabled got then db_fail (auth_ErrDisabled (login_Name l))
          else if login_PWHash got \<noteq> sha256_Sum256 (login_PWHash l @ login_Salt got)
          then db_fail (auth_ErrInvalid (login_Name l))
          else db_return ())"

definition auth_Create :: "Login \<Rightarrow> uuid \<Rightarrow> unit dbop" where
  "auth_Create l salt =
     (let toStore = \<lparr>login_User = login_User l, login_Disabled = False,
                     login_PWHash = sha256_Sum256 (login_PWHash l @ salt), login_Salt = salt\<rparr>
      in store_Put LoginBucket (login_Name l) (Doc (enc_Login toStore)))"

section \<open>Disabling a login\<close>

record auth_tokens =
  tk_ts :: "Token list"
  tk_rs :: "Token list"

definition auth_Find_step :: "string \<Rightarrow> bytes \<times> val option \<Rightarrow> auth_tokens \<Rightarrow> auth_tokens go" where
  "auth_Find_step userID kv c =
     go_bind (json_Unmarshal_item dec_Context (snd kv) zero_Context) (\<lambda>into.
       Ret (if ctx_UserID into = userID
            then c\<lparr>tk_ts := tk_ts c @ [ctx_Token into], tk_rs := tk_rs c @ [ctx_RefreshToken into]\<rparr>
            else c))"

definition auth_Find :: "auth_tokens \<Rightarrow> string \<Rightarrow> auth_tokens dbop" where
  "auth_Find c userID = store_ForEach ContextBucket (auth_Find_step userID) c"

definition auth_DeleteRefresh :: "auth_tokens \<Rightarrow> unit dbop" where
  "auth_DeleteRefresh c = store_Wrap (map (store_Delete RefreshBucket) (tk_rs c))"

definition auth_DeleteSessions :: "auth_tokens \<Rightarrow> unit dbop" where
  "auth_DeleteSessions c = store_Wrap (map (store_Delete SessionBucket) (tk_ts c))"

definition auth_DeleteContexts :: "auth_tokens \<Rightarrow> unit dbop" where
  "auth_DeleteContexts c = store_Wrap (map (store_Delete ContextBucket) (tk_ts c))"

definition auth_disableLogin :: "string \<Rightarrow> unit dbop" where
  "auth_disableLogin userID s =
     (case store_Unmarshal dec_Login LoginBucket zero_Login userID s of
        (Ret into, s') \<Rightarrow> store_Marshal enc_Login LoginBucket (into\<lparr>login_Disabled := True\<rparr>) userID s'
      | (Fail e, s') \<Rightarrow> if store_IsMissing e then (Ret (), s') else (Fail e, s')
      | (Panic, s') \<Rightarrow> (Panic, s'))"

definition auth_Disable :: "string \<Rightarrow> unit dbop" where
  "auth_Disable userID =
     db_bind (auth_disableLogin userID) (\<lambda>_.
     db_bind (auth_Find \<lparr>tk_ts = [], tk_rs = []\<rparr> userID) (\<lambda>all.
       store_Wrap [auth_DeleteRefresh all, auth_DeleteSessions all, auth_DeleteContexts all]))"

section \<open>Codecs\<close>

lemma dec_enc_Context [simp]: "dec_Context (enc_Context c) d = Some c"
  by (simp add: dec_Context_def enc_Context_def)

lemma dec_enc_Session [simp]: "dec_Session (enc_Session x) y = Some x"
  by (simp add: dec_Session_def enc_Session_def)

lemma dec_enc_Login [simp]: "dec_Login (enc_Login l) zero_Login = Some l"
  by (cases l; cases "login_User l")
    (auto simp: dec_Login_def enc_Login_def zero_Login_def zero_User_def dec_User_def omitempty_def)

interpretation context_codec: json_codec enc_Context dec_Context zero_Context "\<lambda>_. True"
  by unfold_locales simp

interpretation session_codec: json_codec enc_Session dec_Session zero_Session "\<lambda>_. True"
  by unfold_locales simp

interpretation login_codec: json_codec enc_Login dec_Login zero_Login "\<lambda>_. True"
  by unfold_locales simp

section \<open>Tokens and sessions\<close>

lemmas auth_bucket_defs = LoginBucket_def SessionBucket_def RefreshBucket_def ContextBucket_def

lemma auth_buckets_distinct [simp]:
  "LoginBucket \<noteq> SessionBucket" "LoginBucket \<noteq> RefreshBucket" "LoginBucket \<noteq> ContextBucket"
  "SessionBucket \<noteq> RefreshBucket" "SessionBucket \<noteq> ContextBucket" "RefreshBucket \<noteq> ContextBucket"
  "SessionBucket \<noteq> LoginBucket" "RefreshBucket \<noteq> LoginBucket" "ContextBucket \<noteq> LoginBucket"
  "RefreshBucket \<noteq> SessionBucket" "ContextBucket \<noteq> SessionBucket" "ContextBucket \<noteq> RefreshBucket"
  "UserBucket \<noteq> LoginBucket" "UserBucket \<noteq> SessionBucket" "UserBucket \<noteq> RefreshBucket"
  "UserBucket \<noteq> ContextBucket" "LoginBucket \<noteq> UserBucket" "SessionBucket \<noteq> UserBucket"
  "RefreshBucket \<noteq> UserBucket" "ContextBucket \<noteq> UserBucket"
  by (simp_all add: auth_bucket_defs UserBucket_def)

definition auth_tables :: "db \<Rightarrow> bool" where
  "auth_tables s \<longleftrightarrow> has_tbl LoginBucket s \<and> has_tbl SessionBucket s \<and> has_tbl RefreshBucket s \<and> has_tbl ContextBucket s"

lemma auth_tables_put [simp]: "has_tbl b s \<Longrightarrow> auth_tables (db_put b k v s) = auth_tables s"
  by (simp add: auth_tables_def)

lemma auth_tables_del [simp]: "has_tbl b s \<Longrightarrow> auth_tables (db_del b k s) = auth_tables s"
  by (simp add: auth_tables_def)

lemma json_Unmarshal_not_missing [simp]:
  "json_Unmarshal dec v to = Fail e \<Longrightarrow> \<not> store_IsMissing e"
  "json_Unmarshal dec v to \<noteq> Panic"
  by (cases v; auto)+

lemma auth_CheckToken_eq:
  "has_tbl SessionBucket s \<Longrightarrow> auth_CheckToken now t s =
     (case table s SessionBucket t of
        None \<Rightarrow> Fail (auth_ErrMissingSession t)
      | Some v \<Rightarrow> go_bind (json_Unmarshal dec_Session v zero_Session) (\<lambda>x.
          if t_ns (sess_Expiration x) < t_ns now then Fail (auth_ErrTokenExpired t) else Ret ()), s)"
  by (auto simp: auth_CheckToken_def db_bind_def db_catch_def db_fail_def db_return_def store_Unmarshal_eq
      split: option.splits go.splits)

lemma auth_GetContext_eq:
  "has_tbl ContextBucket s \<Longrightarrow> auth_GetContext c t s =
     (case table s ContextBucket t of
        None \<Rightarrow> Fail (auth_ErrContextMissing t)
      | Some v \<Rightarrow> json_Unmarshal dec_Context v c, s)"
  by (auto simp: auth_GetContext_def db_catch_def db_fail_def store_Unmarshal_eq
      split: option.splits go.splits)

lemma fill_session_simps [simp]:
  "sess_Token (fill_session x e v t r) = t" "sess_RefreshToken (fill_session x e v t r) = r"
  "sess_Expiration (fill_session x e v t r) = e" "sess_ExpiresIn (fill_session x e v t r) = v"
  "sess_TokenType (fill_session x e v t r) = BearerType"
  by (simp_all add: fill_session_def)

lemma auth_NewSession_eq:
  assumes "auth_tables s" and "valid_key token" and "valid_key refresh"
  shows "auth_NewSession x expiration validFor token refresh userID s =
    (Ret (fill_session x expiration validFor token refresh),
     db_put RefreshBucket refresh (Raw [])
       (db_put ContextBucket token
          (Doc (enc_Context \<lparr>ctx_Token = token, ctx_RefreshToken = refresh, ctx_UserID = userID\<rparr>))
          (db_put SessionBucket token (Doc (enc_Session (fill_session x expiration validFor token refresh))) s)))"
  using assms
  by (simp add: auth_NewSession_def auth_SaveContext_def auth_tables_def db_bind_def db_return_def Let_def)

lemma auth_DeleteToken_eq:
  "has_tbl SessionBucket s \<Longrightarrow> auth_DeleteToken t s = (Ret (), db_del SessionBucket t s)"
  by (simp add: auth_DeleteToken_def db_catch_def)

lemma auth_RefreshIfValid_eq:
  "auth_tables s \<Longrightarrow> valid_key (sess_Token x) \<Longrightarrow>
   auth_RefreshIfValid x expires validFor s =
     (if table s RefreshBucket (sess_RefreshToken x) = None
      then (Fail (auth_ErrMissingSession (sess_RefreshToken x)), s)
      else (let x' = x\<lparr>sess_Expiration := expires, sess_ExpiresIn := validFor\<rparr>
            in (Ret x', db_put SessionBucket (sess_Token x) (Doc (enc_Session x')) s)))"
  by (simp add: auth_RefreshIfValid_def auth_Refresh_def auth_tables_def db_bind_def db_catch_def
      db_fail_def db_return_def store_CheckExists_eq Let_def)

section \<open>Logins\<close>

lemma auth_Check_eq:
  "has_tbl LoginBucket s \<Longrightarrow> auth_Check l s =
     (case table s LoginBucket (login_Name l) of
        None \<Rightarrow> Fail (auth_ErrMissing (login_Name l))
      | Some v \<Rightarrow> go_bind (json_Unmarshal dec_Login v zero_Login) (\<lambda>got.
          if login_Disabled got then Fail (auth_ErrDisabled (login_Name l))
          else if login_PWHash got \<noteq> sha256_Sum256 (login_PWHash l @ login_Salt got)
          then Fail (auth_ErrInvalid (login_Name l)) else Ret ()), s)"
  by (auto simp: auth_Check_def db_bind_def db_catch_def db_fail_def db_return_def store_Unmarshal_eq
      split: option.splits go.splits)

lemma auth_CheckLoginNotExist_eq:
  "has_tbl LoginBucket s \<Longrightarrow> auth_CheckLoginNotExist l s =
     (if table s LoginBucket (login_Name l) = None then Ret () else Fail (auth_ErrExists (login_Name l)), s)"
  by (simp add: auth_CheckLoginNotExist_def db_catch_def db_fail_def store_CheckNotExist_eq)

section \<open>Disabling a login\<close>

text \<open>Every stored context is filed under its own token, as \<^verbatim>\<open>SaveContext\<close> does.\<close>

definition contexts_keyed :: "(bytes \<rightharpoonup> Context) \<Rightarrow> bool" where
  "contexts_keyed t \<longleftrightarrow> (\<forall>k c. t k = Some c \<longrightarrow> ctx_Token c = k)"

text \<open>The tokens of a user, and their refresh tokens, in a table of contexts.\<close>

definition user_tokens :: "(bytes \<rightharpoonup> Context) \<Rightarrow> string \<Rightarrow> Token set" where
  "user_tokens t u = {k. \<exists>c. t k = Some c \<and> ctx_UserID c = u}"

definition user_refresh :: "(bytes \<rightharpoonup> Context) \<Rightarrow> string \<Rightarrow> Token set" where
  "user_refresh t u = {ctx_RefreshToken c | c k. t k = Some c \<and> ctx_UserID c = u}"

lemma Find_loop:
  "go_foreach (auth_Find_step u) (map (\<lambda>p. (fst p, Some (Doc (enc_Context (snd p))))) kcs) c =
     (let mine = filter (\<lambda>x. ctx_UserID x = u) (map snd kcs)
      in Ret \<lparr>tk_ts = tk_ts c @ map ctx_Token mine, tk_rs = tk_rs c @ map ctx_RefreshToken mine\<rparr>)"
  by (induction kcs arbitrary: c) (auto simp: auth_Find_step_def Let_def)

lemma auth_Find_spec:
  assumes "wf_bucket s" and "holds_tbl enc_Context (\<lambda>_. True) ContextBucket t s" and "contexts_keyed t"
  obtains c where "auth_Find \<lparr>tk_ts = [], tk_rs = []\<rparr> u s = (Ret c, s)"
    and "set (tk_ts c) = user_tokens t u" and "set (tk_rs c) = user_refresh t u"
proof -
  obtain kcs where kcs: "map_of kcs = t" "sorted_wrt (<) (map fst kcs)"
    and each: "\<And>f (a :: auth_tokens). store_ForEach ContextBucket f a s =
      (go_foreach f (map (\<lambda>p. (fst p, Some (Doc (enc_Context (snd p))))) kcs) a, s)"
    by (rule holds_ForEach [OF assms(1,2)]) blast
  define mine where "mine = filter (\<lambda>x. ctx_UserID x = u) (map snd kcs)"
  have "distinct (map fst kcs)" using kcs(2) by (simp add: strict_sorted_iff)
  then have at: "(k, x) \<in> set kcs \<longleftrightarrow> t k = Some x" for k x
    using kcs(1) by (auto simp: map_of_eq_Some_iff)
  have mem: "x \<in> set mine \<longleftrightarrow> (\<exists>k. t k = Some x \<and> ctx_UserID x = u)" for x
    by (auto simp: mine_def at [symmetric] image_iff) force
  have "auth_Find \<lparr>tk_ts = [], tk_rs = []\<rparr> u s = (Ret \<lparr>tk_ts = map ctx_Token mine, tk_rs = map ctx_RefreshToken mine\<rparr>, s)"
    by (simp add: auth_Find_def each Find_loop mine_def Let_def)
  moreover have "set (map ctx_Token mine) = user_tokens t u"
    using assms(3) by (force simp: contexts_keyed_def user_tokens_def mem)
  moreover have "set (map ctx_RefreshToken mine) = user_refresh t u"
    by (auto simp: user_refresh_def mem) (metis mem imageI)
  ultimately show thesis by (intro that) auto
qed

text \<open>The states of the tables after the three deletions.\<close>

lemma delete_tokens:
  assumes "auth_tables s"
  obtains s' where "store_Wrap [auth_DeleteRefresh c, auth_DeleteSessions c, auth_DeleteContexts c] s = (Ret (), s')"
    and "auth_tables s'"
    and "table s' LoginBucket = table s LoginBucket"
    and "table s' RefreshBucket = table s RefreshBucket |` (- set (tk_rs c))"
    and "table s' SessionBucket = table s SessionBucket |` (- set (tk_ts c))"
    and "table s' ContextBucket = table s ContextBucket |` (- set (tk_ts c))"
proof -
  define s1 where "s1 = fold (db_del RefreshBucket) (tk_rs c) s"
  define s2 where "s2 = fold (db_del SessionBucket) (tk_ts c) s1"
  define s3 where "s3 = fold (db_del ContextBucket) (tk_ts c) s2"
  have t0: "has_tbl LoginBucket s" "has_tbl RefreshBucket s" "has_tbl SessionBucket s" "has_tbl ContextBucket s"
    using assms by (simp_all add: auth_tables_def)
  have t1: "has_tbl LoginBucket s1" "has_tbl RefreshBucket s1" "has_tbl SessionBucket s1" "has_tbl ContextBucket s1"
    using t0 by (simp_all add: s1_def bolt.ok_fold_del)
  have t2: "has_tbl LoginBucket s2" "has_tbl RefreshBucket s2" "has_tbl SessionBucket s2" "has_tbl ContextBucket s2"
    using t1 by (simp_all add: s2_def bolt.ok_fold_del)
  have t3: "auth_tables s3"
    using t2 by (simp add: s3_def bolt.ok_fold_del auth_tables_def)
  have run: "store_Wrap [auth_DeleteRefresh c, auth_DeleteSessions c, auth_DeleteContexts c] s = (Ret (), s3)"
    using t0 t1 t2
    by (simp add: auth_DeleteRefresh_def auth_DeleteSessions_def auth_DeleteContexts_def store_Wrap_Deletes
        s1_def [symmetric] s2_def [symmetric] s3_def [symmetric])
  show thesis
    using run t3 t0 t1 t2
    by (intro that [of s3]) (simp_all add: s1_def s2_def s3_def bolt.view_fold_del)
qed

lemma auth_disableLogin_eq:
  assumes "has_tbl LoginBucket s" and "valid_key u"
    and "table s LoginBucket u = map_option (\<lambda>l. Doc (enc_Login l)) ol"
  shows "auth_disableLogin u s =
    (Ret (), case ol of None \<Rightarrow> s
             | Some l \<Rightarrow> db_put LoginBucket u (Doc (enc_Login (l\<lparr>login_Disabled := True\<rparr>))) s)"
  using assms by (auto simp: auth_disableLogin_def store_Unmarshal_eq split: option.splits)

text \<open>
  Disabling, in terms of the tables: the login is marked, the user's contexts, sessions and
  refresh tokens are removed, and nothing else of these tables changes.
\<close>

lemma auth_Disable_spec:
  assumes "wf_bucket s" and "auth_tables s" and "valid_key u"
    and "holds_tbl enc_Context (\<lambda>_. True) ContextBucket t s" and "contexts_keyed t"
    and "table s LoginBucket u = map_option (\<lambda>l. Doc (enc_Login l)) ol"
  obtains s' where "auth_Disable u s = (Ret (), s')"
    and "auth_tables s'"
    and "table s' LoginBucket =
          (table s LoginBucket)(u := map_option (\<lambda>l. Doc (enc_Login (l\<lparr>login_Disabled := True\<rparr>))) ol)"
    and "table s' RefreshBucket = table s RefreshBucket |` (- user_refresh t u)"
    and "table s' SessionBucket = table s SessionBucket |` (- user_tokens t u)"
    and "table s' ContextBucket = table s ContextBucket |` (- user_tokens t u)"
proof -
  define s1 where "s1 = (case ol of None \<Rightarrow> s
    | Some l \<Rightarrow> db_put LoginBucket u (Doc (enc_Login (l\<lparr>login_Disabled := True\<rparr>))) s)"
  have login: "has_tbl LoginBucket s" using assms(2) by (simp add: auth_tables_def)
  have dis: "auth_disableLogin u s = (Ret (), s1)"
    using auth_disableLogin_eq [OF login assms(3,6)] by (simp add: s1_def)
  have s1: "wf_bucket s1" "auth_tables s1" "holds_tbl enc_Context (\<lambda>_. True) ContextBucket t s1"
    "table s1 LoginBucket = (table s LoginBucket)(u := map_option (\<lambda>l. Doc (enc_Login (l\<lparr>login_Disabled := True\<rparr>))) ol)"
    "\<And>b. b \<noteq> LoginBucket \<Longrightarrow> table s1 b = table s b"
    using assms login by (auto simp: s1_def wf_db_put holds_tbl_def fun_eq_iff split: option.splits)
  obtain c where find: "auth_Find \<lparr>tk_ts = [], tk_rs = []\<rparr> u s1 = (Ret c, s1)"
    and ts: "set (tk_ts c) = user_tokens t u" and rs: "set (tk_rs c) = user_refresh t u"
    using auth_Find_spec [OF s1(1,3) assms(5)] by metis
  obtain s' where del: "store_Wrap [auth_DeleteRefresh c, auth_DeleteSessions c, auth_DeleteContexts c] s1 = (Ret (), s')"
    and s': "auth_tables s'" "table s' LoginBucket = table s1 LoginBucket"
      "table s' RefreshBucket = table s1 RefreshBucket |` (- user_refresh t u)"
      "table s' SessionBucket = table s1 SessionBucket |` (- user_tokens t u)"
      "table s' ContextBucket = table s1 ContextBucket |` (- user_tokens t u)"
    using delete_tokens [OF s1(2), of c] unfolding ts rs by metis
  have "auth_Disable u s = (Ret (), s')"
    by (simp add: auth_Disable_def db_bind_def dis find del del: store_Wrap.simps)
  then show thesis
    using s' s1(4,5) by (intro that) simp_all
qed

section \<open>Properties\<close>

definition demo_auth :: db where
  "demo_auth = db_of [ContextBucket, LoginBucket, RefreshBucket, SessionBucket]"

lemma demo_auth_tables [simp]: "auth_tables demo_auth"
  by (simp add: auth_tables_def demo_auth_def)

lemma demo_auth_wf [simp]: "wf_bucket demo_auth"
  by (simp add: demo_auth_def auth_bucket_defs less_char_def)

lemma demo_keys [simp]: "valid_key ''tok''" "valid_key ''ref''" "valid_key ''ann''"
  by (simp_all add: valid_key_def MaxKeySize_def)

text \<open>
  After \<^verbatim>\<open>NewSession\<close> the token passes \<^verbatim>\<open>CheckToken\<close> until the
  expiration has gone by and is expired from then on, its context names the user and the
  refresh token, the refresh token passes \<^verbatim>\<open>CheckRefresh\<close>, and no other token is affected.
\<close>

theorem NewSession_valid:
  assumes "auth_tables s" and "valid_key token" and "valid_key refresh"
  shows "\<exists>x' s'. auth_NewSession x expiration validFor token refresh userID s = (Ret x', s') \<and>
    (\<forall>now. auth_CheckToken now token s' =
       (if t_ns expiration < t_ns now then Fail (auth_ErrTokenExpired token) else Ret (), s')) \<and>
    auth_GetContext zero_Context token s' =
       (Ret \<lparr>ctx_Token = token, ctx_RefreshToken = refresh, ctx_UserID = userID\<rparr>, s') \<and>
    auth_CheckRefresh refresh s' = (Ret (), s') \<and>
    (\<forall>now t. t \<noteq> token \<longrightarrow> fst (auth_CheckToken now t s') = fst (auth_CheckToken now t s))"
  using assms
  by (simp add: auth_NewSession_eq auth_tables_def auth_CheckToken_eq auth_GetContext_eq
      auth_CheckRefresh_def store_CheckExists_eq)

theorem NewSession_valid_witness:
  "\<exists>x' s'. auth_NewSession zero_Session \<lparr>t_ns = 100, t_zone = ZUTC\<rparr> 100 ''tok'' ''ref'' ''ann'' demo_auth = (Ret x', s') \<and>
     auth_CheckToken \<lparr>t_ns = 100, t_zone = ZUTC\<rparr> ''tok'' s' = (Ret (), s') \<and>
     auth_CheckToken \<lparr>t_ns = 101, t_zone = ZUTC\<rparr> ''tok'' s' = (Fail (auth_ErrTokenExpired ''tok''), s')"
proof -
  obtain x' s' where run: "auth_NewSession zero_Session \<lparr>t_ns = 100, t_zone = ZUTC\<rparr> 100 ''tok'' ''ref'' ''ann'' demo_auth = (Ret x', s')"
    and chk: "\<forall>now. auth_CheckToken now ''tok'' s' =
       (if 100 < t_ns now then Fail (auth_ErrTokenExpired ''tok'') else Ret (), s')"
    using NewSession_valid [OF demo_auth_tables demo_keys(1,2),
        of zero_Session "\<lparr>t_ns = 100, t_zone = ZUTC\<rparr>" 100 "''ann''"] by auto
  then show ?thesis by simp
qed

text \<open>
  After \<^verbatim>\<open>DeleteToken\<close> the token is a missing session at every
  time, and every other session, every refresh token and every context stays as it was.
\<close>

theorem DeleteToken_logs_out:
  assumes "auth_tables s"
  shows "\<exists>s'. auth_DeleteToken t s = (Ret (), s') \<and>
    (\<forall>now. fst (auth_CheckToken now t s') = Fail (auth_ErrMissingSession t)) \<and>
    (\<forall>now t'. t' \<noteq> t \<longrightarrow> fst (auth_CheckToken now t' s') = fst (auth_CheckToken now t' s)) \<and>
    table s' RefreshBucket = table s RefreshBucket \<and> table s' ContextBucket = table s ContextBucket"
  using assms by (simp add: auth_DeleteToken_eq auth_tables_def auth_CheckToken_eq)

theorem DeleteToken_logs_out_witness:
  "fst (auth_CheckToken zero_time ''tok'' (snd (auth_DeleteToken ''tok'' demo_auth))) = Fail (auth_ErrMissingSession ''tok'')"
  using DeleteToken_logs_out [OF demo_auth_tables, of "''tok''"] by auto

text \<open>
  C37 (Login_roundtrip).  After \<^verbatim>\<open>Create\<close> a login of that name passes \<^verbatim>\<open>Check\<close> exactly when
  its password hash, salted, hashes to what was stored; the password the login was created
  with always does, and any other outcome is \<^verbatim>\<open>ErrInvalid\<close>.
\<close>

theorem Login_roundtrip:
  assumes "has_tbl LoginBucket s" and "valid_key (login_Name l)" and "login_Name l' = login_Name l"
  shows "\<exists>s'. auth_Create l salt s = (Ret (), s') \<and> fst (auth_Check l s') = Ret () \<and>
    fst (auth_Check l' s') =
      (if sha256_Sum256 (login_PWHash l' @ salt) = sha256_Sum256 (login_PWHash l @ salt) then Ret ()
       else Fail (auth_ErrInvalid (login_Name l)))"
  using assms by (auto simp: auth_Create_def auth_Check_eq Let_def)

theorem Login_roundtrip_witness:
  "\<exists>s'. auth_Create (zero_Login\<lparr>login_User := \<lparr>user_Name = ''ann'', user_Coin = 0\<rparr>\<rparr>) nil_uuid demo_auth = (Ret (), s') \<and>
     fst (auth_Check (zero_Login\<lparr>login_User := \<lparr>user_Name = ''ann'', user_Coin = 0\<rparr>\<rparr>) s') = Ret ()"
  using Login_roundtrip [of demo_auth "zero_Login\<lparr>login_User := \<lparr>user_Name = ''ann'', user_Coin = 0\<rparr>\<rparr>"
      "zero_Login\<lparr>login_User := \<lparr>user_Name = ''ann'', user_Coin = 0\<rparr>\<rparr>" nil_uuid]
  by (auto simp: demo_auth_def)

text \<open>
  C3 (Disable_revokes).  After \<^verbatim>\<open>Disable\<close> every login attempt under the name is refused as
  disabled; every session, refresh token and context of the user is gone; and the logins,
  sessions, contexts and refresh tokens of everyone else are untouched.
\<close>

theorem Disable_revokes:
  assumes "wf_bucket s" and "auth_tables s" and "valid_key u"
    and "holds_tbl enc_Context (\<lambda>_. True) ContextBucket t s" and "contexts_keyed t"
    and "table s LoginBucket u = Some (Doc (enc_Login l0))"
  shows "\<exists>s'. auth_Disable u s = (Ret (), s') \<and>
    (\<forall>l. login_Name l = u \<longrightarrow> fst (auth_Check l s') = Fail (auth_ErrDisabled u)) \<and>
    (\<forall>k c. t k = Some c \<and> ctx_UserID c = u \<longrightarrow>
       (\<forall>now. fst (auth_CheckToken now k s') = Fail (auth_ErrMissingSession k)) \<and>
       fst (auth_CheckRefresh (ctx_RefreshToken c) s') \<noteq> Ret () \<and>
       fst (auth_GetContext zero_Context k s') = Fail (auth_ErrContextMissing k)) \<and>
    (\<forall>k. (\<forall>c. t k = Some c \<longrightarrow> ctx_UserID c \<noteq> u) \<longrightarrow>
       table s' SessionBucket k = table s SessionBucket k \<and> table s' ContextBucket k = table s ContextBucket k) \<and>
    (\<forall>q. (\<forall>k c. t k = Some c \<and> ctx_UserID c = u \<longrightarrow> ctx_RefreshToken c \<noteq> q) \<longrightarrow>
       table s' RefreshBucket q = table s RefreshBucket q) \<and>
    (\<forall>n. n \<noteq> u \<longrightarrow> table s' LoginBucket n = table s LoginBucket n)"
proof -
  have "table s LoginBucket u = map_option (\<lambda>l. Doc (enc_Login l)) (Some l0)" using assms(6) by simp
  then obtain s' where run: "auth_Disable u s = (Ret (), s')" and tbl: "auth_tables s'"
    and login: "table s' LoginBucket =
      (table s LoginBucket)(u := map_option (\<lambda>l. Doc (enc_Login (l\<lparr>login_Disabled := True\<rparr>))) (Some l0))"
    and refresh: "table s' RefreshBucket = table s RefreshBucket |` (- user_refresh t u)"
    and sess: "table s' SessionBucket = table s SessionBucket |` (- user_tokens t u)"
    and ctx: "table s' ContextBucket = table s ContextBucket |` (- user_tokens t u)"
    by (rule auth_Disable_spec [OF assms(1-5)])
  have has: "has_tbl LoginBucket s'" "has_tbl SessionBucket s'" "has_tbl RefreshBucket s'" "has_tbl ContextBucket s'"
    using tbl by (simp_all add: auth_tables_def)
  have "fst (auth_Check l s') = Fail (auth_ErrDisabled u)" if "login_Name l = u" for l
    using that has(1) by (simp add: auth_Check_eq login)
  moreover have "fst (auth_CheckToken now k s') = Fail (auth_ErrMissingSession k)"
    "fst (auth_CheckRefresh (ctx_RefreshToken c) s') \<noteq> Ret ()"
    "fst (auth_GetContext zero_Context k s') = Fail (auth_ErrContextMissing k)"
    if "t k = Some c" "ctx_UserID c = u" for k c now
  proof -
    have "k \<in> user_tokens t u" "ctx_RefreshToken c \<in> user_refresh t u"
      using that by (auto simp: user_tokens_def user_refresh_def)
    then show "fst (auth_CheckToken now k s') = Fail (auth_ErrMissingSession k)"
      "fst (auth_CheckRefresh (ctx_RefreshToken c) s') \<noteq> Ret ()"
      "fst (auth_GetContext zero_Context k s') = Fail (auth_ErrContextMissing k)"
      using has by (simp_all add: auth_CheckToken_eq auth_CheckRefresh_def store_CheckExists_eq
          auth_GetContext_eq sess refresh ctx)
  qed
  moreover have "table s' SessionBucket k = table s SessionBucket k" "table s' ContextBucket k = table s ContextBucket k"
    if "\<forall>c. t k = Some c \<longrightarrow> ctx_UserID c \<noteq> u" for k
    using that by (auto simp: sess ctx user_tokens_def restrict_map_def)
  moreover have "table s' RefreshBucket q = table s RefreshBucket q"
    if "\<forall>k c. t k = Some c \<and> ctx_UserID c = u \<longrightarrow> ctx_RefreshToken c \<noteq> q" for q
    using that by (auto simp: refresh user_refresh_def restrict_map_def)
  moreover have "table s' LoginBucket n = table s LoginBucket n" if "n \<noteq> u" for n using that by (simp add: login)
  ultimately show ?thesis using run by blast
qed

definition demo_login :: Login where
  "demo_login = \<lparr>login_User = \<lparr>user_Name = ''ann'', user_Coin = 0\<rparr>, login_Disabled = False,
                 login_PWHash = [], login_Salt = nil_uuid\<rparr>"

definition demo_context :: Context where
  "demo_context = \<lparr>ctx_Token = ''tok'', ctx_RefreshToken = ''ref'', ctx_UserID = ''ann''\<rparr>"

definition demo_session_db :: db where
  "demo_session_db =
     db_put ContextBucket ''tok'' (Doc (enc_Context demo_context))
       (db_put RefreshBucket ''other'' (Raw [])
         (db_put RefreshBucket ''ref'' (Raw [])
           (db_put LoginBucket ''ann'' (Doc (enc_Login demo_login)) demo_auth)))"

lemma demo_session_db_facts:
  "wf_bucket demo_session_db" "auth_tables demo_session_db"
  "holds_tbl enc_Context (\<lambda>_. True) ContextBucket [''tok'' \<mapsto> demo_context] demo_session_db"
  "table demo_session_db LoginBucket ''ann'' = Some (Doc (enc_Login demo_login))"
  "table demo_session_db RefreshBucket ''other'' = Some (Raw [])"
proof -
  have t: "has_tbl ContextBucket demo_auth" "has_tbl LoginBucket demo_auth" "has_tbl RefreshBucket demo_auth"
    using demo_auth_tables by (auto simp: auth_tables_def)
  show "wf_bucket demo_session_db" by (simp add: demo_session_db_def wf_db_put)
  show "auth_tables demo_session_db" using t by (simp add: demo_session_db_def)
  show "holds_tbl enc_Context (\<lambda>_. True) ContextBucket [''tok'' \<mapsto> demo_context] demo_session_db"
    using t by (simp add: demo_session_db_def holds_tbl_def fun_eq_iff demo_auth_def)
  show "table demo_session_db LoginBucket ''ann'' = Some (Doc (enc_Login demo_login))"
    using t by (simp add: demo_session_db_def)
  show "table demo_session_db RefreshBucket ''other'' = Some (Raw [])"
    using t by (simp add: demo_session_db_def auth_bucket_defs)
qed

theorem Disable_revokes_witness:
  "\<exists>s'. auth_Disable ''ann'' demo_session_db = (Ret (), s') \<and>
     fst (auth_Check demo_login s') = Fail (auth_ErrDisabled ''ann'') \<and>
     fst (auth_GetContext zero_Context ''tok'' s') = Fail (auth_ErrContextMissing ''tok'') \<and>
     fst (auth_CheckRefresh ''ref'' s') \<noteq> Ret () \<and> table s' RefreshBucket ''other'' = Some (Raw [])"
proof -
  have keyed: "contexts_keyed [''tok'' \<mapsto> demo_context]" by (simp add: contexts_keyed_def demo_context_def)
  have "login_Name demo_login = ''ann''" "ctx_UserID demo_context = ''ann''" "ctx_RefreshToken demo_context = ''ref''"
    by (simp_all add: demo_login_def demo_context_def)
  note demo = this
  from Disable_revokes [OF demo_session_db_facts(1,2) demo_keys(3) demo_session_db_facts(3) keyed demo_session_db_facts(4)]
  show ?thesis
  proof (elim exE conjE)
    fix s'
    assume run: "auth_Disable ''ann'' demo_session_db = (Ret (), s')"
      and login: "\<forall>l. login_Name l = ''ann'' \<longrightarrow> fst (auth_Check l s') = Fail (auth_ErrDisabled ''ann'')"
      and own: "\<forall>k c. [''tok'' \<mapsto> demo_context] k = Some c \<and> ctx_UserID c = ''ann'' \<longrightarrow>
         (\<forall>now. fst (auth_CheckToken now k s') = Fail (auth_ErrMissingSession k)) \<and>
         fst (auth_CheckRefresh (ctx_RefreshToken c) s') \<noteq> Ret () \<and>
         fst (auth_GetContext zero_Context k s') = Fail (auth_ErrContextMissing k)"
      and other: "\<forall>q. (\<forall>k c. [''tok'' \<mapsto> demo_context] k = Some c \<and> ctx_UserID c = ''ann'' \<longrightarrow> ctx_RefreshToken c \<noteq> q) \<longrightarrow>
         table s' RefreshBucket q = table demo_session_db RefreshBucket q"
    have "fst (auth_Check demo_login s') = Fail (auth_ErrDisabled ''ann'')" by (rule login [rule_format, OF demo(1)])
    moreover have "fst (auth_CheckRefresh ''ref'' s') \<noteq> Ret ()"
      "fst (auth_GetContext zero_Context ''tok'' s') = Fail (auth_ErrContextMissing ''tok'')"
      using own [rule_format, of "''tok''" demo_context] demo by simp_all
    moreover have "table s' RefreshBucket ''other'' = Some (Raw [])"
      unfolding demo_session_db_facts(5) [symmetric] using demo(3) by (intro other [rule_format]) (auto split: if_splits)
    ultimately show ?thesis using run by (intro exI [of _ s'] conjI)
  qed
qed

text \<open>
  \<^verbatim>\<open>RefreshIfValid\<close> asks only whether the refresh token is
  stored: whichever session it was issued for, it makes the session that is passed in valid
  until the new expiration.
\<close>

theorem RefreshIfValid_any_token:
  assumes "auth_tables s" and "valid_key (sess_Token x)"
  shows "(\<exists>x' s'. auth_RefreshIfValid x expires validFor s = (Ret x', s') \<and>
       (\<forall>now. t_ns now \<le> t_ns expires \<longrightarrow> auth_CheckToken now (sess_Token x) s' = (Ret (), s')))
     \<longleftrightarrow> table s RefreshBucket (sess_RefreshToken x) \<noteq> None"
  using assms by (auto simp: auth_RefreshIfValid_eq auth_tables_def auth_CheckToken_eq Let_def)

theorem RefreshIfValid_any_token_witness:
  "\<exists>x' s'. auth_RefreshIfValid (zero_Session\<lparr>sess_Token := ''tok'', sess_RefreshToken := ''ref''\<rparr>) zero_time 5
     (db_put RefreshBucket ''ref'' (Raw []) demo_auth) = (Ret x', s')"
  using RefreshIfValid_any_token [of "db_put RefreshBucket ''ref'' (Raw []) demo_auth"
      "zero_Session\<lparr>sess_Token := ''tok'', sess_RefreshToken := ''ref''\<rparr>" zero_time 5]
  by (auto simp: demo_auth_def auth_tables_def)

end
