(* ===== verification/Go_Uuid.thy ===== *)
theory Go_Uuid
  imports Go_Sha256
begin

text \<open>
  The parts of \<^verbatim>\<open>github.com/satori/go.uuid\<close> and of the standard library below it that the
  program calls: \<^verbatim>\<open>encoding/hex\<close>, \<^verbatim>\<open>UUID.String\<close>, \<^verbatim>\<open>FromString\<close> and \<^verbatim>\<open>NewV5\<close>, which hashes
  with \<^verbatim>\<open>crypto/sha1\<close>.  A UUID is its sixteen bytes.  \<^verbatim>\<open>store.ID\<close> wraps them
  (\<^verbatim>\<open>store/id.go\<close>).
\<close>

section \<open>Hexadecimal\<close>

definition hex_digit :: "nat \<Rightarrow> char" where
  "hex_digit n = ''0123456789abcdef'' ! n"

definition hex_Encode :: "bytes \<Rightarrow> string" where
  "hex_Encode bs = concat (map (\<lambda>c. [hex_digit (of_char c div 16), hex_digit (of_char c mod 16)]) bs)"

definition fromHexChar :: "char \<Rightarrow> nat option" where
  "fromHexChar c =
     (let n = of_char c
      in if 48 \<le> n \<and> n \<le> 57 then Some (n - 48)
         else if 97 \<le> n \<and> n \<le> 102 then Some (n - 97 + 10)
         else if 65 \<le> n \<and> n \<le> 70 then Some (n - 65 + 10)
         else None)"

fun hex_Decode :: "string \<Rightarrow> bytes option" where
  "hex_Decode [] = Some []"
| "hex_Decode [_] = None"
| "hex_Decode (a # b # cs) =
     (case (fromHexChar a, fromHexChar b) of
        (Some h, Some l) \<Rightarrow> map_option ((#) (char_of (h * 16 + l))) (hex_Decode cs)
      | _ \<Rightarrow> None)"

section \<open>UUIDs\<close>

definition uuid_String :: "uuid \<Rightarrow> string" where
  "uuid_String u =
     hex_Encode (take 4 u) @ CHR ''-'' # hex_Encode (take 2 (drop 4 u)) @ CHR ''-''
     # hex_Encode (take 2 (drop 6 u)) @ CHR ''-'' # hex_Encode (take 2 (drop 8 u)) @ CHR ''-''
     # hex_Encode (drop 10 u)"

text \<open>
  The loop over the five groups.  Reading the dash indexes the rest of the text, which
  panics when nothing is left.
\<close>

fun uuid_groups :: "bool \<Rightarrow> bool \<Rightarrow> nat list \<Rightarrow> string \<Rightarrow> bytes \<Rightarrow> bytes go" where
  "uuid_groups braced first [] t acc = Ret acc"
| "uuid_groups braced first (g # gs) t acc =
     (if \<not> first \<and> t = [] then Panic
      else if \<not> first \<and> hd t \<noteq> CHR ''-'' then Fail (Errorf ''uuid: invalid string format'')
      else
        (let t1 = (if first then t else tl t)
         in if length t1 < g then Fail (Errorf ''uuid: UUID string too short'')
            else if gs = [] \<and> length t1 > g \<and> ((braced \<and> t1 ! g \<noteq> CHR ''}'') \<or> length (drop g t1) > 1 \<or> \<not> braced)
            then Fail (Errorf ''uuid: UUID string too long'')
            else (case hex_Decode (take g t1) of
                    None \<Rightarrow> Fail (Errorf ''encoding/hex: invalid byte'')
                  | Some b \<Rightarrow> uuid_groups braced False gs (drop g t1) (acc @ b))))"

definition uuid_FromString :: "string \<Rightarrow> uuid go" where
  "uuid_FromString text =
     (if length text < 32 then Fail (Errorf ''uuid: UUID string too short'')
      else if take 9 text = ''urn:uuid:'' then uuid_groups False True [8, 4, 4, 4, 12] (drop 9 text) []
      else if hd text = CHR ''{'' then uuid_groups True True [8, 4, 4, 4, 12] (tl text) []
      else uuid_groups False True [8, 4, 4, 4, 12] text [])"

section \<open>SHA-1\<close>

definition rotl :: "nat \<Rightarrow> 32 word \<Rightarrow> 32 word" where
  "rotl i w = push_bit i w OR drop_bit (32 - i) w"

text \<open>The schedule, newest word first.\<close>

fun sha1_schedule :: "nat \<Rightarrow> 32 word list \<Rightarrow> 32 word list" where
  "sha1_schedule 0 ws = ws"
| "sha1_schedule (Suc n) ws =
     sha1_schedule n (rotl 1 (ws ! 2 XOR ws ! 7 XOR ws ! 13 XOR ws ! 15) # ws)"

definition sha1_f :: "nat \<Rightarrow> 32 word \<Rightarrow> 32 word \<Rightarrow> 32 word \<Rightarrow> 32 word" where
  "sha1_f i b c d =
     (if i < 20 then ((b AND c) OR (NOT b AND d)) + 0x5A827999
      else if i < 40 then (b XOR c XOR d) + 0x6ED9EBA1
      else if i < 60 then ((b AND c) OR (b AND d) OR (c AND d)) + 0x8F1BBCDC
      else (b XOR c XOR d) + 0xCA62C1D6)"

fun sha1_round :: "nat \<Rightarrow> 32 word \<Rightarrow> 32 word list \<Rightarrow> 32 word list" where
  "sha1_round i w [a, b, c, d, e] = [rotl 5 a + sha1_f i b c d + e + w, a, rotl 30 b, c, d]"
| "sha1_round _ _ st = st"

definition sha1_block :: "bytes \<Rightarrow> 32 word list \<Rightarrow> 32 word list" where
  "sha1_block blk st =
     (let ws = rev (sha1_schedule 64 (rev (map (\<lambda>c. word_of_nat (be_value c)) (chunks_of 4 blk))));
          st' = fold (\<lambda>(i, w). sha1_round i w) (zip [0..<80] ws) st
      in map2 (+) st st')"

definition sha1_Sum :: "bytes \<Rightarrow> bytes" where
  "sha1_Sum bs =
     concat (map (\<lambda>w. be_bytes 4 (unat w))
       (fold sha1_block (chunks_of 64 (sha256_pad bs)) [0x67452301, 0xEFCDAB89, 0x98BADCFE, 0x10325476, 0xC3D2E1F0]))"

definition byte_op :: "(nat \<Rightarrow> nat) \<Rightarrow> char \<Rightarrow> char" where
  "byte_op f c = char_of (f (of_char c))"

definition uuid_NewV5 :: "uuid \<Rightarrow> string \<Rightarrow> uuid" where
  "uuid_NewV5 ns name =
     (let u = take 16 (sha1_Sum (ns @ name));
          u1 = u[6 := byte_op (\<lambda>n. n mod 16 + 5 * 16) (u ! 6)]
      in u1[8 := byte_op (\<lambda>n. n mod 64 + 128) (u1 ! 8)])"

text \<open>\<^verbatim>\<open>store.ID.HashWith\<close>.\<close>

definition store_HashWith :: "uuid \<Rightarrow> string \<Rightarrow> uuid" where
  "store_HashWith i some = uuid_NewV5 i some"

section \<open>Lemmas\<close>

lemma length_sha1_round: "length st = 5 \<Longrightarrow> length (sha1_round i w st) = 5"
  by (induction i w st rule: sha1_round.induct) simp_all

lemma length_sha1_block: "length st = 5 \<Longrightarrow> length (sha1_block blk st) = 5"
proof -
  have "length st = 5 \<Longrightarrow> length (fold (\<lambda>(i, w). sha1_round i w) iws st) = 5" for iws
    by (induction iws arbitrary: st) (auto simp: length_sha1_round)
  then show "length st = 5 \<Longrightarrow> ?thesis" by (simp add: sha1_block_def Let_def)
qed

lemma length_sha1 [simp]: "length (sha1_Sum bs) = 20"
proof -
  have "length st = 5 \<Longrightarrow> length (fold sha1_block bks st) = 5" for bks st
    by (induction bks arbitrary: st) (auto simp: length_sha1_block)
  then show ?thesis by (simp add: sha1_Sum_def length_concat comp_def sum_list_triv)
qed

lemma length_HashWith [simp]: "length (store_HashWith i s) = 16"
  by (simp add: store_HashWith_def uuid_NewV5_def Let_def)

lemma fromHexChar_digit: "n < 16 \<Longrightarrow> fromHexChar (hex_digit n) = Some n"
proof -
  have "\<forall>n \<in> set [0..<16]. fromHexChar (hex_digit n) = Some n" by code_simp
  then show "n < 16 \<Longrightarrow> ?thesis" by simp
qed

lemma hex_digit_not_delim: "n < 16 \<Longrightarrow> hex_digit n \<noteq> CHR ''{'' \<and> hex_digit n \<noteq> CHR ''u''"
proof -
  have "\<forall>n \<in> set [0..<16]. hex_digit n \<noteq> CHR ''{'' \<and> hex_digit n \<noteq> CHR ''u''" by code_simp
  then show "n < 16 \<Longrightarrow> ?thesis" by simp
qed

lemma hex_Encode_Cons [simp]:
  "hex_Encode (c # cs) = hex_digit (of_char c div 16) # hex_digit (of_char c mod 16) # hex_Encode cs"
  by (simp add: hex_Encode_def)

lemma hex_Encode_Nil [simp]: "hex_Encode [] = []"
  by (simp add: hex_Encode_def)

lemma of_char_div_16: "(of_char c :: nat) div 16 < 16"
  by (rule less_mult_imp_div_less) simp

lemma hex_Decode_Encode: "hex_Decode (hex_Encode bs) = Some bs"
proof (induction bs)
  case (Cons c cs)
  have "(of_char c :: nat) div 16 < 16" by (rule of_char_div_16)
  moreover have "of_char c div 16 * 16 + of_char c mod 16 = (of_char c :: nat)" by simp
  ultimately show ?case
    using Cons by (simp add: fromHexChar_digit)
qed simp

lemma length_hex_Encode [simp]: "length (hex_Encode bs) = 2 * length bs"
  by (induction bs) simp_all

text \<open>\<^verbatim>\<open>FromString\<close> reads back what \<^verbatim>\<open>String\<close> prints.\<close>

lemma uuid_roundtrip:
  assumes "length u = 16"
  shows "uuid_FromString (uuid_String u) = Ret u"
proof -
  define a b c d e where parts: "a = take 4 u" "b = take 2 (drop 4 u)" "c = take 2 (drop 6 u)"
    "d = take 2 (drop 8 u)" "e = drop 10 u"
  have len: "length a = 4" "length b = 2" "length c = 2" "length d = 2" "length e = 6"
    using assms by (simp_all add: parts)
  have cut: "take n (drop m u) @ drop (n + m) u = drop m u" for n m
    by (metis append_take_drop_id drop_drop)
  have "take 2 (drop 4 u) @ take 2 (drop 6 u) @ take 2 (drop 8 u) @ drop 10 u = drop 4 u"
    using cut [of 2 4] cut [of 2 6] cut [of 2 8] by simp
  then have u: "a @ b @ c @ d @ e = u" by (simp add: parts)
  obtain x a' where a: "a = x # a'" using len(1) by (cases a) auto
  have str: "uuid_String u = hex_Encode a @ CHR ''-'' # hex_Encode b @ CHR ''-'' # hex_Encode c @ CHR ''-''
      # hex_Encode d @ CHR ''-'' # hex_Encode e"
    by (simp add: uuid_String_def parts)
  have x: "(of_char x :: nat) div 16 < 16" by (rule of_char_div_16)
  have "take 9 (uuid_String u) \<noteq> ''urn:uuid:''" "hd (uuid_String u) \<noteq> CHR ''{''"
    using hex_digit_not_delim [OF x] by (auto simp: str a)
  then have "uuid_FromString (uuid_String u) = uuid_groups False True [8, 4, 4, 4, 12] (uuid_String u) []"
    using len by (simp add: uuid_FromString_def str)
  also have "\<dots> = Ret u"
    using len by (simp add: str hex_Decode_Encode u)
  finally show ?thesis .
qed

end
