(* ===== verification/Incept.thy ===== *)
theory Incept
  imports Auth Go_Uuid
begin

text \<open>
  Packages \<^verbatim>\<open>admin\<close> and \<^verbatim>\<open>incept\<close>: the salted admin token, and the tickets that let a new
  user create an account (\<^verbatim>\<open>admin/admin.go\<close>, \<^verbatim>\<open>incept/incept.go\<close>).  A ticket is a UUID; its
  bytes are the key under which it is stored.
\<close>

section \<open>The admin token\<close>

definition AdminBucket :: bytes where
  "AdminBucket = ''admin''"

fun admin_IsNotFound :: "err \<Rightarrow> bool" where
  "admin_IsNotFound (admin_ErrNotFound _) = True"
| "admin_IsNotFound _ = False"

text \<open>\<open>salt\<close> is what \<^verbatim>\<open>uuid.NewV4\<close> returned.\<close>

definition admin_NewToken :: "uuid \<Rightarrow> Token \<Rightarrow> unit dbop" where
  "admin_NewToken salt token =
     (let salted = sha256_Sum256 (token @ salt)
      in store_Wrap [store_Put AdminBucket ''token'' (Raw salted),
                     store_Put AdminBucket ''salt'' (Raw salt)])"

definition admin_CheckExists :: "unit dbop" where
  "admin_CheckExists =
     db_catch (store_CheckExists AdminBucket ''token'')
       (\<lambda>e. db_fail (if store_IsMissing e then admin_ErrNotFound [] else e))"

definition admin_get :: "Token \<Rightarrow> bytes \<Rightarrow> bytes dbop" where
  "admin_get token k =
     db_bind
       (db_catch (store_Get AdminBucket k)
          (\<lambda>e. db_fail (if store_IsMissing e then admin_ErrNotFound token else e)))
       (\<lambda>v. db_return (raw_bytes (Some v)))"

definition admin_CheckToken :: "Token \<Rightarrow> unit dbop" where
  "admin_CheckToken token =
     db_bind (admin_get token ''salt'') (\<lambda>salt.
     db_bind (admin_get token ''token'') (\<lambda>adminToken.
       if adminToken \<noteq> sha256_Sum256 (token @ salt) then db_fail (admin_ErrNotFound token)
       else db_return ()))"

section \<open>Tickets\<close>

type_synonym Ticket = uuid

definition TicketBucket :: bytes where
  "TicketBucket = ''tickets''"

fun incept_IsTicketMissing :: "err \<Rightarrow> bool" where
  "incept_IsTicketMissing (incept_ErrTicketMissing _) = True"
| "incept_IsTicketMissing _ = False"

definition incept_NewTicket :: "Ticket \<Rightarrow> unit dbop" where
  "incept_NewTicket t = store_Put TicketBucket t (Raw [])"

definition incept_NewTickets :: "Ticket list \<Rightarrow> unit dbop" where
  "incept_NewTickets ts = store_Wrap (map incept_NewTicket ts)"

definition incept_CheckTicketExist :: "Ticket \<Rightarrow> unit dbop" where
  "incept_CheckTicketExist key =
     db_catch (store_CheckExists TicketBucket key)
       (\<lambda>e. db_fail (if store_IsMissing e then incept_ErrTicketMissing (uuid_String key) else e))"

definition incept_DeleteTickets :: "Ticket list \<Rightarrow> unit dbop" where
  "incept_DeleteTickets ts = store_Wrap (map (store_Delete TicketBucket) ts)"

definition incept_PunchTicket :: "Ticket \<Rightarrow> unit dbop" where
  "incept_PunchTicket key = store_Delete TicketBucket key"

text \<open>\<open>salt\<close> is the UUID drawn for the new login.\<close>

definition incept_Incept :: "uuid \<Rightarrow> Ticket \<Rightarrow> Login \<Rightarrow> db \<Rightarrow> unit go \<times> db" where
  "incept_Incept salt key l s =
     (case db_View (store_Wrap [incept_CheckTicketExist key, users_CheckNotExist [login_Name l],
                                auth_CheckLoginNotExist l]) s of
        (Ret _, s1) \<Rightarrow>
          db_Update (store_Wrap [incept_CheckTicketExist key, users_CheckNotExist [login_Name l],
                                 auth_CheckLoginNotExist l, incept_PunchTicket key,
                                 users_Create (login_User l), auth_Create l salt]) s1
      | r \<Rightarrow> r)"

definition incept_InceptNoTicket :: "uuid \<Rightarrow> Login \<Rightarrow> db \<Rightarrow> unit go \<times> db" where
  "incept_InceptNoTicket salt l s =
     (case db_View (store_Wrap [users_CheckNotExist [login_Name l], auth_CheckLoginNotExist l]) s of
        (Ret _, s1) \<Rightarrow>
          db_Update (store_Wrap [users_CheckNotExist [login_Name l], auth_CheckLoginNotExist l,
                                 users_Create (login_User l), auth_Create l salt]) s1
      | r \<Rightarrow> r)"

section \<open>Lemmas\<close>

lemma incept_buckets_distinct [simp]:
  "TicketBucket \<noteq> UserBucket" "TicketBucket \<noteq> LoginBucket" "UserBucket \<noteq> TicketBucket" "LoginBucket \<noteq> TicketBucket"
  by (simp_all add: TicketBucket_def UserBucket_def LoginBucket_def)

definition incept_tables :: "db \<Rightarrow> bool" where
  "incept_tables s \<longleftrightarrow> has_tbl TicketBucket s \<and> has_tbl UserBucket s \<and> has_tbl LoginBucket s"

lemma incept_CheckTicketExist_eq:
  "has_tbl TicketBucket s \<Longrightarrow> incept_CheckTicketExist key s =
     (if table s TicketBucket key = None then Fail (incept_ErrTicketMissing (uuid_String key)) else Ret (), s)"
  by (simp add: incept_CheckTicketExist_def db_catch_def db_fail_def store_CheckExists_eq)

lemma admin_CheckToken_eq:
  assumes "has_tbl AdminBucket s"
    and "table s AdminBucket ''salt'' = map_option Raw salt"
    and "table s AdminBucket ''token'' = map_option Raw tok"
  shows "admin_CheckToken token s =
    (if \<exists>x. salt = Some x \<and> tok = Some (sha256_Sum256 (token @ x)) then Ret ()
     else Fail (admin_ErrNotFound token), s)"
  using assms
  by (cases salt; cases tok)
    (simp_all add: admin_CheckToken_def admin_get_def db_bind_def db_catch_def db_fail_def db_return_def store_Get_eq)

text \<open>Three outcomes of \<^verbatim>\<open>Incept\<close>: the ticket is missing, the name is taken, or the user is
  created and the ticket is gone.\<close>

definition incepted :: "uuid \<Rightarrow> Ticket \<Rightarrow> Login \<Rightarrow> db \<Rightarrow> db" where
  "incepted salt key l s =
     db_put LoginBucket (login_Name l)
       (Doc (enc_Login \<lparr>login_User = login_User l, login_Disabled = False,
                        login_PWHash = sha256_Sum256 (login_PWHash l @ salt), login_Salt = salt\<rparr>))
       (db_put UserBucket (login_Name l) (Doc (enc_User (login_User l))) (db_del TicketBucket key s))"

lemma incept_Incept_eq:
  assumes "incept_tables s" and "valid_key (login_Name l)"
  shows "incept_Incept salt key l s =
    (if table s TicketBucket key = None then (Fail (incept_ErrTicketMissing (uuid_String key)), s)
     else if table s UserBucket (login_Name l) \<noteq> None then (Fail (users_ErrExists (login_Name l)), s)
     else if table s LoginBucket (login_Name l) \<noteq> None then (Fail (auth_ErrExists (login_Name l)), s)
     else (Ret (), incepted salt key l s))"
  using assms
  by (auto simp: incept_Incept_def incept_tables_def db_View_def db_Update_def incept_CheckTicketExist_eq
      users_CheckNotExist_single auth_CheckLoginNotExist_eq incept_PunchTicket_def users_Create_def
      auth_Create_def incepted_def Let_def)

lemma incept_InceptNoTicket_eq:
  assumes "incept_tables s" and "valid_key (login_Name l)"
  shows "incept_InceptNoTicket salt l s =
    (if table s UserBucket (login_Name l) \<noteq> None then (Fail (users_ErrExists (login_Name l)), s)
     else if table s LoginBucket (login_Name l) \<noteq> None then (Fail (auth_ErrExists (login_Name l)), s)
     else (Ret (), db_put LoginBucket (login_Name l)
       (Doc (enc_Login \<lparr>login_User = login_User l, login_Disabled = False,
                        login_PWHash = sha256_Sum256 (login_PWHash l @ salt), login_Salt = salt\<rparr>))
       (db_put UserBucket (login_Name l) (Doc (enc_User (login_User l))) s)))"
  using assms
  by (auto simp: incept_InceptNoTicket_def incept_tables_def db_View_def db_Update_def
      users_CheckNotExist_single auth_CheckLoginNotExist_eq users_Create_def auth_Create_def Let_def)

text \<open>An error never changes the database, on any state and for any login.\<close>

lemma db_Update_rollback: "fst (db_Update f s) = Ret a \<or> snd (db_Update f s) = s" for f :: "unit dbop"
  by (cases "f s"; cases "fst (f s)") (auto simp: db_Update_def)

lemma view_then_update_rollback:
  "fst (case db_View v s of (Ret _, s1) \<Rightarrow> db_Update f s1 | r \<Rightarrow> r) = Ret () \<or>
   snd (case db_View v s of (Ret _, s1) \<Rightarrow> db_Update f s1 | r \<Rightarrow> r) = s"
  for v f :: "unit dbop"
  using db_Update_rollback [of f s] by (cases "fst (v s)") (auto simp: db_View_def)

section \<open>Properties\<close>

definition demo_incept :: db where
  "demo_incept = db_put TicketBucket nil_uuid (Raw []) (db_of [LoginBucket, TicketBucket, UserBucket])"

lemma demo_incept_facts [simp]:
  "incept_tables demo_incept" "table demo_incept TicketBucket nil_uuid = Some (Raw [])"
  "table demo_incept UserBucket k = None" "table demo_incept LoginBucket k = None"
  by (simp_all add: demo_incept_def incept_tables_def)

text \<open>
  C7 (Incept_once).  With an unused ticket and a free name, \<^verbatim>\<open>Incept\<close> creates the user as
  given and a login that accepts the given password, and uses the ticket up: a second
  inception with it, for any login, reports a missing ticket and changes nothing.
\<close>

theorem Incept_once:
  assumes "incept_tables s" and "valid_key (login_Name l)"
    and "table s TicketBucket key \<noteq> None"
    and "table s UserBucket (login_Name l) = None" and "table s LoginBucket (login_Name l) = None"
  shows "\<exists>s'. incept_Incept salt key l s = (Ret (), s') \<and>
    user_at s' (login_Name l) = Some (login_User l) \<and>
    fst (auth_Check l s') = Ret () \<and>
    (\<forall>k. k \<noteq> key \<longrightarrow> table s' TicketBucket k = table s TicketBucket k) \<and>
    (\<forall>salt' l'. valid_key (login_Name l') \<longrightarrow>
       incept_Incept salt' key l' s' = (Fail (incept_ErrTicketMissing (uuid_String key)), s'))"
  using assms
  by (simp add: incept_Incept_eq incepted_def incept_tables_def auth_Check_eq)

theorem Incept_once_witness:
  "\<exists>s'. incept_Incept nil_uuid nil_uuid demo_login demo_incept = (Ret (), s') \<and>
     user_at s' ''ann'' = Some \<lparr>user_Name = ''ann'', user_Coin = 0\<rparr> \<and>
     incept_Incept nil_uuid nil_uuid demo_login s' = (Fail (incept_ErrTicketMissing (uuid_String nil_uuid)), s')"
  using Incept_once [of demo_incept demo_login nil_uuid nil_uuid]
  by (auto simp: demo_login_def)

text \<open>
  Whatever the database, the ticket and the login: when \<^verbatim>\<open>Incept\<close> or
  \<^verbatim>\<open>InceptNoTicket\<close> does not succeed, the database is the one from before the call.
\<close>

theorem Incept_atomic:
  "(fst (incept_Incept salt key l s) = Ret () \<or> snd (incept_Incept salt key l s) = s) \<and>
   (fst (incept_InceptNoTicket salt l s) = Ret () \<or> snd (incept_InceptNoTicket salt l s) = s)"
  unfolding incept_Incept_def incept_InceptNoTicket_def by (intro conjI view_then_update_rollback)

text \<open>
  After \<^verbatim>\<open>NewToken\<close> the admin token exists, the token itself passes
  \<^verbatim>\<open>CheckToken\<close>, and any other token passes only when it hashes, with the salt, to the same
  value; the outcome does not depend on which token was set before.
\<close>

theorem admin_token_check:
  assumes "has_tbl AdminBucket s"
  shows "\<exists>s'. admin_NewToken salt token s = (Ret (), s') \<and>
    admin_CheckExists s' = (Ret (), s') \<and> admin_CheckToken token s' = (Ret (), s') \<and>
    (\<forall>tok. admin_CheckToken tok s' =
       (if sha256_Sum256 (tok @ salt) = sha256_Sum256 (token @ salt) then Ret () else Fail (admin_ErrNotFound tok), s'))"
proof -
  have keys: "valid_key ''token''" "valid_key ''salt''" by (simp_all add: valid_key_def MaxKeySize_def)
  define s' where "s' = db_put AdminBucket ''salt'' (Raw salt)
    (db_put AdminBucket ''token'' (Raw (sha256_Sum256 (token @ salt))) s)"
  have run: "admin_NewToken salt token s = (Ret (), s')"
    using assms keys by (simp add: admin_NewToken_def s'_def Let_def)
  have tbl: "has_tbl AdminBucket s'" "table s' AdminBucket ''salt'' = map_option Raw (Some salt)"
    "table s' AdminBucket ''token'' = map_option Raw (Some (sha256_Sum256 (token @ salt)))"
    using assms by (simp_all add: s'_def)
  have "admin_CheckToken tok s' =
    (if sha256_Sum256 (tok @ salt) = sha256_Sum256 (token @ salt) then Ret () else Fail (admin_ErrNotFound tok), s')" for tok
    using admin_CheckToken_eq [OF tbl, of tok] by auto
  moreover have "admin_CheckExists s' = (Ret (), s')"
    using tbl by (simp add: admin_CheckExists_def db_catch_def store_CheckExists_eq)
  ultimately show ?thesis using run by simp
qed

theorem admin_token_check_witness:
  "\<exists>s'. admin_NewToken nil_uuid ''key'' (db_of [AdminBucket]) = (Ret (), s') \<and> admin_CheckToken ''key'' s' = (Ret (), s')"
  using admin_token_check [of "db_of [AdminBucket]" nil_uuid "''key''"] by auto

end
