(* ===== verification/Go_Strings.thy ===== *)
theory Go_Strings
  imports SG_Prelude
begin

text \<open>
  What the program uses of the packages \<^verbatim>\<open>strings\<close>, \<^verbatim>\<open>strconv\<close> and \<^verbatim>\<open>encoding/base64\<close> of the
  Go standard library, on byte strings: \<^verbatim>\<open>Fields\<close>, \<^verbatim>\<open>Split\<close>, \<^verbatim>\<open>SplitN\<close> with two parts,
  \<^verbatim>\<open>ParseInt\<close>, and the padded standard and unpadded URL alphabets of base64.
\<close>

section \<open>Fields\<close>

definition byte :: "nat \<Rightarrow> char" where
  "byte n = char_of n"

text \<open>The number of bytes of the white-space rune at the head of a UTF-8 string, 0 for none.\<close>

fun space_len :: "string \<Rightarrow> nat" where
  "space_len [] = 0"
| "space_len (c # cs) =
     (let n = of_char c; a = (case cs of [] \<Rightarrow> 0 | x # _ \<Rightarrow> of_char x);
          b = (case cs of _ # x # _ \<Rightarrow> of_char x | _ \<Rightarrow> (0::nat))
      in if 9 \<le> n \<and> n \<le> 13 \<or> n = 32 then 1
         else if n = 0xC2 \<and> (a = (0x85::nat) \<or> a = 0xA0) then 2
         else if n = 0xE1 \<and> a = 0x9A \<and> b = 0x80 then 3
         else if n = 0xE2 \<and> a = 0x80 \<and> (0x80 \<le> b \<and> b \<le> 0x8A \<or> b = 0xA8 \<or> b = 0xA9 \<or> b = 0xAF) then 3
         else if n = 0xE2 \<and> a = 0x81 \<and> b = 0x9F then 3
         else if n = (0xE3::nat) \<and> a = 0x80 \<and> b = 0x80 then 3
         else 0)"

text \<open>\<open>fields_from n cur s\<close>: \<open>cur\<close> is the current field, \<open>n\<close> the bytes of a space still to skip.\<close>

fun fields_from :: "nat \<Rightarrow> string \<Rightarrow> string \<Rightarrow> string list" where
  "fields_from n cur [] = (if cur = [] then [] else [cur])"
| "fields_from (Suc n) cur (c # cs) = fields_from n cur cs"
| "fields_from 0 cur (c # cs) =
     (if space_len (c # cs) = 0 then fields_from 0 (cur @ [c]) cs
      else (if cur = [] then [] else [cur]) @ fields_from (space_len (c # cs) - 1) [] cs)"

definition strings_Fields :: "string \<Rightarrow> string list" where
  "strings_Fields s = fields_from 0 [] s"

section \<open>Split\<close>

fun split_char :: "char \<Rightarrow> string \<Rightarrow> string \<Rightarrow> string list" where
  "split_char sep cur [] = [cur]"
| "split_char sep cur (c # cs) = (if c = sep then cur # split_char sep [] cs else split_char sep (cur @ [c]) cs)"

definition strings_Split :: "string \<Rightarrow> char \<Rightarrow> string list" where
  "strings_Split s sep = split_char sep [] s"

text \<open>\<^verbatim>\<open>SplitN(s, sep, 2)\<close> for a separator that is not empty: cut at its first occurrence.\<close>

fun splitN2 :: "string \<Rightarrow> string \<Rightarrow> string \<Rightarrow> string list" where
  "splitN2 sep cur [] = [cur]"
| "splitN2 sep cur (c # cs) =
     (if take (length sep) (c # cs) = sep then [cur, drop (length sep) (c # cs)]
      else splitN2 sep (cur @ [c]) cs)"

definition strings_SplitN2 :: "string \<Rightarrow> string \<Rightarrow> string list" where
  "strings_SplitN2 s sep = splitN2 sep [] s"

section \<open>Numbers\<close>

definition is_digit :: "char \<Rightarrow> bool" where
  "is_digit c \<longleftrightarrow> 48 \<le> (of_char c :: nat) \<and> of_char c \<le> (57 :: nat)"

definition digits_value :: "string \<Rightarrow> int" where
  "digits_value cs = foldl (\<lambda>n c. n * 10 + (of_char c - 48)) 0 cs"

text \<open>\<^verbatim>\<open>ParseInt(s, 10, 64)\<close>, and \<^verbatim>\<open>Atoi\<close> on a 64-bit platform.\<close>

definition strconv_ParseInt :: "string \<Rightarrow> int64 go" where
  "strconv_ParseInt s =
     (let neg = (s \<noteq> [] \<and> hd s = CHR ''-'');
          ds = (if s \<noteq> [] \<and> (hd s = CHR ''-'' \<or> hd s = CHR ''+'') then tl s else s);
          v = (if neg then - digits_value ds else digits_value ds)
      in if ds = [] \<or> \<not> list_all is_digit ds then Fail (Errorf ''strconv: invalid syntax'')
         else if - (2 ^ 63) \<le> v \<and> v < 2 ^ 63 then Ret (word_of_int v)
         else Fail (Errorf ''strconv: value out of range''))"

section \<open>Base64\<close>

definition encodeStd :: string where
  "encodeStd = ''ABCDEFGHIJKLMNOPQRSTUVWXYZabcdefghijklmnopqrstuvwxyz0123456789+/''"

definition encodeURL :: string where
  "encodeURL = ''ABCDEFGHIJKLMNOPQRSTUVWXYZabcdefghijklmnopqrstuvwxyz0123456789-_''"

fun index_of :: "char \<Rightarrow> string \<Rightarrow> nat option" where
  "index_of c [] = None"
| "index_of c (x # xs) = (if c = x then Some 0 else map_option Suc (index_of c xs))"

fun base64_encode :: "string \<Rightarrow> bool \<Rightarrow> bytes \<Rightarrow> string" where
  "base64_encode alpha pad [] = []"
| "base64_encode alpha pad [a] =
     (let v = of_char a * 16 in [alpha ! (v div 64), alpha ! (v mod 64)] @ (if pad then ''=='' else []))"
| "base64_encode alpha pad [a, b] =
     (let v = (of_char a * 256 + of_char b) * 4
      in [alpha ! (v div 4096), alpha ! (v div 64 mod 64), alpha ! (v mod 64)] @ (if pad then ''='' else []))"
| "base64_encode alpha pad (a # b # c # ds) =
     (let v = (of_char a * 256 + of_char b) * 256 + of_char c
      in [alpha ! (v div 262144), alpha ! (v div 4096 mod 64), alpha ! (v div 64 mod 64), alpha ! (v mod 64)]
         @ base64_encode alpha pad ds)"

text \<open>A last quantum of two or three characters; the bits that are left over are not looked at.\<close>

definition quantum2 :: "nat \<Rightarrow> nat \<Rightarrow> bytes" where
  "quantum2 w x = [char_of ((w * 64 + x) div 16)]"

definition quantum3 :: "nat \<Rightarrow> nat \<Rightarrow> nat \<Rightarrow> bytes" where
  "quantum3 w x y = (let v = (w * 64 + x) * 64 + y in [char_of (v div 1024), char_of (v div 4 mod 256)])"

definition quantum4 :: "nat \<Rightarrow> nat \<Rightarrow> nat \<Rightarrow> nat \<Rightarrow> bytes" where
  "quantum4 w x y z =
     (let v = ((w * 64 + x) * 64 + y) * 64 + z
      in [char_of (v div 65536), char_of (v div 256 mod 256), char_of (v mod 256)])"

fun base64_decode :: "string \<Rightarrow> bool \<Rightarrow> string \<Rightarrow> bytes option" where
  "base64_decode alpha pad [] = Some []"
| "base64_decode alpha pad [a] = None"
| "base64_decode alpha pad [a, b] =
     (if pad then None
      else (case (index_of a alpha, index_of b alpha) of
              (Some w, Some x) \<Rightarrow> Some (quantum2 w x) | _ \<Rightarrow> None))"
| "base64_decode alpha pad [a, b, c] =
     (if pad then None
      else (case (index_of a alpha, index_of b alpha, index_of c alpha) of
              (Some w, Some x, Some y) \<Rightarrow> Some (quantum3 w x y) | _ \<Rightarrow> None))"
| "base64_decode alpha pad (a # b # c # d # es) =
     (case (index_of a alpha, index_of b alpha) of
        (Some w, Some x) \<Rightarrow>
          (if pad \<and> c = CHR ''='' then (if d = CHR ''='' \<and> es = [] then Some (quantum2 w x) else None)
           else (case index_of c alpha of
                   None \<Rightarrow> None
                 | Some y \<Rightarrow>
                     if pad \<and> d = CHR ''='' then (if es = [] then Some (quantum3 w x y) else None)
                     else (case index_of d alpha of
                             None \<Rightarrow> None
                           | Some z \<Rightarrow> map_option ((@) (quantum4 w x y z)) (base64_decode alpha pad es))))
      | _ \<Rightarrow> None)"

text \<open>\<^verbatim>\<open>DecodeString\<close> drops carriage returns and line feeds first.\<close>

definition not_newline :: "char \<Rightarrow> bool" where
  "not_newline c \<longleftrightarrow> c \<noteq> CHR 0x0A \<and> c \<noteq> CHR 0x0D"

definition base64_Std_Encode :: "bytes \<Rightarrow> string" where
  "base64_Std_Encode bs = base64_encode encodeStd True bs"

definition base64_Std_Decode :: "string \<Rightarrow> bytes option" where
  "base64_Std_Decode s = base64_decode encodeStd True (filter not_newline s)"

definition base64_RawURL_Encode :: "bytes \<Rightarrow> string" where
  "base64_RawURL_Encode bs = base64_encode encodeURL False bs"

definition base64_RawURL_Decode :: "string \<Rightarrow> bytes option" where
  "base64_RawURL_Decode s = base64_decode encodeURL False (filter not_newline s)"

section \<open>Lemmas\<close>

text \<open>Printing ASCII characters end no field.\<close>

definition plain_char :: "char \<Rightarrow> bool" where
  "plain_char c \<longleftrightarrow> 33 \<le> (of_char c :: nat) \<and> of_char c < (128 :: nat)"

lemma space_len_plain: "plain_char c \<Longrightarrow> space_len (c # cs) = 0"
  by (simp add: plain_char_def Let_def)

lemma fields_plain:
  "list_all plain_char w \<Longrightarrow> fields_from 0 cur (w @ cs) = fields_from 0 (cur @ w) cs"
  by (induction w arbitrary: cur) (simp_all add: space_len_plain del: space_len.simps)

lemma Fields_two:
  assumes "list_all plain_char a" and "a \<noteq> []" and "list_all plain_char b" and "b \<noteq> []"
  shows "strings_Fields (a @ CHR '' '' # b) = [a, b]"
proof -
  have "fields_from 0 [] b = [b]" using fields_plain [OF assms(3), of "[]" "[]"] assms(4) by simp
  then show ?thesis
    using assms(2) fields_plain [OF assms(1), of "[]" "CHR '' '' # b"] by (simp add: strings_Fields_def Let_def)
qed

text \<open>An alphabet: 64 different characters, none of them padding, white space, comma or plus
  where that matters.\<close>

lemma list3_induct:
  assumes "P []" and "\<And>a. P [a]" and "\<And>a b. P [a, b]" and "\<And>a b c ds. P ds \<Longrightarrow> P (a # b # c # ds)"
  shows "P xs"
  using assms by induction_schema (pat_completeness, lexicographic_order)

lemma list3_cases:
  obtains "xs = []" | a where "xs = [a]" | a b where "xs = [a, b]" | a b c ds where "xs = a # b # c # ds"
  by (metis list.exhaust)

locale alphabet =
  fixes alpha :: string
  assumes len: "length alpha = 64"
    and dist: "distinct alpha"
    and no_pad: "CHR ''='' \<notin> set alpha"
    and no_nl: "\<forall>c \<in> set alpha. not_newline c"
    and plain: "\<forall>c \<in> set alpha. plain_char c"
begin

lemma index_of_nth: "i < 64 \<Longrightarrow> index_of (alpha ! i) alpha = Some i"
proof -
  have "i < length xs \<Longrightarrow> distinct xs \<Longrightarrow> index_of (xs ! i) xs = Some i" for xs i
  proof (induction xs arbitrary: i)
    case (Cons x xs)
    then show ?case by (cases i) auto
  qed simp
  then show "i < 64 \<Longrightarrow> ?thesis" using len dist by simp
qed

lemma nth_not_pad: "i < 64 \<Longrightarrow> alpha ! i \<noteq> CHR ''=''"
  using no_pad len by (metis nth_mem)

lemma nth_no_nl: "i < 64 \<Longrightarrow> not_newline (alpha ! i)"
  using no_nl len by (metis nth_mem)

text \<open>The arithmetic of one quantum.\<close>

lemma quantum2_bytes:
  fixes a :: char
  defines "v \<equiv> of_char a * 16 :: nat"
  shows "quantum2 (v div 64) (v mod 64) = [a]" and "v div 64 < 64"
proof -
  have "(of_char a :: nat) < 256" by simp
  then have "v < 64 * 64" unfolding v_def by linarith
  then show "v div 64 < 64" by (rule less_mult_imp_div_less)
  show "quantum2 (v div 64) (v mod 64) = [a]"
    by (simp only: quantum2_def div_mult_mod_eq) (simp add: v_def)
qed

lemma quantum3_bytes:
  fixes a b :: char
  defines "v \<equiv> (of_char a * 256 + of_char b) * 4 :: nat"
  shows "quantum3 (v div 4096) (v div 64 mod 64) (v mod 64) = [a, b]" and "v div 4096 < 64"
proof -
  have ab: "(of_char a :: nat) < 256" "(of_char b :: nat) < 256" by simp_all
  then have "v < 64 * 4096" unfolding v_def distrib_right by linarith
  then show "v div 4096 < 64" by (rule less_mult_imp_div_less)
  have d: "v div 4096 = v div 64 div 64" "v div 1024 = v div 4 div 256"
    by (simp_all add: div_mult2_eq [symmetric])
  have "v div 4 div 256 = of_char a" "v div 4 mod 256 = of_char b"
    using ab by (simp_all add: v_def)
  then show "quantum3 (v div 4096) (v div 64 mod 64) (v mod 64) = [a, b]"
    by (simp only: quantum3_def Let_def d div_mult_mod_eq) simp
qed

lemma quantum4_bytes:
  fixes a b c :: char
  defines "v \<equiv> (of_char a * 256 + of_char b) * 256 + of_char c :: nat"
  shows "quantum4 (v div 262144) (v div 4096 mod 64) (v div 64 mod 64) (v mod 64) = [a, b, c]"
    and "v div 262144 < 64"
proof -
  have ab: "(of_char a :: nat) < 256" "(of_char b :: nat) < 256" "(of_char c :: nat) < 256" by simp_all
  then have "v < 64 * 262144" unfolding v_def distrib_right by linarith
  then show "v div 262144 < 64" by (rule less_mult_imp_div_less)
  have d: "v div 262144 = v div 64 div 64 div 64" "v div 4096 = v div 64 div 64" "v div 65536 = v div 256 div 256"
    by (simp_all add: div_mult2_eq [symmetric])
  have byte: "(x * 256 + y) div 256 = x" "(x * 256 + y) mod 256 = y" if "y < 256" for x y :: nat
    using that by simp_all
  have "v div 256 = of_char a * 256 + of_char b" "v mod 256 = of_char c"
    unfolding v_def by (rule byte [OF ab(3)])+
  then have "v div 256 div 256 = of_char a" "v div 256 mod 256 = of_char b" "v mod 256 = of_char c"
    by (simp_all add: byte [OF ab(2)])
  then show "quantum4 (v div 262144) (v div 4096 mod 64) (v div 64 mod 64) (v mod 64) = [a, b, c]"
    by (simp only: quantum4_def Let_def d div_mult_mod_eq) simp
qed

lemma decode_encode: "base64_decode alpha pad (base64_encode alpha pad bs) = Some bs"
proof (induction bs rule: list3_induct)
  case (2 a)
  then show ?case
    using quantum2_bytes [of a] by (simp add: index_of_nth Let_def)
next
  case (3 a b)
  then show ?case
    using quantum3_bytes [of a b] by (simp add: index_of_nth nth_not_pad Let_def)
next
  case (4 a b c ds)
  then show ?case
    using quantum4_bytes [of a b c] by (simp add: index_of_nth nth_not_pad Let_def)
qed simp

lemma pad_no_nl: "not_newline (CHR ''='')"
  by (simp add: not_newline_def)

lemma encode_no_newline: "filter not_newline (base64_encode alpha pad bs) = base64_encode alpha pad bs"
proof (induction bs rule: list3_induct)
  case (2 a)
  then show ?case using quantum2_bytes(2) [of a] by (simp add: nth_no_nl pad_no_nl Let_def)
next
  case (3 a b)
  then show ?case using quantum3_bytes(2) [of a b] by (simp add: nth_no_nl pad_no_nl Let_def)
next
  case (4 a b c ds)
  then show ?case using quantum4_bytes(2) [of a b c] by (simp add: nth_no_nl Let_def)
qed simp

lemma nth_plain: "i < 64 \<Longrightarrow> plain_char (alpha ! i)"
  using plain len by (metis nth_mem)

lemma encode_plain: "list_all plain_char (base64_encode alpha pad bs)"
proof (induction bs rule: list3_induct)
  case (2 a)
  then show ?case using quantum2_bytes(2) [of a] by (simp add: nth_plain plain_char_def [of "CHR ''=''"] Let_def)
next
  case (3 a b)
  then show ?case using quantum3_bytes(2) [of a b] by (simp add: nth_plain plain_char_def [of "CHR ''=''"] Let_def)
next
  case (4 a b c ds)
  then show ?case using quantum4_bytes(2) [of a b c] by (simp add: nth_plain Let_def)
qed simp

lemma encode_set: "set (base64_encode alpha pad bs) \<subseteq> insert (CHR ''='') (set alpha)"
proof (induction bs rule: list3_induct)
  case (2 a)
  then show ?case using quantum2_bytes(2) [of a] len by (auto simp: Let_def)
next
  case (3 a b)
  then show ?case using quantum3_bytes(2) [of a b] len by (auto simp: Let_def)
next
  case (4 a b c ds)
  then show ?case using quantum4_bytes(2) [of a b c] len by (auto simp: Let_def)
qed simp

lemma encode_Nil_iff: "base64_encode alpha pad bs = [] \<longleftrightarrow> bs = []"
  by (cases bs rule: list3_cases) (simp_all add: Let_def)

end

interpretation std: alphabet encodeStd
  by unfold_locales (simp_all add: encodeStd_def not_newline_def plain_char_def)

interpretation url: alphabet encodeURL
  by unfold_locales (simp_all add: encodeURL_def not_newline_def plain_char_def)

lemma base64_Std_roundtrip: "base64_Std_Decode (base64_Std_Encode bs) = Some bs"
  by (simp add: base64_Std_Decode_def base64_Std_Encode_def std.encode_no_newline std.decode_encode)

lemma base64_RawURL_roundtrip: "base64_RawURL_Decode (base64_RawURL_Encode bs) = Some bs"
  by (simp add: base64_RawURL_Decode_def base64_RawURL_Encode_def url.encode_no_newline url.decode_encode)

lemma RawURL_chars: "c \<in> {CHR '','', CHR ''+''} \<Longrightarrow> c \<notin> set (base64_RawURL_Encode bs)"
  using url.encode_set [of False bs] by (auto simp: base64_RawURL_Encode_def encodeURL_def)

text \<open>Splitting at characters and substrings that do not occur.\<close>

lemma split_char_append: "sep \<notin> set w \<Longrightarrow> split_char sep cur (w @ cs) = split_char sep (cur @ w) cs"
  by (induction w arbitrary: cur) auto

lemma Split_two: "sep \<notin> set a \<Longrightarrow> sep \<notin> set b \<Longrightarrow> strings_Split (a @ sep # b) sep = [a, b]"
  using split_char_append [of sep b "[]" "[]"] by (simp add: strings_Split_def split_char_append)

lemma splitN2_none: "x \<in> set sep \<Longrightarrow> x \<notin> set w \<Longrightarrow> splitN2 sep cur w = [cur @ w]"
proof (induction w arbitrary: cur)
  case (Cons c w)
  have "take (length sep) (c # w) \<noteq> sep"
    using Cons.prems by (metis in_set_takeD)
  with Cons show ?case by simp
qed simp

lemma splitN2_prefix: "sep \<noteq> [] \<Longrightarrow> strings_SplitN2 (sep @ w) sep = [[], w]"
  by (cases sep) (simp_all add: strings_SplitN2_def)

end
