(* ===== verification/Rest_Middleware.thy ===== *)
theory Rest_Middleware
  imports Incept Go_Strings
begin

text \<open>
  The HTTP side of the server: requests, responses and the server's state (the database and
  the notifications that were published), and the package \<^verbatim>\<open>rest/middleware\<close>: reading tokens
  from headers, the gates \<^verbatim>\<open>AuthUser\<close>, \<^verbatim>\<open>AuthWSUser\<close> and \<^verbatim>\<open>AuthAdmin\<close> around a handler
  (\<^verbatim>\<open>middleware/auth.go\<close>), and the values they put into a request's context
  (\<^verbatim>\<open>middleware/contexter.go\<close>).

  The text of an error response is not modelled, its status code is.  A handler that panics
  is cut off by the HTTP server; the response is then \<open>Panicked\<close>.  \<open>WsServed\<close> is the end of a
  web socket session, \<open>Exited\<close> the end of the process by \<^verbatim>\<open>log.Fatal\<close>.
\<close>

section \<open>Requests, responses, the server\<close>

record request =
  rq_AuthHeader :: string
  rq_RefreshHeader :: string
  rq_WSProtocolsHeader :: string
  rq_body :: "json option"
  rq_params :: "(string \<times> string) list"
  rq_query :: "(string \<times> string list) list option"
  rq_ctx :: "CtxField \<Rightarrow> bytes option"

datatype response =
    HttpError nat
  | OkBody json
  | OkEmpty
  | WsServed
  | Panicked
  | Exited

text \<open>A notification: the user whose topic it goes to, the name of the resource, its JSON.\<close>

type_synonym notification = "string \<times> string \<times> json"

record server =
  sv_db :: db
  sv_out :: "notification list"

type_synonym handler = "request \<Rightarrow> server \<Rightarrow> response \<times> server"

definition StatusBadRequest :: nat where "StatusBadRequest = 400"
definition StatusUnauthorized :: nat where "StatusUnauthorized = 401"
definition StatusNotFound :: nat where "StatusNotFound = 404"
definition StatusConflict :: nat where "StatusConflict = 409"
definition StatusInternalServerError :: nat where "StatusInternalServerError = 500"

lemmas status_defs = StatusBadRequest_def StatusUnauthorized_def StatusNotFound_def StatusConflict_def
  StatusInternalServerError_def

text \<open>A read-only and a writing transaction of the server.\<close>

definition sv_View :: "'a dbop \<Rightarrow> server \<Rightarrow> 'a go" where
  "sv_View f sv = fst (db_View f (sv_db sv))"

definition sv_Update :: "'a dbop \<Rightarrow> server \<Rightarrow> 'a go \<times> server" where
  "sv_Update f sv = (case db_Update f (sv_db sv) of (r, s') \<Rightarrow> (r, sv\<lparr>sv_db := s'\<rparr>))"

text \<open>\<^verbatim>\<open>notif.Encode(pub, val, MakeUserTopic(user))\<close>; no caller looks at the error of the send.\<close>

definition notif_Encode :: "string \<Rightarrow> json \<Rightarrow> string \<Rightarrow> server \<Rightarrow> server" where
  "notif_Encode resource contents user sv = sv\<lparr>sv_out := sv_out sv @ [(user, resource, contents)]\<rparr>"

definition notify_all :: "string \<Rightarrow> json \<Rightarrow> string list \<Rightarrow> server \<Rightarrow> server" where
  "notify_all resource contents us sv = fold (\<lambda>u. notif_Encode resource contents u) us sv"

text \<open>The caller and the keys of both member maps, as the handlers collect them for \<^verbatim>\<open>CheckUsersExist\<close>.\<close>

definition all_users :: "string \<Rightarrow> Group \<Rightarrow> string list" where
  "all_users u g = u # smap_keys (g_Readers g) @ smap_keys (g_Writers g)"

definition ByName :: "request \<Rightarrow> string \<Rightarrow> string" where
  "ByName r n = (case map_of (rq_params r) n of None \<Rightarrow> [] | Some v \<Rightarrow> v)"

text \<open>\<^verbatim>\<open>json.NewDecoder(r.Body).Decode(to)\<close>.\<close>

definition decode_body :: "(json \<Rightarrow> 'a \<Rightarrow> 'a option) \<Rightarrow> 'a \<Rightarrow> request \<Rightarrow> 'a option" where
  "decode_body dec to r = (case rq_body r of None \<Rightarrow> None | Some j \<Rightarrow> dec j to)"

section \<open>Context values\<close>

type_synonym Contexter = "request \<Rightarrow> Context \<Rightarrow> request"

definition mw_ByFields :: "CtxField list \<Rightarrow> Contexter" where
  "mw_ByFields fs r ctx =
     fold (\<lambda>f r. r\<lparr>rq_ctx := (rq_ctx r)(f \<mapsto> auth_ByField ctx f)\<rparr>) fs r"

definition mw_CtxSetUserID :: Contexter where
  "mw_CtxSetUserID r ctx = r\<lparr>rq_ctx := (rq_ctx r)(CtxUserID \<mapsto> ctx_UserID ctx)\<rparr>"

definition mw_CtxSetToken :: Contexter where
  "mw_CtxSetToken r ctx = r\<lparr>rq_ctx := (rq_ctx r)(CtxToken \<mapsto> ctx_Token ctx)\<rparr>"

definition mw_CtxSetRefreshToken :: Contexter where
  "mw_CtxSetRefreshToken r ctx = r\<lparr>rq_ctx := (rq_ctx r)(CtxRefreshToken \<mapsto> ctx_RefreshToken ctx)\<rparr>"

text \<open>The type assertion on a value that was never set panics.\<close>

definition go_assert :: "'a option \<Rightarrow> 'a go" where
  "go_assert x = (case x of None \<Rightarrow> Panic | Some a \<Rightarrow> Ret a)"

definition mw_CtxGetUserID :: "request \<Rightarrow> string go" where
  "mw_CtxGetUserID r = go_assert (rq_ctx r CtxUserID)"

definition mw_CtxGetToken :: "request \<Rightarrow> Token go" where
  "mw_CtxGetToken r = go_assert (rq_ctx r CtxToken)"

definition mw_CtxGetRefreshToken :: "request \<Rightarrow> Token go" where
  "mw_CtxGetRefreshToken r = go_assert (rq_ctx r CtxRefreshToken)"

section \<open>Tokens in headers\<close>

definition auth_Token_String :: "Token \<Rightarrow> string" where
  "auth_Token_String t = base64_Std_Encode t"

definition auth_DecodeToken :: "string \<Rightarrow> Token go" where
  "auth_DecodeToken tStr =
     (case base64_Std_Decode tStr of
        None \<Rightarrow> Fail (Wrapped ''invalid token'' (Errorf ''illegal base64 data''))
      | Some b \<Rightarrow> Ret b)"

definition mw_GetToken :: "TokenType \<Rightarrow> string \<Rightarrow> Token go" where
  "mw_GetToken kind from =
     (case strings_Fields from of
        [] \<Rightarrow> Fail (Errorf ''no token provided'')
      | [_] \<Rightarrow> Fail (Errorf ''no token provided'')
      | [k, t] \<Rightarrow> if k \<noteq> auth_TokenType_String kind then Fail (Errorf ''invalid token kind'') else auth_DecodeToken t
      | _ \<Rightarrow> Fail (Errorf ''too many token fields''))"

fun ws_token :: "string \<Rightarrow> string list \<Rightarrow> Token go" where
  "ws_token kind [] = Fail (Errorf ''no token found'')"
| "ws_token kind (pro # pros) =
     (if pro = [] then ws_token kind pros
      else (case strings_SplitN2 pro (kind @ ''+'') of
              [a, b] \<Rightarrow> if a \<noteq> [] then ws_token kind pros
                       else (case base64_RawURL_Decode b of
                               None \<Rightarrow> Fail (Errorf ''illegal base64 data'') | Some t \<Rightarrow> Ret t)
            | _ \<Rightarrow> ws_token kind pros))"

definition mw_GetWSToken :: "string \<Rightarrow> TokenType \<Rightarrow> Token go" where
  "mw_GetWSToken protocols kind = ws_token (auth_TokenType_String kind) (strings_Split protocols (CHR '',''))"

section \<open>Gates\<close>

text \<open>The three readings of the clock: the first check, the refresh, the check after it.\<close>

record clock =
  clk_check :: gtime
  clk_refresh :: gtime
  clk_recheck :: gtime

definition time_Add :: "gtime \<Rightarrow> int64 \<Rightarrow> gtime" where
  "time_Add t d = t\<lparr>t_ns := t_ns t + sint d\<rparr>"

text \<open>Load the session's context when contexts were asked for, and call the handler.\<close>

definition mw_with_context :: "handler \<Rightarrow> Contexter list \<Rightarrow> Token \<Rightarrow> handler" where
  "mw_with_context h ctrs token r sv =
     (if ctrs = [] then h r sv
      else (case sv_View (auth_GetContext zero_Context token) sv of
              Ret ctx \<Rightarrow> h (fold (\<lambda>ctr r. ctr r ctx) ctrs r) sv
            | Fail _ \<Rightarrow> (HttpError StatusInternalServerError, sv)
            | Panic \<Rightarrow> (Panicked, sv)))"

text \<open>The refresh of an expired session, and the second check.\<close>

definition mw_refresh :: "handler \<Rightarrow> Contexter list \<Rightarrow> clock \<Rightarrow> Token \<Rightarrow> Token go \<Rightarrow> handler" where
  "mw_refresh h ctrs clk token getRefresh r sv =
     (case getRefresh of
        Fail _ \<Rightarrow> (HttpError StatusUnauthorized, sv)
      | Panic \<Rightarrow> (Panicked, sv)
      | Ret rToken \<Rightarrow>
          (case sv_View (auth_CheckRefresh rToken) sv of
             Fail e \<Rightarrow> (HttpError (if store_IsMissing e then StatusUnauthorized else StatusInternalServerError), sv)
           | Panic \<Rightarrow> (Panicked, sv)
           | Ret _ \<Rightarrow>
               (case sv_Update (auth_RefreshIfValid
                        (zero_Session\<lparr>sess_Token := token, sess_RefreshToken := rToken\<rparr>)
                        (time_Add (clk_refresh clk) auth_Expiration) auth_Expiration) sv of
                  (Fail e, sv1) \<Rightarrow>
                    (HttpError (if auth_IsMissingSession e then StatusUnauthorized else StatusInternalServerError), sv1)
                | (Panic, sv1) \<Rightarrow> (Panicked, sv1)
                | (Ret _, sv1) \<Rightarrow>
                    (case sv_View (auth_CheckToken (clk_recheck clk) token) sv1 of
                       Fail e \<Rightarrow>
                         (HttpError (if auth_IsMissingSession e then StatusUnauthorized else StatusInternalServerError), sv1)
                     | Panic \<Rightarrow> (Panicked, sv1)
                     | Ret _ \<Rightarrow> mw_with_context h ctrs token r sv1))))"

text \<open>What \<^verbatim>\<open>AuthUser\<close> and \<^verbatim>\<open>AuthWSUser\<close> do once they know how to read their two tokens.\<close>

definition mw_session_gate :: "Token go \<Rightarrow> Token go \<Rightarrow> handler \<Rightarrow> Contexter list \<Rightarrow> clock \<Rightarrow> handler" where
  "mw_session_gate getToken getRefresh h ctrs clk r sv =
     (case getToken of
        Fail _ \<Rightarrow> (HttpError StatusBadRequest, sv)
      | Panic \<Rightarrow> (Panicked, sv)
      | Ret token \<Rightarrow>
          (case sv_View (auth_CheckToken (clk_check clk) token) sv of
             Ret _ \<Rightarrow> mw_with_context h ctrs token r sv
           | Panic \<Rightarrow> (Panicked, sv)
           | Fail e \<Rightarrow>
               if auth_IsMissingSession e then (HttpError StatusUnauthorized, sv)
               else if auth_IsTokenExpired e then mw_refresh h ctrs clk token getRefresh r sv
               else (HttpError StatusInternalServerError, sv)))"

definition mw_AuthUser :: "handler \<Rightarrow> Contexter list \<Rightarrow> clock \<Rightarrow> handler" where
  "mw_AuthUser h ctrs clk r sv =
     mw_session_gate (mw_GetToken BearerType (rq_AuthHeader r)) (mw_GetToken RefreshType (rq_RefreshHeader r))
       h ctrs clk r sv"

definition mw_AuthWSUser :: "handler \<Rightarrow> Contexter list \<Rightarrow> clock \<Rightarrow> handler" where
  "mw_AuthWSUser h ctrs clk r sv =
     mw_session_gate (mw_GetWSToken (rq_WSProtocolsHeader r) BearerType)
       (mw_GetWSToken (rq_WSProtocolsHeader r) RefreshType) h ctrs clk r sv"

definition mw_AuthAdmin :: "handler \<Rightarrow> handler" where
  "mw_AuthAdmin h r sv =
     (case mw_GetToken AdminType (rq_AuthHeader r) of
        Fail _ \<Rightarrow> (HttpError StatusBadRequest, sv)
      | Panic \<Rightarrow> (Panicked, sv)
      | Ret token \<Rightarrow>
          (case sv_View (admin_CheckToken token) sv of
             Fail e \<Rightarrow> (HttpError (if admin_IsNotFound e then StatusUnauthorized else StatusInternalServerError), sv)
           | Panic \<Rightarrow> (Panicked, sv)
           | Ret _ \<Rightarrow> h r sv))"

section \<open>Lemmas\<close>

lemma DecodeToken_String: "auth_DecodeToken (auth_Token_String t) = Ret t"
  by (simp add: auth_DecodeToken_def auth_Token_String_def base64_Std_roundtrip)

text \<open>The header that a client sends for a token.\<close>

definition token_header :: "TokenType \<Rightarrow> Token \<Rightarrow> string" where
  "token_header kind t = auth_TokenType_String kind @ CHR '' '' # auth_Token_String t"

lemma token_kinds:
  "auth_TokenType_String BearerType = ''Bearer''" "auth_TokenType_String RefreshType = ''Refresh''"
  "auth_TokenType_String AdminType = ''Admin''"
  by (simp_all add: auth_TokenType_String_def auth_tokenNames_def BearerType_def RefreshType_def AdminType_def)

lemma GetToken_header:
  assumes "kind \<in> {BearerType, RefreshType, AdminType}" and "t \<noteq> []"
  shows "mw_GetToken kind (token_header kind t) = Ret t"
proof -
  have "list_all plain_char (auth_TokenType_String kind)" "auth_TokenType_String kind \<noteq> []"
    using assms(1) by (auto simp: token_kinds plain_char_def)
  moreover have "list_all plain_char (auth_Token_String t)" "auth_Token_String t \<noteq> []"
    using assms(2) by (simp_all add: auth_Token_String_def base64_Std_Encode_def std.encode_plain std.encode_Nil_iff)
  ultimately show ?thesis
    by (simp add: mw_GetToken_def token_header_def Fields_two DecodeToken_String)
qed

lemma sv_View_eq: "sv_View f sv = fst (f (sv_db sv))"
  by (simp add: sv_View_def db_View_def)

lemma sv_Update_Ret: "f (sv_db sv) = (Ret a, s') \<Longrightarrow> sv_Update f sv = (Ret a, sv\<lparr>sv_db := s'\<rparr>)"
  by (simp add: sv_Update_def db_Update_def)

lemma sv_Update_Fail: "f (sv_db sv) = (Fail e, s') \<Longrightarrow> sv_Update f sv = (Fail e, sv)"
  by (simp add: sv_Update_def db_Update_def)

lemma sv_Update_Panic: "f (sv_db sv) = (Panic, s') \<Longrightarrow> sv_Update f sv = (Panic, sv)"
  by (simp add: sv_Update_def db_Update_def)

lemmas sv_simps = sv_View_eq sv_Update_Ret sv_Update_Fail sv_Update_Panic

text \<open>The subprotocol that a client sends for a token, and the tokens read back from two of them.\<close>

definition ws_protocol :: "TokenType \<Rightarrow> Token \<Rightarrow> string" where
  "ws_protocol kind t = auth_TokenType_String kind @ CHR ''+'' # base64_RawURL_Encode t"

lemma ws_token_here:
  "kind \<noteq> [] \<Longrightarrow> ws_token kind ((kind @ CHR ''+'' # base64_RawURL_Encode t) # pros) = Ret t"
  using splitN2_prefix [of "kind @ ''+''" "base64_RawURL_Encode t"] by (simp add: base64_RawURL_roundtrip)

lemma ws_token_skip:
  "ws_token ''Refresh'' ((''Bearer'' @ CHR ''+'' # base64_RawURL_Encode t) # pros) = ws_token ''Refresh'' pros"
  using splitN2_none [of "CHR ''+''" "''Refresh+''" "base64_RawURL_Encode t" "''Bearer+''"] RawURL_chars [of "CHR ''+''" t]
  by (simp add: strings_SplitN2_def)

section \<open>Properties\<close>

definition no_request :: request where
  "no_request = \<lparr>rq_AuthHeader = [], rq_RefreshHeader = [], rq_WSProtocolsHeader = [], rq_body = None,
                 rq_params = [], rq_query = Some [], rq_ctx = (\<lambda>_. None)\<rparr>"

text \<open>
  A token that the server handed out and the client sends back is read
  unchanged: in an \<^verbatim>\<open>Authorization\<close> or \<^verbatim>\<open>X-Auth-Refresh\<close> header as standard base64, and in the
  list of websocket subprotocols as unpadded URL base64, the bearer token and the refresh
  token side by side.
\<close>

theorem token_headers:
  assumes "t \<noteq> []"
  shows "mw_GetToken BearerType (token_header BearerType t) = Ret t \<and>
    mw_GetToken RefreshType (token_header RefreshType t) = Ret t \<and>
    mw_GetToken AdminType (token_header AdminType t) = Ret t \<and>
    mw_GetWSToken (ws_protocol BearerType t @ CHR '','' # ws_protocol RefreshType u) BearerType = Ret t \<and>
    mw_GetWSToken (ws_protocol BearerType t @ CHR '','' # ws_protocol RefreshType u) RefreshType = Ret u"
proof -
  have "strings_Split (ws_protocol BearerType t @ CHR '','' # ws_protocol RefreshType u) (CHR '','')
      = [ws_protocol BearerType t, ws_protocol RefreshType u]"
    using RawURL_chars [of "CHR '',''"] by (intro Split_two) (simp_all add: ws_protocol_def token_kinds)
  then show ?thesis
    using ws_token_here [of "''Bearer''" t] ws_token_here [of "''Refresh''" u] ws_token_skip [of t]
    by (simp add: mw_GetWSToken_def GetToken_header assms ws_protocol_def token_kinds del: ws_token.simps)
qed

theorem token_headers_witness: "mw_GetToken BearerType (token_header BearerType ''tok'') = Ret ''tok''"
  using token_headers [of "''tok''" "''ref''"] by simp

text \<open>
  A request that carries the bearer token of a stored session that has
  not expired reaches the handler, with the user of the session's context as its user, and the
  server is not changed on the way.
\<close>

theorem AuthUser_accepts:
  assumes "auth_tables (sv_db sv)" and "token \<noteq> []" and "rq_AuthHeader r = token_header BearerType token"
    and "table (sv_db sv) SessionBucket token = Some (Doc (enc_Session x))"
    and "t_ns (clk_check clk) \<le> t_ns (sess_Expiration x)"
    and "table (sv_db sv) ContextBucket token = Some (Doc (enc_Context c))"
  shows "mw_AuthUser h [mw_CtxSetUserID] clk r sv = h (mw_CtxSetUserID r c) sv \<and>
    mw_CtxGetUserID (mw_CtxSetUserID r c) = Ret (ctx_UserID c)"
  using assms
  by (simp add: mw_AuthUser_def mw_session_gate_def GetToken_header sv_simps auth_CheckToken_eq auth_tables_def
      mw_with_context_def auth_GetContext_eq mw_CtxGetUserID_def mw_CtxSetUserID_def go_assert_def)

definition demo_live_db :: db where
  "demo_live_db =
     snd (auth_NewSession zero_Session \<lparr>t_ns = 100, t_zone = ZUTC\<rparr> 100 ''tok'' ''ref'' ''ann'' demo_auth)"

definition demo_live_session :: Session where
  "demo_live_session = fill_session zero_Session \<lparr>t_ns = 100, t_zone = ZUTC\<rparr> 100 ''tok'' ''ref''"

lemma demo_live_facts:
  "auth_tables demo_live_db"
  "table demo_live_db SessionBucket ''tok'' = Some (Doc (enc_Session demo_live_session))"
  "table demo_live_db ContextBucket ''tok'' = Some (Doc (enc_Context demo_context))"
  "table demo_live_db RefreshBucket ''ref'' = Some (Raw [])"
  "table demo_live_db SessionBucket ''zzz'' = None" "table demo_live_db RefreshBucket ''forged'' = None"
  by (simp_all add: demo_live_db_def auth_NewSession_eq demo_live_session_def demo_context_def auth_tables_def
      demo_auth_def)

definition demo_sv :: server where
  "demo_sv = \<lparr>sv_db = demo_live_db, sv_out = []\<rparr>"

definition demo_clock :: "int \<Rightarrow> clock" where
  "demo_clock n = \<lparr>clk_check = \<lparr>t_ns = n, t_zone = ZUTC\<rparr>, clk_refresh = \<lparr>t_ns = n, t_zone = ZUTC\<rparr>,
                   clk_recheck = \<lparr>t_ns = n, t_zone = ZUTC\<rparr>\<rparr>"

definition demo_request :: request where
  "demo_request = no_request\<lparr>rq_AuthHeader := token_header BearerType ''tok'',
                             rq_RefreshHeader := token_header RefreshType ''ref''\<rparr>"

theorem AuthUser_accepts_witness:
  "mw_AuthUser (\<lambda>r sv. (OkBody (JStr (the (rq_ctx r CtxUserID))), sv)) [mw_CtxSetUserID] (demo_clock 99) demo_request demo_sv
     = (OkBody (JStr ''ann''), demo_sv)"
  using AuthUser_accepts [of demo_sv "''tok''" demo_request demo_live_session "demo_clock 99" demo_context
      "\<lambda>r sv. (OkBody (JStr (the (rq_ctx r CtxUserID))), sv)"] demo_live_facts
  by (simp add: demo_sv_def demo_request_def demo_clock_def demo_live_session_def mw_CtxSetUserID_def demo_context_def)

text \<open>
  C23 (AuthUser_rejects).  Without a well-formed bearer token the answer is 400, with a token of
  no stored session it is 401, and so it is with the token of an expired session when the request
  has no well-formed refresh token or one that is not stored; in all these cases the handler is not
  called, whatever it is, and the server is not changed.
\<close>

theorem AuthUser_rejects:
  assumes "auth_tables (sv_db sv)"
  shows "((\<exists>e. mw_GetToken BearerType (rq_AuthHeader r) = Fail e) \<longrightarrow>
       mw_AuthUser h ctrs clk r sv = (HttpError StatusBadRequest, sv)) \<and>
    (\<forall>t. mw_GetToken BearerType (rq_AuthHeader r) = Ret t \<and> table (sv_db sv) SessionBucket t = None \<longrightarrow>
       mw_AuthUser h ctrs clk r sv = (HttpError StatusUnauthorized, sv)) \<and>
    (\<forall>t x. mw_GetToken BearerType (rq_AuthHeader r) = Ret t \<and>
       table (sv_db sv) SessionBucket t = Some (Doc (enc_Session x)) \<and> t_ns (sess_Expiration x) < t_ns (clk_check clk) \<and>
       (case mw_GetToken RefreshType (rq_RefreshHeader r) of
          Ret q \<Rightarrow> table (sv_db sv) RefreshBucket q = None | Fail _ \<Rightarrow> True | Panic \<Rightarrow> False) \<longrightarrow>
       mw_AuthUser h ctrs clk r sv = (HttpError StatusUnauthorized, sv))"
proof -
  have t: "has_tbl SessionBucket (sv_db sv)" "has_tbl RefreshBucket (sv_db sv)" using assms by (simp_all add: auth_tables_def)
  have "mw_AuthUser h ctrs clk r sv = (HttpError StatusUnauthorized, sv)"
    if "mw_GetToken BearerType (rq_AuthHeader r) = Ret k" "table (sv_db sv) SessionBucket k = Some (Doc (enc_Session x))"
      "t_ns (sess_Expiration x) < t_ns (clk_check clk)"
      "case mw_GetToken RefreshType (rq_RefreshHeader r) of
         Ret q \<Rightarrow> table (sv_db sv) RefreshBucket q = None | Fail _ \<Rightarrow> True | Panic \<Rightarrow> False" for k x
    using that t
    by (simp add: mw_AuthUser_def mw_session_gate_def mw_refresh_def sv_View_eq auth_CheckToken_eq auth_CheckRefresh_def
        store_CheckExists_eq split: go.splits)
  then show ?thesis
    using t by (auto simp: mw_AuthUser_def mw_session_gate_def sv_simps auth_CheckToken_eq)
qed

theorem AuthUser_rejects_witness:
  "mw_AuthUser (\<lambda>r sv. (OkEmpty, sv)) [] (demo_clock 0) (no_request\<lparr>rq_AuthHeader := token_header BearerType ''zzz''\<rparr>) demo_sv
     = (HttpError StatusUnauthorized, demo_sv) \<and>
   mw_AuthUser (\<lambda>r sv. (OkEmpty, sv)) [] (demo_clock 0) no_request demo_sv = (HttpError StatusBadRequest, demo_sv) \<and>
   mw_AuthUser (\<lambda>r sv. (OkEmpty, sv)) [] (demo_clock 101)
     (demo_request\<lparr>rq_RefreshHeader := token_header RefreshType ''forged''\<rparr>) demo_sv = (HttpError StatusUnauthorized, demo_sv)"
proof -
  have tables: "auth_tables (sv_db demo_sv)" using demo_live_facts by (simp add: demo_sv_def)
  let ?h = "\<lambda>r sv. (OkEmpty, sv)" and ?forged = "demo_request\<lparr>rq_RefreshHeader := token_header RefreshType ''forged''\<rparr>"
  have "mw_AuthUser ?h [] (demo_clock 101) ?forged demo_sv = (HttpError StatusUnauthorized, demo_sv)"
    using AuthUser_rejects [OF tables, of ?forged ?h "[]" "demo_clock 101", THEN conjunct2, THEN conjunct2,
        rule_format, of "''tok''" demo_live_session] demo_live_facts
    by (simp add: demo_sv_def demo_request_def GetToken_header demo_clock_def) (simp add: demo_live_session_def fill_session_def)
  then show ?thesis
    using AuthUser_rejects [of demo_sv "no_request\<lparr>rq_AuthHeader := token_header BearerType ''zzz''\<rparr>" ?h "[]" "demo_clock 0"]
      AuthUser_rejects [of demo_sv no_request ?h "[]" "demo_clock 0"] demo_live_facts
    by (simp add: demo_sv_def GetToken_header no_request_def mw_GetToken_def [of _ "[]"] strings_Fields_def)
qed

text \<open>
  C38 (AuthUser_foreign_refresh).  A request with the token of an expired session and any
  refresh token that is stored, whoever it was issued to, reaches the handler as the user of
  the expired session, and the session is valid again.
\<close>

theorem AuthUser_foreign_refresh:
  assumes "auth_tables (sv_db sv)" and "valid_key token" and "rq_AuthHeader r = token_header BearerType token"
    and "refresh \<noteq> []" and "rq_RefreshHeader r = token_header RefreshType refresh"
    and "table (sv_db sv) SessionBucket token = Some (Doc (enc_Session x))"
    and "t_ns (sess_Expiration x) < t_ns (clk_check clk)"
    and "table (sv_db sv) ContextBucket token = Some (Doc (enc_Context c))"
    and "table (sv_db sv) RefreshBucket refresh \<noteq> None"
    and "t_ns (clk_recheck clk) \<le> t_ns (clk_refresh clk) + sint auth_Expiration"
  shows "\<exists>sv1. mw_AuthUser h [mw_CtxSetUserID] clk r sv = h (mw_CtxSetUserID r c) sv1 \<and>
    fst (auth_CheckToken (clk_recheck clk) token (sv_db sv1)) = Ret () \<and> sv_out sv1 = sv_out sv"
proof -
  define x' where "x' = zero_Session\<lparr>sess_Token := token, sess_RefreshToken := refresh,
     sess_Expiration := time_Add (clk_refresh clk) auth_Expiration, sess_ExpiresIn := auth_Expiration\<rparr>"
  define s1 where "s1 = db_put SessionBucket token (Doc (enc_Session x')) (sv_db sv)"
  have tok: "token \<noteq> []" using assms(2) by (auto simp: valid_key_def)
  have t: "has_tbl SessionBucket (sv_db sv)" "has_tbl RefreshBucket (sv_db sv)" "has_tbl ContextBucket (sv_db sv)"
    using assms(1) by (simp_all add: auth_tables_def)
  have upd: "auth_RefreshIfValid (zero_Session\<lparr>sess_Token := token, sess_RefreshToken := refresh\<rparr>)
      (time_Add (clk_refresh clk) auth_Expiration) auth_Expiration (sv_db sv) = (Ret x', s1)"
    using assms(1,2,9) by (simp add: auth_RefreshIfValid_eq Let_def x'_def s1_def)
  have upd2: "sv_Update (auth_RefreshIfValid (zero_Session\<lparr>sess_Token := token, sess_RefreshToken := refresh\<rparr>)
      (time_Add (clk_refresh clk) auth_Expiration) auth_Expiration) sv = (Ret x', sv\<lparr>sv_db := s1\<rparr>)"
    by (simp add: sv_Update_def db_Update_def upd)
  have re: "fst (auth_CheckToken (clk_recheck clk) token s1) = Ret ()"
    using t assms(10) by (simp add: s1_def auth_CheckToken_eq x'_def time_Add_def)
  have "mw_AuthUser h [mw_CtxSetUserID] clk r sv = h (mw_CtxSetUserID r c) (sv\<lparr>sv_db := s1\<rparr>)"
    using assms t tok re upd2
    by (auto simp: mw_AuthUser_def mw_session_gate_def mw_refresh_def GetToken_header sv_View_eq
        auth_CheckToken_eq [of "sv_db sv"] auth_CheckRefresh_def store_CheckExists_eq mw_with_context_def
        auth_GetContext_eq s1_def)
  with re show ?thesis by (intro exI [of _ "sv\<lparr>sv_db := s1\<rparr>"]) simp
qed

theorem AuthUser_foreign_refresh_witness:
  "\<exists>sv1. mw_AuthUser (\<lambda>r sv. (OkBody (JStr (the (rq_ctx r CtxUserID))), sv)) [mw_CtxSetUserID]
      (demo_clock 200) demo_request demo_sv = (OkBody (JStr ''ann''), sv1)"
proof -
  have "0 \<le> sint auth_Expiration" by (simp add: auth_Expiration_def minute_ns_def)
  then show ?thesis
    using AuthUser_foreign_refresh [of demo_sv "''tok''" demo_request "''ref''" demo_live_session "demo_clock 200" demo_context
      "\<lambda>r sv. (OkBody (JStr (the (rq_ctx r CtxUserID))), sv)"] demo_live_facts
    by (auto simp: demo_sv_def demo_request_def demo_clock_def demo_live_session_def mw_CtxSetUserID_def
        demo_context_def)
qed

text \<open>
  Behind \<^verbatim>\<open>AuthAdmin\<close> the handler is reached exactly by requests whose
  token hashes, with the stored salt, to the stored admin token; every other request is
  answered 400 or 401, whatever the handler, and changes nothing.
\<close>

theorem AuthAdmin_gate:
  assumes "has_tbl AdminBucket (sv_db sv)"
    and "table (sv_db sv) AdminBucket ''salt'' = Some (Raw salt)"
    and "table (sv_db sv) AdminBucket ''token'' = Some (Raw tok)"
  shows "mw_AuthAdmin h r sv =
    (if \<exists>t. mw_GetToken AdminType (rq_AuthHeader r) = Ret t \<and> sha256_Sum256 (t @ salt) = tok then h r sv
     else if \<exists>t. mw_GetToken AdminType (rq_AuthHeader r) = Ret t then (HttpError StatusUnauthorized, sv)
     else (HttpError StatusBadRequest, sv))"
proof -
  have chk: "admin_CheckToken t (sv_db sv) =
      (if tok = sha256_Sum256 (t @ salt) then Ret () else Fail (admin_ErrNotFound t), sv_db sv)" for t
    using admin_CheckToken_eq [of "sv_db sv" "Some salt" "Some tok" t] assms by simp
  have "mw_GetToken AdminType (rq_AuthHeader r) \<noteq> Panic"
    by (auto simp: mw_GetToken_def auth_DecodeToken_def split: list.splits option.splits)
  then show ?thesis
    by (cases "mw_GetToken AdminType (rq_AuthHeader r)")
      (auto simp: mw_AuthAdmin_def sv_View_eq chk)
qed

theorem AuthAdmin_gate_witness:
  "mw_AuthAdmin (\<lambda>r sv. (OkEmpty, sv)) (no_request\<lparr>rq_AuthHeader := token_header AdminType ''key''\<rparr>)
     \<lparr>sv_db = snd (admin_NewToken nil_uuid ''key'' (db_of [AdminBucket])), sv_out = []\<rparr> =
   (OkEmpty,
     \<lparr>sv_db = snd (admin_NewToken nil_uuid ''key'' (db_of [AdminBucket])), sv_out = []\<rparr>)"
proof -
  have keys: "valid_key ''token''" "valid_key ''salt''" by (simp_all add: valid_key_def MaxKeySize_def)
  define s where "s = snd (admin_NewToken nil_uuid ''key'' (db_of [AdminBucket]))"
  have "has_tbl AdminBucket s" "table s AdminBucket ''salt'' = Some (Raw nil_uuid)"
    "table s AdminBucket ''token'' = Some (Raw (sha256_Sum256 (''key'' @ nil_uuid)))"
    using keys by (simp_all add: s_def admin_NewToken_def Let_def)
  then show ?thesis
    using AuthAdmin_gate [of "\<lparr>sv_db = s, sv_out = []\<rparr>" nil_uuid "sha256_Sum256 (''key'' @ nil_uuid)" "\<lambda>r sv. (OkEmpty, sv)"
        "no_request\<lparr>rq_AuthHeader := token_header AdminType ''key''\<rparr>"]
    by (simp add: GetToken_header s_def)
qed

end
