(* ===== verification/Go_Binary.thy ===== *)
theory Go_Binary
  imports Go_Sha256 Go_Strings
begin

text \<open>
  Numbers as bytes and as decimal text: \<^verbatim>\<open>binary.LittleEndian\<close>, \<^verbatim>\<open>binary.BigEndian\<close>,
  \<^verbatim>\<open>strconv.FormatUint\<close>, \<^verbatim>\<open>strconv.ParseUint\<close> and \<^verbatim>\<open>store.Itob\<close>, and the BLAKE2b hash
  that \<^verbatim>\<open>notif\<close> uses for its topics.  The lemmas are the round trips that the rivers rely on.
\<close>

section \<open>Fixed-width bytes\<close>

definition LittleEndian_PutUint64 :: "uint64 \<Rightarrow> bytes" where
  "LittleEndian_PutUint64 w = map (byte_at (unat w)) [0..<8]"

text \<open>\<^verbatim>\<open>Uint64\<close> reads the first eight bytes and panics when there are fewer.\<close>

definition LittleEndian_Uint64 :: "bytes \<Rightarrow> uint64 go" where
  "LittleEndian_Uint64 bs =
     (if length bs < 8 then Panic else Ret (word_of_nat (be_value (rev (take 8 bs)))))"

definition store_Itob :: "int64 \<Rightarrow> bytes" where
  "store_Itob v = be_bytes 8 (unat v)"

section \<open>Decimal text\<close>

fun nat_digits :: "nat \<Rightarrow> string" where
  "nat_digits n = (if n < 10 then [char_of (48 + n)] else nat_digits (n div 10) @ [char_of (48 + n mod 10)])"

declare nat_digits.simps [simp del]

definition strconv_FormatUint :: "uint64 \<Rightarrow> string" where
  "strconv_FormatUint w = nat_digits (unat w)"

definition strconv_ParseUint :: "string \<Rightarrow> uint64 go" where
  "strconv_ParseUint s =
     (if s = [] \<or> \<not> list_all is_digit s then Fail (Errorf ''strconv: invalid syntax'')
      else if digits_value s < 2 ^ 64 then Ret (word_of_int (digits_value s))
      else Fail (Errorf ''strconv: value out of range''))"

section \<open>BLAKE2b\<close>

definition blake2b_IV :: "64 word list" where
  "blake2b_IV =
     [0x6a09e667f3bcc908, 0xbb67ae8584caa73b, 0x3c6ef372fe94f82b, 0xa54ff53a5f1d36f1,
      0x510e527fade682d1, 0x9b05688c2b3e6c1f, 0x1f83d9abfb41bd6b, 0x5be0cd19137e2179]"

definition blake2b_sigma :: "nat list list" where
  "blake2b_sigma =
     [[0, 1, 2, 3, 4, 5, 6, 7, 8, 9, 10, 11, 12, 13, 14, 15],
      [14, 10, 4, 8, 9, 15, 13, 6, 1, 12, 0, 2, 11, 7, 5, 3],
      [11, 8, 12, 0, 5, 2, 15, 13, 10, 14, 3, 6, 7, 1, 9, 4],
      [7, 9, 3, 1, 13, 12, 11, 14, 2, 6, 5, 10, 4, 0, 15, 8],
      [9, 0, 5, 7, 2, 4, 10, 15, 14, 1, 11, 12, 6, 8, 3, 13],
      [2, 12, 6, 10, 0, 11, 8, 3, 4, 13, 7, 5, 15, 14, 1, 9],
      [12, 5, 1, 15, 14, 13, 4, 10, 0, 7, 6, 3, 9, 2, 8, 11],
      [13, 11, 7, 14, 12, 1, 3, 9, 5, 0, 15, 4, 8, 6, 2, 10],
      [6, 15, 14, 9, 11, 3, 0, 8, 12, 2, 13, 7, 1, 4, 10, 5],
      [10, 2, 8, 4, 7, 6, 1, 5, 15, 11, 9, 14, 3, 12, 13, 0]]"

definition rotr64 :: "nat \<Rightarrow> 64 word \<Rightarrow> 64 word" where
  "rotr64 i w = drop_bit i w OR push_bit (64 - i) w"

definition blake2b_G :: "nat \<Rightarrow> nat \<Rightarrow> nat \<Rightarrow> nat \<Rightarrow> 64 word \<Rightarrow> 64 word \<Rightarrow> 64 word list \<Rightarrow> 64 word list" where
  "blake2b_G ia ib ic id' x y v =
     (let a = v ! ia + v ! ib + x;
          d = rotr64 32 (v ! id' XOR a);
          c = v ! ic + d;
          b = rotr64 24 (v ! ib XOR c);
          a2 = a + b + y;
          d2 = rotr64 16 (d XOR a2);
          c2 = c + d2;
          b2 = rotr64 63 (b XOR c2)
      in v[ia := a2, ib := b2, ic := c2, id' := d2])"

definition blake2b_round :: "64 word list \<Rightarrow> nat list \<Rightarrow> 64 word list \<Rightarrow> 64 word list" where
  "blake2b_round m s v =
     (let v1 = blake2b_G 0 4 8 12 (m ! (s ! 0)) (m ! (s ! 1)) v;
          v2 = blake2b_G 1 5 9 13 (m ! (s ! 2)) (m ! (s ! 3)) v1;
          v3 = blake2b_G 2 6 10 14 (m ! (s ! 4)) (m ! (s ! 5)) v2;
          v4 = blake2b_G 3 7 11 15 (m ! (s ! 6)) (m ! (s ! 7)) v3;
          v5 = blake2b_G 0 5 10 15 (m ! (s ! 8)) (m ! (s ! 9)) v4;
          v6 = blake2b_G 1 6 11 12 (m ! (s ! 10)) (m ! (s ! 11)) v5;
          v7 = blake2b_G 2 7 8 13 (m ! (s ! 12)) (m ! (s ! 13)) v6
      in blake2b_G 3 4 9 14 (m ! (s ! 14)) (m ! (s ! 15)) v7)"

definition blake2b_compress :: "bytes \<Rightarrow> nat \<Rightarrow> bool \<Rightarrow> 64 word list \<Rightarrow> 64 word list" where
  "blake2b_compress blk t fin h =
     (let m = map (\<lambda>c. word_of_nat (be_value (rev c))) (chunks_of 8 blk);
          iv = blake2b_IV;
          v = h @ iv[4 := iv ! 4 XOR word_of_nat t, 5 := iv ! 5 XOR word_of_nat (t div 2 ^ 64),
                     6 := (if fin then NOT (iv ! 6) else iv ! 6)];
          w = fold (blake2b_round m) (blake2b_sigma @ take 2 blake2b_sigma) v
      in map (\<lambda>i. h ! i XOR w ! i XOR w ! (i + 8)) [0..<8])"

text \<open>All blocks but the last are full; the last one, of up to 128 bytes, is padded with zeros.\<close>

function (sequential) blake2b_blocks :: "bytes \<Rightarrow> nat \<Rightarrow> 64 word list \<Rightarrow> 64 word list" where
  "blake2b_blocks bs t h =
     (if length bs > 128 then blake2b_blocks (drop 128 bs) (t + 128) (blake2b_compress (take 128 bs) (t + 128) False h)
      else blake2b_compress (bs @ replicate (128 - length bs) CHR 0x00) (t + length bs) True h)"
  by pat_completeness auto
termination
  by (relation "measure (\<lambda>(bs, t, h). length bs)") auto

declare blake2b_blocks.simps [simp del]

definition blake2b_Sum512 :: "bytes \<Rightarrow> bytes" where
  "blake2b_Sum512 bs =
     concat (map LittleEndian_PutUint64
       (blake2b_blocks bs 0 (blake2b_IV[0 := blake2b_IV ! 0 XOR 0x01010040])))"

section \<open>Lemmas\<close>

lemma byte_value: "of_char (byte_at n i) = (n div 256 ^ i) mod (256 :: nat)"
  by (simp add: byte_at_def)

lemma be_value_snoc: "be_value (bs @ [c]) = be_value bs * 256 + of_char c"
  by (simp add: be_value_def)

lemma be_value_le: "be_value (rev (map (byte_at n) [0..<k])) = n mod 256 ^ k"
proof (induction k arbitrary: n)
  case (Suc k)
  have shift: "byte_at n (Suc i) = byte_at (n div 256) i" for i
    by (simp add: byte_at_def div_mult2_eq)
  have "map (byte_at n) [0..<Suc k] = byte_at n 0 # map (byte_at (n div 256)) [0..<k]"
    by (simp add: upt_conv_Cons shift map_Suc_upt [symmetric] del: upt_Suc)
  then have "be_value (rev (map (byte_at n) [0..<Suc k])) = (n div 256 mod 256 ^ k) * 256 + n mod 256"
    by (simp only: rev.simps be_value_snoc Suc.IH byte_value) simp
  also have "\<dots> = n mod 256 ^ Suc k"
    by (simp add: mod_mult2_eq)
  finally show ?case .
qed (simp add: be_value_def)

lemma length_LE [simp]: "length (LittleEndian_PutUint64 w) = 8"
  by (simp add: LittleEndian_PutUint64_def)

lemma LE_roundtrip [simp]: "LittleEndian_Uint64 (LittleEndian_PutUint64 w @ rest) = Ret w"
proof -
  have "unat w < 256 ^ 8" using unsigned_less [of w, where 'a = nat] by simp
  then have "be_value (rev (LittleEndian_PutUint64 w)) = unat w"
    unfolding LittleEndian_PutUint64_def be_value_le by simp
  then show ?thesis by (simp add: LittleEndian_Uint64_def)
qed

lemma LE_inj [simp]: "LittleEndian_PutUint64 v = LittleEndian_PutUint64 w \<longleftrightarrow> v = w"
  by (metis LE_roundtrip go.inject(1))

lemma digits_value_snoc: "digits_value (s @ [c]) = digits_value s * 10 + (of_char c - 48)"
  by (simp add: digits_value_def)

lemma nat_digits_props: "nat_digits n \<noteq> [] \<and> list_all is_digit (nat_digits n) \<and> digits_value (nat_digits n) = int n"
proof (induction n rule: nat_digits.induct)
  case (1 n)
  have digit: "is_digit (char_of (48 + m))" "(of_char (char_of (48 + m)) :: int) = 48 + int m" if "m < 10" for m :: nat
  proof -
    have "(of_char (char_of (48 + m)) :: nat) = 48 + m" using that by simp
    then show "is_digit (char_of (48 + m))" "(of_char (char_of (48 + m)) :: int) = 48 + int m"
      using that by (simp_all add: is_digit_def flip: of_nat_of_char [of "char_of (48 + m)"])
  qed
  show ?case
  proof (cases "n < 10")
    case True
    with digit [of n] show ?thesis by (simp add: nat_digits.simps [of n] digits_value_def)
  next
    case False
    moreover have "int (n div 10) * 10 + int (n mod 10) = int n" by presburger
    ultimately show ?thesis using 1 digit [of "n mod 10"]
      by (simp add: nat_digits.simps [of n] digits_value_snoc)
  qed
qed

lemma FormatUint_not_Nil [simp]: "strconv_FormatUint w \<noteq> []"
  by (simp add: strconv_FormatUint_def nat_digits_props)

lemma ParseUint_FormatUint [simp]: "strconv_ParseUint (strconv_FormatUint w) = Ret w"
proof -
  have "unat w < 2 ^ 64" using unsigned_less [of w, where 'a = nat] by simp
  then have "int (unat w) < 2 ^ 64" by (metis of_nat_less_iff of_nat_numeral of_nat_power)
  then show ?thesis
    by (simp add: strconv_ParseUint_def strconv_FormatUint_def nat_digits_props)
qed

lemma FormatUint_inj [simp]: "strconv_FormatUint v = strconv_FormatUint w \<longleftrightarrow> v = w"
  by (metis ParseUint_FormatUint go.inject(1))

lemma length_nat_digits: "n < 10 ^ k \<Longrightarrow> 0 < k \<Longrightarrow> length (nat_digits n) \<le> k"
proof (induction k arbitrary: n)
  case (Suc k)
  show ?case
  proof (cases "n < 10")
    case True
    then show ?thesis by (simp add: nat_digits.simps [of n])
  next
    case False
    then have "0 < k" using Suc.prems by (cases k) auto
    moreover have "n div 10 < 10 ^ k" using Suc.prems by auto
    ultimately show ?thesis using False Suc.IH [of "n div 10"] by (simp add: nat_digits.simps [of n])
  qed
qed simp

lemma length_FormatUint: "length (strconv_FormatUint w) \<le> 20"
proof -
  have "unat w < 2 ^ 64" using unsigned_less [of w, where 'a = nat] by simp
  then have "unat w < 10 ^ 20" by simp
  then show ?thesis unfolding strconv_FormatUint_def by (rule length_nat_digits) simp
qed

lemma length_blake2b [simp]: "length (blake2b_Sum512 bs) = 64"
proof -
  have "length (blake2b_blocks bs t h) = 8" for t h
    by (induction bs t h rule: blake2b_blocks.induct)
      (subst blake2b_blocks.simps, auto simp: blake2b_compress_def Let_def)
  then show ?thesis
    by (simp add: blake2b_Sum512_def length_concat comp_def sum_list_triv)
qed

end
