(* ===== verification/Frames.thy ===== *)
theory Frames
  imports Store
begin

text \<open>
  What operations leave alone.  \<open>keeps R m\<close> says that every run of \<open>m\<close> relates the database
  before it to the one after it by \<open>R\<close>, whether it returns, fails or panics.  The locale
  \<open>db_relation\<close> shows that this is inherited by everything that is built from operations; it is
  interpreted on three relations: a bucket is the same, a well-formed database stays
  well-formed, and tables stay tables.
\<close>

definition keeps :: "(db \<Rightarrow> db \<Rightarrow> bool) \<Rightarrow> 'a dbop \<Rightarrow> bool" where
  "keeps R m \<longleftrightarrow> (\<forall>s. R s (snd (m s)))"

definition same_bkt :: "bytes \<Rightarrow> db \<Rightarrow> db \<Rightarrow> bool" where
  "same_bkt b s s' \<longleftrightarrow> bkt_at [b] s' = bkt_at [b] s"

definition stays_wf :: "db \<Rightarrow> db \<Rightarrow> bool" where
  "stays_wf s s' \<longleftrightarrow> (wf_bucket s \<longrightarrow> wf_bucket s')"

definition stays_tbl :: "db \<Rightarrow> db \<Rightarrow> bool" where
  "stays_tbl s s' \<longleftrightarrow> (\<forall>b. has_tbl b s \<longrightarrow> has_tbl b s')"

lemma keepsD: "keeps R m \<Longrightarrow> m s = (r, s') \<Longrightarrow> R s s'"
  by (metis keeps_def snd_conv)

locale db_relation =
  fixes R :: "db \<Rightarrow> db \<Rightarrow> bool"
  assumes refl: "R s s"
    and trans: "R s t \<Longrightarrow> R t u \<Longrightarrow> R s u"
begin

lemma keeps_return [intro!]: "keeps R (db_return a)"
  by (simp add: keeps_def db_return_def refl)

lemma keeps_fail [intro!]: "keeps R (db_fail e)"
  by (simp add: keeps_def db_fail_def refl)

lemma keeps_read [intro!]: "keeps R (rd_bkt p f)"
  by (simp add: keeps_def refl)

lemma keeps_bind [intro!]:
  assumes "keeps R m" and "\<And>a. keeps R (f a)"
  shows "keeps R (db_bind m f)"
  unfolding keeps_def
proof
  fix s
  obtain r t where m: "m s = (r, t)" by force
  have "R s t" using keepsD [OF assms(1) m] .
  then show "R s (snd (db_bind m f s))"
    using assms(2) trans [of s t] by (cases r) (auto simp: db_bind_def m keeps_def)
qed

lemma keeps_catch [intro!]:
  assumes "keeps R m" and "\<And>e. keeps R (h e)"
  shows "keeps R (db_catch m h)"
  unfolding keeps_def
proof
  fix s
  obtain r t where m: "m s = (r, t)" by force
  have "R s t" using keepsD [OF assms(1) m] .
  then show "R s (snd (db_catch m h s))"
    using assms(2) trans [of s t] by (cases r) (auto simp: db_catch_def m keeps_def)
qed

lemma keeps_Wrap [intro!]: "\<forall>m \<in> set ms. keeps R m \<Longrightarrow> keeps R (store_Wrap ms)"
proof (induction ms)
  case Nil
  then show ?case by (simp add: keeps_def refl)
next
  case (Cons m ms)
  have "R s (snd (store_Wrap (m # ms) s))" for s
  proof -
    obtain r t where m: "m s = (r, t)" by force
    have "R s t" using Cons.prems m keepsD [of R m s r t] by simp
    moreover have "R t (snd (store_Wrap ms t))" using Cons by (simp add: keeps_def)
    ultimately show ?thesis using trans by (cases r) (auto simp: m)
  qed
  then show ?case by (simp add: keeps_def)
qed

lemma keeps_OrMissing [intro!]: "keeps R m \<Longrightarrow> keeps R (store_OrMissing d m)"
  unfolding store_OrMissing_def by (intro keeps_catch) (simp_all add: keeps_return keeps_fail)

lemma keeps_reads [intro!]:
  "keeps R (store_Get b k)" "keeps R (store_Unmarshal dec b to k)"
  "keeps R (store_CheckExists b k)" "keeps R (store_CheckNotExist b k)"
  "keeps R (store_ForEach b f a)"
  by (simp_all add: keeps_def refl)

text \<open>A rolled-back or committed transaction keeps what its body keeps.\<close>

lemma keeps_Update: "keeps R m \<Longrightarrow> keeps R (db_Update m)"
  unfolding keeps_def
proof
  fix s
  assume "\<forall>s. R s (snd (m s))"
  then have "R s (snd (m s))" ..
  then show "R s (snd (db_Update m s))"
    by (cases "m s"; cases "fst (m s)") (auto simp: db_Update_def refl)
qed

end

interpretation same: db_relation "same_bkt b"
  by unfold_locales (auto simp: same_bkt_def)

interpretation wf: db_relation stays_wf
  by unfold_locales (auto simp: stays_wf_def)

interpretation tbl: db_relation stays_tbl
  by unfold_locales (auto simp: stays_tbl_def)

section \<open>Writes\<close>

lemma same_on_bkt [intro!]: "b \<noteq> c \<Longrightarrow> keeps (same_bkt b) (on_bkt [c] f)"
  by (auto simp: keeps_def same_bkt_def on_bkt_def simp del: bkt_at.simps bkt_set.simps split: option.splits sum.splits)

lemma same_Put [intro!]: "b \<noteq> c \<Longrightarrow> keeps (same_bkt b) (store_Put c k v)"
  by (auto simp: store_Put_def)

lemma same_Delete [intro!]: "b \<noteq> c \<Longrightarrow> keeps (same_bkt b) (store_Delete c k)"
  by (auto simp: store_Delete_def)

lemma same_Marshal [intro!]: "b \<noteq> c \<Longrightarrow> keeps (same_bkt b) (store_Marshal enc c x k)"
  by (auto simp: store_Marshal_def)

lemma wf_on_bkt:
  assumes "\<And>B B'. wf_bucket B \<Longrightarrow> f B = Inr B' \<Longrightarrow> wf_bucket B'"
  shows "keeps stays_wf (on_bkt p f)"
  unfolding keeps_def stays_wf_def
proof (intro allI impI)
  fix s
  assume s: "wf_bucket s"
  show "wf_bucket (snd (on_bkt p f s))"
  proof (cases "bkt_at p s")
    case (Some B)
    then have "wf_bucket B" using s by (simp add: wf_bkt_at)
    then show ?thesis
      using s assms [of B] by (cases "f B") (simp_all add: on_bkt_def Some wf_bkt_set)
  qed (simp add: on_bkt_def s)
qed

lemma wf_Put [intro!]: "keeps stays_wf (store_Put c k v)"
  unfolding store_Put_def
  by (rule wf_on_bkt) (auto simp: Bucket_Put_def wf_set_ent split: if_splits option.splits entry.splits)

lemma wf_Delete [intro!]: "keeps stays_wf (store_Delete c k)"
  unfolding store_Delete_def
  by (rule wf_on_bkt) (auto simp: Bucket_Delete_def wf_del_ent split: option.splits entry.splits)

lemma wf_Marshal [intro!]: "keeps stays_wf (store_Marshal enc c x k)"
  by (auto simp: store_Marshal_def)

lemma tbl_on_bkt:
  assumes "\<And>B B'. flat_bucket B \<Longrightarrow> f B = Inr B' \<Longrightarrow> flat_bucket B'"
  shows "keeps stays_tbl (on_bkt [c] f)"
  unfolding keeps_def stays_tbl_def
proof (intro allI impI)
  fix s b
  assume b: "has_tbl b s"
  show "has_tbl b (snd (on_bkt [c] f s))"
  proof (cases "b = c")
    case True
    with b obtain B where "bkt_at [c] s = Some B" "flat_bucket B" by (auto elim: has_tblE)
    then show ?thesis
      using b True assms [of B]
      by (auto simp: on_bkt_def has_tbl_def simp del: bkt_at.simps bkt_set.simps split: sum.splits)
  next
    case False
    then have "bkt_at [b] (snd (on_bkt [c] f s)) = bkt_at [b] s"
      using same_on_bkt [OF False] by (simp add: keeps_def same_bkt_def)
    with b show ?thesis by (simp add: has_tbl_def del: bkt_at.simps)
  qed
qed

lemma tbl_Put [intro!]: "keeps stays_tbl (store_Put c k v)"
  unfolding store_Put_def
  by (rule tbl_on_bkt) (auto simp: Bucket_Put_def flat_set_leaf split: if_splits option.splits entry.splits)

lemma tbl_Delete [intro!]: "keeps stays_tbl (store_Delete c k)"
  unfolding store_Delete_def
  by (rule tbl_on_bkt) (auto simp: Bucket_Delete_def flat_del split: option.splits entry.splits)

lemma tbl_Marshal [intro!]: "keeps stays_tbl (store_Marshal enc c x k)"
  by (auto simp: store_Marshal_def)

lemma same_table: "same_bkt b s s' \<Longrightarrow> table s' b = table s b"
  by (simp add: same_bkt_def table_def fun_eq_iff del: bkt_at.simps)

end
