(* ===== verification/River.thy ===== *)
theory River
  imports Go_Binary Frames
begin

text \<open>
  Rivers (\<^verbatim>\<open>stream/river\<close>): sockets between the parts of the server, with a register of them in
  the database.  A stream's buses live in \<^verbatim>\<open>rivers/{stream}/{id}/{n}\<close>, publishers in
  \<^verbatim>\<open>rivers/{stream}/{id}\<close>, responders under the path they are asked for.  The sockets of the
  mangos library are an argument: \<open>net\<close> says what each of their calls returns within one
  transaction, and a river is the addresses it listens on and dials.

  The theorems show that the register of buses refines a set of addresses, that a hangup
  survey succeeds exactly when every expected responder has answered, and that a subscriber
  receives what was published for its topics.
\<close>

section \<open>Constants, errors, sockets\<close>

definition HUP :: bytes where "HUP = ''HUP''"
definition OK :: bytes where "OK = ''OK''"
definition UNKNOWN :: bytes where "UNKNOWN = ''IDK''"
definition RiverBucket :: bytes where "RiverBucket = ''rivers''"
definition ResponderBucket :: bytes where "ResponderBucket = ''responders''"
definition HangupBucket :: bytes where "HangupBucket = ''hangups''"

fun river_IsExists :: "err \<Rightarrow> bool" where
  "river_IsExists (river_errExists _) = True"
| "river_IsExists _ = False"

fun river_IsStreamMissing :: "err \<Rightarrow> bool" where
  "river_IsStreamMissing (river_errStreamMissing _) = True"
| "river_IsStreamMissing _ = False"

fun river_IsUnknownSurvey :: "err \<Rightarrow> bool" where
  "river_IsUnknownSurvey (river_errUnknownSurvey _) = True"
| "river_IsUnknownSurvey _ = False"

fun river_IsMissing :: "err \<Rightarrow> bool" where
  "river_IsMissing (river_missing _) = True"
| "river_IsMissing _ = False"

definition mangos_ErrAddrInUse :: err where "mangos_ErrAddrInUse = SockErr ''address in use''"
definition mangos_ErrProtoState :: err where "mangos_ErrProtoState = SockErr ''incorrect protocol state''"

text \<open>What the socket calls return; \<open>None\<close> is the nil error.\<close>

record net =
  net_NewSocket :: "err option"
  net_SetOption :: "bytes \<Rightarrow> err option"
  net_Listen :: "string \<Rightarrow> err option"
  net_Dial :: "string \<Rightarrow> err option"
  net_Close :: "err option"

definition sock :: "err option \<Rightarrow> unit dbop" where
  "sock r = (case r of None \<Rightarrow> db_return () | Some e \<Rightarrow> db_fail e)"

text \<open>\<^verbatim>\<open>if err != nil { return errors.Wrap(err, msg) }\<close>.\<close>

definition errors_Wrap :: "string \<Rightarrow> 'a dbop \<Rightarrow> 'a dbop" where
  "errors_Wrap msg m = db_catch m (\<lambda>e. db_fail (Wrapped msg e))"

text \<open>\<^verbatim>\<open>NextSequence\<close> through a handle.\<close>

definition next_sequence :: "path \<Rightarrow> uint64 dbop" where
  "next_sequence p s =
     (case bkt_at p s of
        None \<Rightarrow> (Panic, s)
      | Some b \<Rightarrow> (Ret (fst (Bucket_NextSequence b)), bkt_set p (snd (Bucket_NextSequence b)) s))"

text \<open>\<^verbatim>\<open>GetNestedBucket\<close> in \<^verbatim>\<open>rivers\<close>, with a missing bucket reported as a missing stream.\<close>

definition river_bucket :: "bytes list \<Rightarrow> path dbop" where
  "river_bucket bks =
     db_catch (store_GetNestedBucket [RiverBucket] bks)
       (\<lambda>e. case e of ErrMissingBucket b \<Rightarrow> db_fail (river_errStreamMissing b) | _ \<Rightarrow> db_fail e)"

section \<open>Buses\<close>

record bus =
  bus_id :: uint64
  bus_addr :: string
  bus_peers :: "string list"

text \<open>The cursor loops: every river below every bucket of the stream; a value in place of a
  bucket gives a nil handle, whose cursor panics.\<close>

fun bus_clients :: "string \<Rightarrow> (bytes \<times> entry) list \<Rightarrow> string list go" where
  "bus_clients bucketPrefix [] = Ret []"
| "bus_clients bucketPrefix ((out, Leaf _) # es) = Panic"
| "bus_clients bucketPrefix ((out, Sub b) # es) =
     go_bind (bus_clients bucketPrefix es) (\<lambda>cs.
       Ret (map (\<lambda>p. bucketPrefix @ out @ ''/'' @ fst p) (bents b) @ cs))"

definition bus_address :: "string \<Rightarrow> string \<Rightarrow> string \<Rightarrow> string" where
  "bus_address streamID i n = ''inproc://'' @ streamID @ ''/'' @ i @ ''/'' @ n"

text \<open>The addresses that were dialled.  The first failing call of \<^verbatim>\<open>Dial\<close> decides; the socket is closed
  after it.\<close>

fun dial_all :: "net \<Rightarrow> string list \<Rightarrow> string list dbop" where
  "dial_all net [] s = (Ret [], s)"
| "dial_all net (c # cs) s =
     (case net_Dial net c of
        None \<Rightarrow> db_bind (dial_all net cs) (\<lambda>dialled. db_return (c # dialled)) s
      | Some e \<Rightarrow>
          (case net_Close net of
             Some e2 \<Rightarrow> (Fail (Wrapped ''error while closing River after error'' e2), s)
           | None \<Rightarrow> (Fail (Wrapped ''failed to dial'' e), s)))"

definition river_NewBus :: "net \<Rightarrow> string \<Rightarrow> string \<Rightarrow> bus dbop" where
  "river_NewBus net i streamID =
     db_bind (errors_Wrap ''failed to create stream bucket'' (store_MakeNestedBucket [RiverBucket] [streamID])) (\<lambda>strB.
     db_bind (rd_bkt strB (\<lambda>b. bus_clients (''inproc://'' @ streamID @ ''/'') (bents b))) (\<lambda>clients.
     db_bind (errors_Wrap ''failed to create id bucket'' (on_bkt strB (Bucket_CreateBucketIfNotExists i))) (\<lambda>_.
     db_bind (errors_Wrap ''failed to create socket'' (sock (net_NewSocket net))) (\<lambda>_.
     db_bind (next_sequence (strB @ [i])) (\<lambda>seq.
     db_bind (errors_Wrap ''failed to write river to DB''
                (on_bkt (strB @ [i]) (Bucket_Put (strconv_FormatUint seq) (Raw [])))) (\<lambda>_.
     db_bind (errors_Wrap ''failed to start listening''
                (sock (net_Listen net (bus_address streamID i (strconv_FormatUint seq))))) (\<lambda>_.
     db_bind (dial_all net clients) (\<lambda>dialled.
       db_return \<lparr>bus_id = seq, bus_addr = bus_address streamID i (strconv_FormatUint seq), bus_peers = dialled\<rparr>))))))))"

definition river_DeleteBus :: "string \<Rightarrow> string \<Rightarrow> uint64 \<Rightarrow> unit dbop" where
  "river_DeleteBus i streamID seq =
     db_bind (river_bucket [streamID, i]) (\<lambda>b. on_bkt b (Bucket_Delete (strconv_FormatUint seq)))"

section \<open>Publishers and subscribers\<close>

record pub =
  pub_addr :: string

definition river_NewPub :: "net \<Rightarrow> string \<Rightarrow> string \<Rightarrow> pub dbop" where
  "river_NewPub net i streamID =
     db_bind (on_bkt [RiverBucket] (Bucket_CreateBucketIfNotExists streamID)) (\<lambda>_.
     db_bind (errors_Wrap ''failed to create socket'' (sock (net_NewSocket net))) (\<lambda>_.
     db_bind (rd_bkt [RiverBucket, streamID]
                (\<lambda>b. if map_option fst (Cursor_seek i b) = Some i then Fail (river_errExists i) else Ret ())) (\<lambda>_.
     db_bind (errors_Wrap ''failed to write river to DB'' (on_bkt [RiverBucket, streamID] (Bucket_Put i (Raw [])))) (\<lambda>_.
     db_bind (db_catch (sock (net_Listen net (''inproc://'' @ streamID @ ''/'' @ i)))
                (\<lambda>e. if e = mangos_ErrAddrInUse then db_fail (river_errExists i)
                     else db_fail (Wrapped ''failed to start listening'' e))) (\<lambda>_.
       db_return \<lparr>pub_addr = ''inproc://'' @ streamID @ ''/'' @ i\<rparr>)))))"

definition river_DeletePub :: "string \<Rightarrow> string \<Rightarrow> unit dbop" where
  "river_DeletePub i streamID =
     db_bind (store_GetNestedBucket [RiverBucket] [streamID]) (\<lambda>b. on_bkt b (Bucket_Delete i))"

text \<open>A topic is what its four methods return.\<close>

record Topic =
  tp_Prefix :: char
  tp_Code :: bytes
  tp_Name :: string
  tp_Len :: nat

definition river_Global :: Topic where
  "river_Global = \<lparr>tp_Prefix = CHR 0x00, tp_Code = [CHR 0x00], tp_Name = ''global'', tp_Len = 1\<rparr>"

definition river_BytesFor :: "Topic \<Rightarrow> bytes \<Rightarrow> bytes" where
  "river_BytesFor t content = tp_Code t @ content"

record sub =
  sub_topics :: "(char \<times> Topic) list"
  sub_servers :: "string list"

text \<open>\<^verbatim>\<open>sub.Recv\<close> on what the socket returned.\<close>

definition river_sub_Recv :: "sub \<Rightarrow> bytes go \<Rightarrow> bytes go" where
  "river_sub_Recv x r =
     go_bind r (\<lambda>bs.
       if bs = [] then Panic
       else (case map_of (sub_topics x) (hd bs) of
               Some topic \<Rightarrow> if length bs < tp_Len topic then Panic else Ret (drop (tp_Len topic) bs)
             | None \<Rightarrow> Fail (Errorf ''received unknown prefix'')))"

fun topic_map :: "net \<Rightarrow> Topic list \<Rightarrow> (char \<times> Topic) list \<Rightarrow> (char \<times> Topic) list go" where
  "topic_map net [] m = Ret m"
| "topic_map net (t # ts) m =
     (if map_of m (tp_Prefix t) \<noteq> None then Fail (Errorf ''redundant topics'')
      else (case net_SetOption net (tp_Code t) of
              Some e \<Rightarrow> Fail (Wrapped ''bad topic'' e)
            | None \<Rightarrow> topic_map net ts ((tp_Prefix t, t) # m)))"

definition river_NewSub :: "net \<Rightarrow> string \<Rightarrow> Topic list \<Rightarrow> sub dbop" where
  "river_NewSub net streamID topics =
     db_bind (rd_bkt [RiverBucket] (\<lambda>_. Ret ())) (\<lambda>_ s.
       case bkt_at [RiverBucket, streamID] s of
         None \<Rightarrow> (Fail (river_errStreamMissing streamID), s)
       | Some b \<Rightarrow>
           db_bind (errors_Wrap ''failed to create socket'' (sock (net_NewSocket net))) (\<lambda>_.
           db_bind (\<lambda>s. (topic_map net (if topics = [] then [river_Global] else topics) [], s)) (\<lambda>m.
           db_bind (dial_all net (map (\<lambda>p. ''inproc://'' @ streamID @ ''/'' @ fst p) (bents b))) (\<lambda>_.
             db_return \<lparr>sub_topics = m,
                        sub_servers = map (\<lambda>p. ''inproc://'' @ streamID @ ''/'' @ fst p) (bents b)\<rparr>))) s)"

section \<open>The register\<close>

definition river_CheckRiverNotExists :: "string \<Rightarrow> string \<Rightarrow> unit dbop" where
  "river_CheckRiverNotExists i streamID =
     db_bind (rd_bkt [RiverBucket] (\<lambda>_. Ret ())) (\<lambda>_ s.
       case bkt_at [RiverBucket, streamID] s of
         None \<Rightarrow> (Ret (), s)
       | Some b \<Rightarrow> (if map_option fst (Cursor_seek i b) = Some i then Fail (river_errExists i) else Ret (), s))"

text \<open>
  The callback deletes from the bucket that \<^verbatim>\<open>ForEach\<close> walks through, which the documentation of bolt
  forbids.  The model is what the vendored code does on the way it is called: the cursor holds the
  page that \<^verbatim>\<open>pageNode\<close> gave it, since nothing in the transaction has made a node of that page
  before, and \<^verbatim>\<open>DeleteBucket\<close> edits a node that it makes of it; so the loop visits the entries that
  were there when it started.
\<close>

definition river_ClearRivers :: "unit dbop" where
  "river_ClearRivers s =
     (case bkt_at [RiverBucket] s of
        None \<Rightarrow> (Panic, s)
      | Some b \<Rightarrow> store_Wrap (map (\<lambda>p. on_bkt [RiverBucket] (Bucket_DeleteBucket (fst p))) (bents b)) s)"

fun parse_ids :: "bytes list \<Rightarrow> uint64 list go" where
  "parse_ids [] = Ret []"
| "parse_ids (k # ks) = go_bind (strconv_ParseUint k) (\<lambda>i. go_bind (parse_ids ks) (\<lambda>is. Ret (i # is)))"

definition river_CheckMissing :: "bytes list \<Rightarrow> unit dbop" where
  "river_CheckMissing bks =
     db_bind (river_bucket bks) (\<lambda>p.
       rd_bkt p (\<lambda>b. go_bind (parse_ids (map fst (bents b))) (\<lambda>remain.
         if length remain > 0 then Fail (river_missing remain) else Ret ())))"

section \<open>Responders\<close>

record respondent =
  rsp_id :: uint64
  rsp_addr :: string

definition path_address :: "bytes list \<Rightarrow> string" where
  "path_address bks = ''inproc://'' @ concat (map (\<lambda>b. b @ ''/'') bks)"

definition river_NewResponder :: "net \<Rightarrow> bytes list \<Rightarrow> respondent dbop" where
  "river_NewResponder net bks =
     db_bind (errors_Wrap ''failed to create buckets'' (store_MakeNestedBucket [RiverBucket] bks)) (\<lambda>p.
     db_bind (errors_Wrap ''failed to create socket'' (sock (net_NewSocket net))) (\<lambda>_.
     db_bind (next_sequence p) (\<lambda>seq.
     db_bind (errors_Wrap ''failed to insert River'' (on_bkt p (Bucket_Put (strconv_FormatUint seq) (Raw [])))) (\<lambda>_.
     db_bind (db_catch (sock (net_Listen net (path_address bks @ strconv_FormatUint seq)))
                (\<lambda>e. if e = mangos_ErrAddrInUse then db_fail (river_errExists (path_address bks @ strconv_FormatUint seq))
                     else db_fail (Wrapped ''failed to start listening'' e))) (\<lambda>_.
       db_return \<lparr>rsp_id = seq, rsp_addr = path_address bks @ strconv_FormatUint seq\<rparr>)))))"

definition river_DeleteResp :: "uint64 \<Rightarrow> bytes list \<Rightarrow> unit dbop" where
  "river_DeleteResp i bks =
     db_bind (errors_Wrap ''failed to create buckets'' (store_GetNestedBucket [RiverBucket] bks)) (\<lambda>b.
       on_bkt b (Bucket_Delete (strconv_FormatUint i)))"

text \<open>\<^verbatim>\<open>Wait\<close>: \<open>r\<close> is what \<^verbatim>\<open>Recv\<close> returns, \<open>send\<close> the result of sending a reply; the reply
  that went out comes first.\<close>

definition river_Wait :: "bytes go \<Rightarrow> (bytes \<Rightarrow> err option) \<Rightarrow> bytes \<Rightarrow> bytes \<Rightarrow> bytes \<Rightarrow> bytes list \<times> unit go" where
  "river_Wait r send surv rsp or' =
     (case r of
        Fail e \<Rightarrow> ([], Fail e)
      | Panic \<Rightarrow> ([], Panic)
      | Ret bs \<Rightarrow>
          if bs = surv then ([rsp], case send rsp of None \<Rightarrow> Ret () | Some e \<Rightarrow> Fail e)
          else ([or'], case send or' of Some e \<Rightarrow> Fail e | None \<Rightarrow> Fail (river_errUnknownSurvey bs)))"

definition river_AwaitHangup :: "uint64 \<Rightarrow> bytes go \<Rightarrow> (bytes \<Rightarrow> err option) \<Rightarrow> bytes list \<times> unit go" where
  "river_AwaitHangup i r send =
     river_Wait r send HUP (OK @ LittleEndian_PutUint64 i) (UNKNOWN @ LittleEndian_PutUint64 i)"

section \<open>Surveys\<close>

record surveyor =
  surv_clients :: "uint64 list"
  surv_addrs :: "string list"

text \<open>The \<^verbatim>\<open>ForEach\<close> of \<^verbatim>\<open>NewSurvey\<close>: it stops at the first error, and the error is dropped, so
  the responders after it are neither dialled nor expected.\<close>

fun survey_clients :: "net \<Rightarrow> string \<Rightarrow> bytes list \<Rightarrow> surveyor \<Rightarrow> surveyor" where
  "survey_clients net addrStr [] sv = sv"
| "survey_clients net addrStr (k # ks) sv =
     (case strconv_ParseUint k of
        Ret i \<Rightarrow>
          (let sv1 = sv\<lparr>surv_clients := List.insert i (surv_clients sv)\<rparr>
           in if net_Dial net (addrStr @ k) \<noteq> None then sv1
              else survey_clients net addrStr ks (sv1\<lparr>surv_addrs := surv_addrs sv1 @ [addrStr @ k]\<rparr>))
      | _ \<Rightarrow> sv)"

definition river_NewSurvey :: "net \<Rightarrow> bytes list \<Rightarrow> surveyor dbop" where
  "river_NewSurvey net bks =
     db_bind (db_catch (store_GetNestedBucket [RiverBucket] bks)
                (\<lambda>e. case e of
                       ErrMissingBucket b \<Rightarrow>
                         if length bks > 0 then db_fail (river_errStreamMissing b)
                         else db_fail (Wrapped ''failed to get bucket'' e)
                     | _ \<Rightarrow> db_fail (Wrapped ''failed to get bucket'' e))) (\<lambda>p.
     db_bind (errors_Wrap ''failed to create socket'' (sock (net_NewSocket net))) (\<lambda>_.
     db_bind (errors_Wrap ''failed to set socket timeout'' (sock (net_SetOption net ''SURVEY-TIME''))) (\<lambda>_.
       rd_bkt p (\<lambda>b. Ret (survey_clients net (path_address bks) (map fst (bents b)) \<lparr>surv_clients = [], surv_addrs = []\<rparr>)))))"

definition bytes_HasPrefix :: "bytes \<Rightarrow> bytes \<Rightarrow> bool" where
  "bytes_HasPrefix s prefix \<longleftrightarrow> take (length prefix) s = prefix"

text \<open>
  One round of \<^verbatim>\<open>MakeSurvey\<close>: at most \<open>n\<close> replies from the \<open>j\<close>-th on.  The state is the IDs that
  answered as expected and the keys of the error map.  The ID of an unknown-survey reply is
  read after \<open>lr\<close> bytes, the length of the expected reply.
\<close>

fun survey_query ::
    "(nat \<Rightarrow> bytes go) \<Rightarrow> bytes \<Rightarrow> uint64 list \<Rightarrow> nat \<Rightarrow> nat \<Rightarrow> uint64 list \<times> uint64 list \<Rightarrow> (uint64 list \<times> uint64 list) go" where
  "survey_query recv expect ids j 0 st = Ret st"
| "survey_query recv expect ids j (Suc n) (seen, errs) =
     (case recv j of
        Panic \<Rightarrow> Panic
      | Fail e \<Rightarrow> if e = mangos_ErrProtoState then Ret (seen, errs) else Fail e
      | Ret bs \<Rightarrow>
          if bytes_HasPrefix bs expect then
            go_bind (LittleEndian_Uint64 (drop (length expect) bs)) (\<lambda>i.
              if i \<notin> set ids then Fail (Errorf ''unexpected respondent'')
              else survey_query recv expect ids (Suc j) n (List.insert i seen, errs))
          else if bytes_HasPrefix bs UNKNOWN then
            (if length bs < length expect then Panic
             else go_bind (LittleEndian_Uint64 (drop (length expect) bs)) (\<lambda>i.
                    survey_query recv expect ids (Suc j) n (seen, List.insert i errs)))
          else Fail (river_errUnknownSurvey bs))"

fun survey_rounds ::
    "(nat \<Rightarrow> bytes \<Rightarrow> err option) \<Rightarrow> (nat \<Rightarrow> nat \<Rightarrow> bytes go) \<Rightarrow> bytes \<Rightarrow> bytes \<Rightarrow> uint64 list \<Rightarrow> nat \<Rightarrow> nat \<Rightarrow>
     uint64 list \<times> uint64 list \<Rightarrow> unit go" where
  "survey_rounds send recv what expect ids i 0 (seen, errs) =
     Fail (river_missing (filter (\<lambda>k. k \<notin> set seen) ids))"
| "survey_rounds send recv what expect ids i (Suc n) (seen, errs) =
     (case send i what of
        Some e \<Rightarrow> Fail e
      | None \<Rightarrow>
          go_bind (survey_query (recv i) expect ids 0 (length ids - length seen - length errs) (seen, errs)) (\<lambda>(seen', errs').
            if length seen' = length ids then Ret ()
            else if length seen' + length errs' = length ids then Fail (Errorf ''errors'')
            else survey_rounds send recv what expect ids (Suc i) n (seen', errs')))"

text \<open>\<open>send i\<close> is the result of the \<open>i\<close>-th send and \<open>recv i j\<close> the \<open>j\<close>-th reply after it.\<close>

definition river_MakeSurvey ::
    "(nat \<Rightarrow> bytes \<Rightarrow> err option) \<Rightarrow> (nat \<Rightarrow> nat \<Rightarrow> bytes go) \<Rightarrow> surveyor \<Rightarrow> bytes \<Rightarrow> bytes \<Rightarrow> unit go" where
  "river_MakeSurvey send recv sv what expect =
     survey_rounds send recv what expect (surv_clients sv) 0 3 ([], [])"

section \<open>Lemmas on surveys\<close>

definition answers :: "bytes \<Rightarrow> bytes go \<Rightarrow> uint64 \<Rightarrow> bool" where
  "answers expect r i \<longleftrightarrow>
     (\<exists>bs. r = Ret bs \<and> bytes_HasPrefix bs expect \<and> LittleEndian_Uint64 (drop (length expect) bs) = Ret i)"

lemma HasPrefix_append [simp]: "bytes_HasPrefix (p @ bs) p"
  by (simp add: bytes_HasPrefix_def)

lemma survey_query_seen:
  "survey_query recv expect ids j n (seen, errs) = Ret (seen', errs') \<Longrightarrow> distinct seen \<Longrightarrow> set seen \<subseteq> set ids \<Longrightarrow>
   distinct seen' \<and> set seen' \<subseteq> set ids \<and>
   (\<forall>i \<in> set seen'. i \<in> set seen \<or> (\<exists>k < j + n. answers expect (recv k) i))"
proof (induction n arbitrary: j seen errs)
  case (Suc n)
  show ?case
  proof (cases "recv j")
    case (Ret bs)
    show ?thesis
    proof (cases "bytes_HasPrefix bs expect")
      case True
      with Suc.prems(1) Ret obtain i where i: "LittleEndian_Uint64 (drop (length expect) bs) = Ret i" "i \<in> set ids"
        and more: "survey_query recv expect ids (Suc j) n (List.insert i seen, errs) = Ret (seen', errs')"
        by (auto simp: go_bind_eq_Ret split: if_splits)
      have "answers expect (recv j) i" using Ret True i by (auto simp: answers_def)
      with Suc.IH [OF more] Suc.prems(2,3) i(2) show ?thesis
        by (fastforce simp: List.insert_def split: if_splits)
    next
      case False
      with Suc.prems(1) Ret obtain i where
        "survey_query recv expect ids (Suc j) n (seen, List.insert i errs) = Ret (seen', errs')"
        by (auto simp: go_bind_eq_Ret split: if_splits)
      from Suc.IH [OF this] Suc.prems(2,3) show ?thesis by fastforce
    qed
  qed (use Suc.prems in \<open>auto split: if_splits\<close>)
qed auto

lemma survey_rounds_sound:
  "survey_rounds send recv what expect ids i n (seen, errs) = Ret () \<Longrightarrow> distinct ids \<Longrightarrow>
   distinct seen \<Longrightarrow> set seen \<subseteq> set ids \<Longrightarrow>
   \<forall>x \<in> set ids. x \<in> set seen \<or> (\<exists>r < i + n. \<exists>k < length ids. answers expect (recv r k) x)"
proof (induction n arbitrary: i seen errs)
  case (Suc n)
  define m where "m = length ids - length seen - length errs"
  from Suc.prems(1) obtain seen' errs' where
    q: "survey_query (recv i) expect ids 0 m (seen, errs) = Ret (seen', errs')"
    and rest: "length seen' = length ids \<or> survey_rounds send recv what expect ids (Suc i) n (seen', errs') = Ret ()"
    by (auto simp: go_bind_eq_Ret m_def split: option.splits if_splits)
  note s' = survey_query_seen [OF q Suc.prems(3,4)]
  have step: "x \<in> set seen \<or> (\<exists>r < i + Suc n. \<exists>k < length ids. answers expect (recv r k) x)" if "x \<in> set seen'" for x
    using s' that by (fastforce simp: m_def)
  from rest show ?case
  proof
    assume "length seen' = length ids"
    then have "set seen' = set ids"
      using s' Suc.prems(2) by (metis card_subset_eq distinct_card finite_set)
    with step show ?thesis by blast
  next
    assume "survey_rounds send recv what expect ids (Suc i) n (seen', errs') = Ret ()"
    from Suc.IH [OF this Suc.prems(2)] s' step show ?thesis by fastforce
  qed
qed simp

lemma survey_query_all:
  "(\<And>k. k < length xs \<Longrightarrow> recv (j + k) = Ret (expect @ LittleEndian_PutUint64 (xs ! k))) \<Longrightarrow>
   distinct (xs @ seen) \<Longrightarrow> set xs \<subseteq> set ids \<Longrightarrow>
   survey_query recv expect ids j (length xs) (seen, errs) = Ret (rev xs @ seen, errs)"
proof (induction xs arbitrary: j seen)
  case (Cons x xs)
  have "recv j = Ret (expect @ LittleEndian_PutUint64 x)" using Cons.prems(1) [of 0] by simp
  moreover have "LittleEndian_Uint64 (LittleEndian_PutUint64 x) = Ret x" using LE_roundtrip [of x "[]"] by simp
  moreover have "survey_query recv expect ids (Suc j) (length xs) (x # seen, errs) = Ret (rev xs @ x # seen, errs)"
    using Cons.prems Cons.prems(1) [of "Suc k" for k] by (intro Cons.IH) auto
  ultimately show ?case using Cons.prems by (simp add: List.insert_def)
qed simp

lemma LE_alone [simp]: "LittleEndian_Uint64 (LittleEndian_PutUint64 x) = Ret x"
  using LE_roundtrip [of x "[]"] by simp

section \<open>Surveys\<close>

text \<open>
  C24 (MakeSurvey_sound).  When \<^verbatim>\<open>MakeSurvey\<close> reports success, every responder it was made for has
  sent the expected reply with its ID in one of the three rounds: nobody is counted as hung up
  who did not answer.
\<close>

theorem MakeSurvey_sound:
  assumes "distinct (surv_clients sv)" and "river_MakeSurvey send recv sv what expect = Ret ()"
  shows "\<forall>i \<in> set (surv_clients sv). \<exists>r < 3. \<exists>k < length (surv_clients sv). answers expect (recv r k) i"
  using survey_rounds_sound [OF assms(2) [unfolded river_MakeSurvey_def] assms(1)] by simp

text \<open>The replies of one round, which ends early when nothing more is received.\<close>

lemma survey_query_part:
  "(\<And>k. k < length xs \<Longrightarrow> recv (j + k) = Ret (expect @ LittleEndian_PutUint64 (xs ! k))) \<Longrightarrow>
   (length xs < n \<Longrightarrow> recv (j + length xs) = Fail mangos_ErrProtoState) \<Longrightarrow> length xs \<le> n \<Longrightarrow>
   distinct (xs @ seen) \<Longrightarrow> set xs \<subseteq> set ids \<Longrightarrow>
   survey_query recv expect ids j n (seen, errs) = Ret (rev xs @ seen, errs)"
proof (induction xs arbitrary: j n seen)
  case Nil
  then show ?case by (cases n) auto
next
  case (Cons x xs)
  obtain m where n: "n = Suc m" using Cons.prems(3) by (cases n) auto
  have "recv j = Ret (expect @ LittleEndian_PutUint64 x)" using Cons.prems(1) [of 0] by simp
  moreover have "survey_query recv expect ids (Suc j) m (x # seen, errs) = Ret (rev xs @ x # seen, errs)"
    using Cons.prems Cons.prems(1) [of "Suc k" for k] n by (intro Cons.IH) auto
  ultimately show ?case using Cons.prems n by (simp add: List.insert_def)
qed

lemma survey_rounds_all:
  "xss \<noteq> [] \<Longrightarrow> length xss \<le> n \<Longrightarrow> distinct (concat xss @ seen) \<Longrightarrow> set (concat xss) \<union> set seen = set ids \<Longrightarrow> distinct ids \<Longrightarrow>
   (\<And>r. r < length xss \<Longrightarrow> send (i + r) what = None \<and>
      (\<forall>k < length (xss ! r). recv (i + r) k = Ret (expect @ LittleEndian_PutUint64 (xss ! r ! k))) \<and>
      (Suc r < length xss \<longrightarrow> recv (i + r) (length (xss ! r)) = Fail mangos_ErrProtoState)) \<Longrightarrow>
   survey_rounds send recv what expect ids i n (seen, []) = Ret ()"
proof (induction xss arbitrary: i n seen)
  case (Cons xs xss)
  obtain m where n: "n = Suc m" using Cons.prems(2) by (cases n) auto
  have ids: "length ids = length (concat (xs # xss)) + length seen"
    using Cons.prems(3-5) by (metis distinct_card length_append set_append)
  note now = Cons.prems(6) [of 0, simplified]
  have q: "survey_query (recv i) expect ids 0 (length ids - length seen - 0) (seen, []) = Ret (rev xs @ seen, [])"
    using Cons.prems(3,4) ids now by (intro survey_query_part) (cases xss; auto simp: length_concat)+
  show ?case
  proof (cases "length xs + length seen = length ids")
    case True
    then show ?thesis using q now by (simp add: n)
  next
    case False
    then have "xss \<noteq> []" using ids by auto
    then have "survey_rounds send recv what expect ids (Suc i) m (rev xs @ seen, []) = Ret ()"
      using Cons.prems(2-5) Cons.prems(6) [of "Suc r" for r] n by (intro Cons.IH) auto
    then show ?thesis using q now False by (simp add: n)
  qed
qed simp

text \<open>
  C10 (hangup_survey_succeeds).  When every responder awaits the hangup, the survey can be sent, and the
  replies arrive within the three rounds, each of them in some round and in any order, the hangup
  survey succeeds.  A round in which nothing more arrives is followed by the next one.
\<close>

theorem hangup_survey_succeeds:
  assumes "idss \<noteq> []" and "length idss \<le> 3" and "distinct (concat idss)" and "set (concat idss) = set (surv_clients sv)"
    and "distinct (surv_clients sv)"
    and "\<forall>r < length idss. send r HUP = None \<and>
      (\<forall>k < length (idss ! r). fst (river_AwaitHangup (idss ! r ! k) (Ret HUP) ok) = [bs r k] \<and> recv r k = Ret (bs r k)) \<and>
      (Suc r < length idss \<longrightarrow> recv r (length (idss ! r)) = Fail mangos_ErrProtoState)"
  shows "river_MakeSurvey send recv sv HUP OK = Ret ()"
  unfolding river_MakeSurvey_def
proof (rule survey_rounds_all [of idss])
  fix r assume "r < length idss"
  then show "send (0 + r) HUP = None \<and>
      (\<forall>k < length (idss ! r). recv (0 + r) k = Ret (OK @ LittleEndian_PutUint64 (idss ! r ! k))) \<and>
      (Suc r < length idss \<longrightarrow> recv (0 + r) (length (idss ! r)) = Fail mangos_ErrProtoState)"
    using assms(6) by (auto simp: river_AwaitHangup_def river_Wait_def)
qed (use assms in auto)

definition demo_surveyor :: surveyor where
  "demo_surveyor = \<lparr>surv_clients = [1, 2], surv_addrs = [''inproc://a/1'', ''inproc://a/2'']\<rparr>"

text \<open>Two responders; the second one answers in the first round and the first one in the third.\<close>

definition demo_replies :: "nat \<Rightarrow> nat \<Rightarrow> bytes go" where
  "demo_replies r k =
     (if k = 0 \<and> r = 0 then Ret (OK @ LittleEndian_PutUint64 2)
      else if k = 0 \<and> r = 2 then Ret (OK @ LittleEndian_PutUint64 1)
      else Fail mangos_ErrProtoState)"

theorem hangup_survey_succeeds_witness:
  "river_MakeSurvey (\<lambda>_ _. None) demo_replies demo_surveyor HUP OK = Ret ()"
  by (rule hangup_survey_succeeds [where idss = "[[2], [], [1]]" and ok = "\<lambda>_. None"
        and bs = "\<lambda>r k. OK @ LittleEndian_PutUint64 (if r = 0 then 2 else 1)"])
    (auto simp: demo_surveyor_def demo_replies_def river_AwaitHangup_def river_Wait_def less_Suc_eq numeral_3_eq_3)

theorem MakeSurvey_sound_witness:
  "\<exists>r < 3. \<exists>k < 2. answers OK (demo_replies r k) 1"
proof -
  have "river_MakeSurvey (\<lambda>_ _. None) demo_replies demo_surveyor HUP OK = Ret ()"
    by (simp add: river_MakeSurvey_def demo_surveyor_def demo_replies_def numeral_3_eq_3 numeral_2_eq_2)
  from MakeSurvey_sound [OF _ this] show ?thesis by (simp add: demo_surveyor_def numeral_2_eq_2)
qed

section \<open>Lemmas on nested buckets\<close>

lemma bkt_at_below: "bkt_at p s = Some b \<Longrightarrow> bkt_at (p @ q) (bkt_set p c s) = bkt_at q c"
  by (simp add: bkt_at_append)

lemma bkt_at_ent: "bkt_at p s = Some b \<Longrightarrow> bkt_at (p @ n # q) s = (case ent n b of Some (Sub c) \<Rightarrow> bkt_at q c | _ \<Rightarrow> None)"
  by (simp add: bkt_at_append)

text \<open>The bucket \<open>n\<close> of \<open>b\<close>, or an empty one; and \<open>b\<close> once it has that bucket.\<close>

definition child :: "bytes \<Rightarrow> bucket \<Rightarrow> bucket" where
  "child n b = (case ent n b of Some (Sub c) \<Rightarrow> c | _ \<Rightarrow> empty_bucket)"

definition with_child :: "bytes \<Rightarrow> bucket \<Rightarrow> bucket" where
  "with_child n b = (case ent n b of Some (Sub c) \<Rightarrow> b | _ \<Rightarrow> set_ent n (Sub empty_bucket) b)"

definition no_leaf :: "bytes \<Rightarrow> bucket \<Rightarrow> bool" where
  "no_leaf n b \<longleftrightarrow> (\<forall>v. ent n b \<noteq> Some (Leaf v))"

lemma ent_with_child: "no_leaf n b \<Longrightarrow> ent m (with_child n b) = (if m = n then Some (Sub (child n b)) else ent m b)"
  by (auto simp: with_child_def child_def no_leaf_def split: option.splits entry.splits)

lemma CreateIfNotExists_eq:
  "n \<noteq> [] \<Longrightarrow> no_leaf n b \<Longrightarrow> Bucket_CreateBucketIfNotExists n b = Inr (with_child n b)"
  by (auto simp: Bucket_CreateBucketIfNotExists_def Bucket_CreateBucket_def with_child_def no_leaf_def
      split: option.splits entry.splits)

lemma on_bkt_create:
  "bkt_at p s = Some b \<Longrightarrow> n \<noteq> [] \<Longrightarrow> no_leaf n b \<Longrightarrow>
   on_bkt p (Bucket_CreateBucketIfNotExists n) s = (Ret (), bkt_set p (with_child n b) s)"
  by (simp add: on_bkt_def CreateIfNotExists_eq)

lemma bkt_at_create:
  assumes "bkt_at p s = Some b" and "no_leaf n b"
  shows "bkt_at (p @ m # q) (bkt_set p (with_child n b) s) =
    (if m = n then bkt_at q (child n b) else bkt_at (p @ m # q) s)"
  using assms by (simp add: bkt_at_below bkt_at_ent ent_with_child split: option.splits entry.splits)

section \<open>The register of buses\<close>

text \<open>The buses that are registered for a stream, as pairs of name and number.\<close>

definition rivers_of :: "db \<Rightarrow> string \<Rightarrow> (string \<times> uint64) set" where
  "rivers_of s streamID =
     {(i, n). \<exists>c. bkt_at [RiverBucket, streamID, i] s = Some c \<and> ent (strconv_FormatUint n) c \<noteq> None}"

definition bus_bucket_ok :: "bucket \<Rightarrow> bool" where
  "bus_bucket_ok c \<longleftrightarrow> flat_bucket c \<and> (\<forall>k. ent k c \<noteq> None \<longrightarrow> (\<exists>n \<le> bseq c. k = strconv_FormatUint n))"

definition stream_bucket_ok :: "bucket \<Rightarrow> bool" where
  "stream_bucket_ok b \<longleftrightarrow> (\<forall>i e. ent i b = Some e \<longrightarrow> (\<exists>c. e = Sub c \<and> bus_bucket_ok c))"

definition rivers_ok :: "string \<Rightarrow> db \<Rightarrow> bool" where
  "rivers_ok streamID s \<longleftrightarrow>
     wf_bucket s \<and>
     (\<exists>r. bkt_at [RiverBucket] s = Some r \<and> no_leaf streamID r \<and> stream_bucket_ok (child streamID r))"

definition net_ok :: "net \<Rightarrow> bool" where
  "net_ok net \<longleftrightarrow> net_NewSocket net = None \<and> (\<forall>a. net_Listen net a = None) \<and> (\<forall>a. net_Dial net a = None)"

lemma dial_all_ok: "net_ok net \<Longrightarrow> dial_all net cs s = (Ret cs, s)"
  by (induction cs) (simp_all add: net_ok_def db_bind_def db_return_def)

lemma bus_clients_ok:
  "\<forall>p \<in> set es. \<exists>c. snd p = Sub c \<Longrightarrow>
   \<exists>cs. bus_clients pre es = Ret cs \<and> set cs = {pre @ out @ ''/'' @ k | out c k. (out, Sub c) \<in> set es \<and> k \<in> fst ` set (bents c)}"
proof (induction es)
  case (Cons p es)
  obtain out c where p: "p = (out, Sub c)" using Cons.prems by (cases p) auto
  from Cons obtain cs where cs: "bus_clients pre es = Ret cs"
    and set_cs: "set cs = {pre @ out @ ''/'' @ k | out c k. (out, Sub c) \<in> set es \<and> k \<in> fst ` set (bents c)}"
    by auto
  have "set (map (\<lambda>p. pre @ out @ ''/'' @ fst p) (bents c) @ cs) =
      {pre @ out @ ''/'' @ k | out c k. (out, Sub c) \<in> set (p # es) \<and> k \<in> fst ` set (bents c)}"
    unfolding set_append set_cs p by auto
  with cs show ?case by (auto simp: p)
qed simp

lemma bus_bucket_ok_empty: "bus_bucket_ok empty_bucket"
  by (simp add: bus_bucket_ok_def)

lemma child_ok: "stream_bucket_ok b \<Longrightarrow> bus_bucket_ok (child i b)"
  by (auto simp: stream_bucket_ok_def child_def bus_bucket_ok_empty split: option.splits entry.splits)

lemma stream_ok_no_leaf: "stream_bucket_ok b \<Longrightarrow> no_leaf i b"
  by (auto simp: stream_bucket_ok_def no_leaf_def)

lemma valid_FormatUint: "valid_key (strconv_FormatUint n)"
  using length_FormatUint [of n] by (simp add: valid_key_def MaxKeySize_def)

lemma word_less_succ: "w + 1 \<noteq> 0 \<Longrightarrow> w < w + 1" for w :: "'a::len word"
  using unatSuc [of w] by (simp add: word_less_nat_alt add.commute)

lemma bus_ok_fresh: "bus_bucket_ok c \<Longrightarrow> bseq c + 1 \<noteq> 0 \<Longrightarrow> ent (strconv_FormatUint (bseq c + 1)) c = None"
proof (rule ccontr)
  assume ok: "bus_bucket_ok c" and "bseq c + 1 \<noteq> 0" and "ent (strconv_FormatUint (bseq c + 1)) c \<noteq> None"
  then have "bseq c + 1 \<le> bseq c" by (auto simp: bus_bucket_ok_def)
  with \<open>bseq c + 1 \<noteq> 0\<close> show False using word_less_succ [of "bseq c"] by (simp add: leD)
qed

lemma bus_ok_add:
  assumes "bus_bucket_ok c" and "bseq c + 1 \<noteq> 0"
  shows "bus_bucket_ok (set_ent (strconv_FormatUint (bseq c + 1)) (Leaf v) (Bucket (bseq c + 1) (bents c)))"
proof -
  have le: "n \<le> bseq c + 1" if "n \<le> bseq c" for n
    using that assms(2) by (meson le_less_trans less_imp_le word_less_succ)
  have "ent k (Bucket (bseq c + 1) (bents c)) = ent k c" for k by (simp add: ent_def)
  moreover have "flat_bucket (Bucket (bseq c + 1) (bents c))"
    using assms(1) by (simp add: bus_bucket_ok_def flat_bucket_def)
  ultimately show ?thesis
    using assms(1) le by (auto simp: bus_bucket_ok_def flat_set_leaf split: if_splits)
qed


lemma sock_None [simp]: "sock None s = (Ret (), s)"
  by (simp add: sock_def db_return_def)

lemma errors_Wrap_Ret [simp]: "m s = (Ret a, s') \<Longrightarrow> errors_Wrap msg m s = (Ret a, s')"
  by (simp add: errors_Wrap_def db_catch_def)

text \<open>The state after the buckets of a new bus are there.\<close>

definition opened :: "string \<Rightarrow> string \<Rightarrow> bucket \<Rightarrow> db \<Rightarrow> db" where
  "opened streamID i r s =
     bkt_set [RiverBucket, streamID] (with_child i (child streamID r)) (bkt_set [RiverBucket] (with_child streamID r) s)"

definition joined :: "bucket \<Rightarrow> bucket" where
  "joined c = set_ent (strconv_FormatUint (bseq c + 1)) (Leaf (Raw [])) (Bucket (bseq c + 1) (bents c))"

lemma river_at:
  "bkt_at [RiverBucket] s = Some r \<Longrightarrow>
   bkt_at (RiverBucket # n # q) s = (case ent n r of Some (Sub c) \<Rightarrow> bkt_at q c | _ \<Rightarrow> None)"
  using bkt_at_ent [of "[RiverBucket]"] by simp

lemma opened_at:
  assumes r: "bkt_at [RiverBucket] s = Some r" and no: "no_leaf streamID r" "no_leaf i (child streamID r)"
  shows "bkt_at [RiverBucket, streamID, i] (opened streamID i r s) = Some (child i (child streamID r))"
    and "j \<noteq> i \<Longrightarrow> bkt_at [RiverBucket, streamID, j] (opened streamID i r s) = bkt_at [RiverBucket, streamID, j] s"
    and "t \<noteq> streamID \<Longrightarrow> bkt_at (RiverBucket # t # q) (opened streamID i r s) = bkt_at (RiverBucket # t # q) s"
    and "n \<noteq> RiverBucket \<Longrightarrow> bkt_at (n # q) (opened streamID i r s) = bkt_at (n # q) s"
proof -
  note [simp del] = bkt_at.simps bkt_set.simps
  have [simp]: "bkt_at [] b = Some b" for b by (simp add: bkt_at.simps)
  let ?s1 = "bkt_set [RiverBucket] (with_child streamID r) s"
  have s1: "bkt_at [RiverBucket, streamID] ?s1 = Some (child streamID r)"
    using bkt_at_create [OF r no(1), of streamID "[]"] by simp
  have below: "bkt_at ([RiverBucket, streamID] @ m # q) (opened streamID i r s) =
      (if m = i then bkt_at q (child i (child streamID r)) else bkt_at ([RiverBucket, streamID] @ m # q) ?s1)" for m q
    unfolding opened_def by (rule bkt_at_create [OF s1 no(2)])
  show "bkt_at [RiverBucket, streamID, i] (opened streamID i r s) = Some (child i (child streamID r))"
    using below [of i "[]"] by simp
  show "bkt_at [RiverBucket, streamID, j] (opened streamID i r s) = bkt_at [RiverBucket, streamID, j] s" if "j \<noteq> i"
  proof -
    have "bkt_at [RiverBucket, streamID, j] (opened streamID i r s) = bkt_at [RiverBucket, streamID, j] ?s1"
      using below [of j "[]"] that by simp
    also have "\<dots> = bkt_at [j] (child streamID r)"
      using bkt_at_create [OF r no(1), of streamID "[j]"] by simp
    also have "\<dots> = bkt_at [RiverBucket, streamID, j] s"
      unfolding river_at [OF r] child_def by (auto simp: bkt_at.simps split: option.splits entry.splits)
    finally show ?thesis .
  qed
  show "bkt_at (RiverBucket # t # q) (opened streamID i r s) = bkt_at (RiverBucket # t # q) s" if "t \<noteq> streamID"
    using that bkt_at_set_other [of streamID t "[RiverBucket]" q "[]" _ ?s1] bkt_at_create [OF r no(1), of t q]
    by (simp add: opened_def)
  show "bkt_at (n # q) (opened streamID i r s) = bkt_at (n # q) s" if "n \<noteq> RiverBucket"
    using that by (simp add: opened_def)
qed


lemma opened_keeps_streams:
  assumes "bkt_at [RiverBucket] s = Some r" and "no_leaf streamID r"
  shows "bkt_at [RiverBucket] (opened streamID i r s) =
    Some (set_ent streamID (Sub (with_child i (child streamID r))) (with_child streamID r))"
  using assms
  by (auto simp: opened_def ent_with_child split: option.splits entry.splits)

lemma NewBus_eq:
  assumes r: "bkt_at [RiverBucket] s = Some r" and no: "no_leaf streamID r"
    and ok: "stream_bucket_ok (child streamID r)" and net: "net_ok net"
    and ids: "streamID \<noteq> []" "i \<noteq> []"
    and c: "c = child i (child streamID r)" and seq: "bseq c + 1 \<noteq> 0"
    and cs: "bus_clients (''inproc://'' @ streamID @ ''/'') (bents (child streamID r)) = Ret cs"
  shows "river_NewBus net i streamID s =
    (Ret \<lparr>bus_id = bseq c + 1, bus_addr = bus_address streamID i (strconv_FormatUint (bseq c + 1)), bus_peers = cs\<rparr>,
     bkt_set [RiverBucket, streamID, i] (joined c) (opened streamID i r s))"
proof -
  note [simp del] = bkt_at.simps bkt_set.simps
  let ?s1 = "bkt_set [RiverBucket] (with_child streamID r) s"
  let ?s2 = "opened streamID i r s"
  let ?p = "[RiverBucket, streamID, i]"
  let ?s3 = "bkt_set ?p (Bucket (bseq c + 1) (bents c)) ?s2"
  have no_i: "no_leaf i (child streamID r)" using ok by (rule stream_ok_no_leaf)
  have ok_c: "bus_bucket_ok c" unfolding c using ok by (rule child_ok)
  have make: "store_MakeNestedBucket [RiverBucket] [streamID] s = (Ret [RiverBucket, streamID], ?s1)"
    by (simp add: db_bind_def on_bkt_create [OF r ids(1) no])
  have s1: "bkt_at [RiverBucket, streamID] ?s1 = Some (child streamID r)"
    using bkt_at_create [OF r no, of streamID "[]"] by (simp add: bkt_at.simps)
  have create: "on_bkt [RiverBucket, streamID] (Bucket_CreateBucketIfNotExists i) ?s1 = (Ret (), ?s2)"
    by (simp add: on_bkt_create [OF s1 ids(2) no_i] opened_def)
  have s2: "bkt_at ?p ?s2 = Some c" unfolding c by (rule opened_at(1) [OF r no no_i])
  have seq3: "next_sequence ?p ?s2 = (Ret (bseq c + 1), ?s3)"
    by (simp add: next_sequence_def s2 Bucket_NextSequence_def)
  have s3: "bkt_at ?p ?s3 = Some (Bucket (bseq c + 1) (bents c))" using s2 by (rule bkt_at_set_same)
  have "flat_bucket (Bucket (bseq c + 1) (bents c))" using ok_c by (simp add: bus_bucket_ok_def flat_bucket_def)
  then have put: "on_bkt ?p (Bucket_Put (strconv_FormatUint (bseq c + 1)) (Raw [])) ?s3 = (Ret (), bkt_set ?p (joined c) ?s2)"
    using valid_FormatUint [of "bseq c + 1"] s2
    by (simp add: on_bkt_def s3 flat_Put valid_key_def joined_def)
  from net have nets: "net_NewSocket net = None" "\<And>a. net_Listen net a = None"
    by (simp_all add: net_ok_def)
  show ?thesis
    by (simp add: river_NewBus_def db_bind_def errors_Wrap_def db_catch_def db_return_def make rd_bkt_def s1 cs [simplified] create nets seq3 put
        dial_all_ok [OF net] del: store_MakeNestedBucket.simps)
qed


lemma stream_ok_set:
  "stream_bucket_ok b \<Longrightarrow> bus_bucket_ok c \<Longrightarrow> stream_bucket_ok (set_ent i (Sub c) b)"
  by (auto simp: stream_bucket_ok_def split: if_splits)

lemma rivers_ok_wf: "rivers_ok streamID s \<Longrightarrow> wf_bucket s"
  by (simp add: rivers_ok_def)

lemma river_pathE:
  assumes "rivers_ok streamID s" and "bkt_at [RiverBucket, streamID, i] s = Some c"
  obtains r b where "bkt_at [RiverBucket] s = Some r" and "no_leaf streamID r" and "stream_bucket_ok b"
    and "ent streamID r = Some (Sub b)" and "ent i b = Some (Sub c)"
proof -
  obtain r where r: "bkt_at [RiverBucket] s = Some r" "no_leaf streamID r" "stream_bucket_ok (child streamID r)"
    using assms(1) unfolding rivers_ok_def by blast
  from assms(2) obtain b where "ent streamID r = Some (Sub b)" "ent i b = Some (Sub c)"
    unfolding river_at [OF r(1)] by (auto split: option.splits entry.splits)
  with r show thesis by (intro that) (simp_all add: child_def)
qed

text \<open>Replacing the bucket of one name changes its numbers and nothing else.\<close>

lemma rivers_set:
  assumes ok: "rivers_ok streamID s" and at: "bkt_at [RiverBucket, streamID, i] s = Some c"
    and c': "bus_bucket_ok c'" "wf_bucket c'"
  shows "rivers_ok streamID (bkt_set [RiverBucket, streamID, i] c' s)"
    and "rivers_of (bkt_set [RiverBucket, streamID, i] c' s) streamID =
      {(j, n) \<in> rivers_of s streamID. j \<noteq> i} \<union> {(i, n) | n. ent (strconv_FormatUint n) c' \<noteq> None}"
    and "t \<noteq> streamID \<Longrightarrow> rivers_of (bkt_set [RiverBucket, streamID, i] c' s) t = rivers_of s t"
proof -
  let ?s' = "bkt_set [RiverBucket, streamID, i] c' s"
  have same: "bkt_at [RiverBucket, streamID, i] ?s' = Some c'" using at by (rule bkt_at_set_same)
  have other: "bkt_at [RiverBucket, streamID, j] ?s' = bkt_at [RiverBucket, streamID, j] s" if "j \<noteq> i" for j
    using bkt_at_set_other [of i j "[RiverBucket, streamID]" "[]" "[]"] that by (simp del: bkt_at.simps bkt_set.simps)
  show "rivers_of ?s' streamID =
      {(j, n) \<in> rivers_of s streamID. j \<noteq> i} \<union> {(i, n) | n. ent (strconv_FormatUint n) c' \<noteq> None}"
  proof -
    have "(j, n) \<in> rivers_of ?s' streamID \<longleftrightarrow>
        (if j = i then ent (strconv_FormatUint n) c' \<noteq> None else (j, n) \<in> rivers_of s streamID)" for j n
      unfolding rivers_of_def using same other [of j] by (cases "j = i") (simp_all del: bkt_at.simps bkt_set.simps)
    then show ?thesis by auto
  qed
  show "rivers_of ?s' t = rivers_of s t" if "t \<noteq> streamID"
    using bkt_at_set_other [of streamID t "[RiverBucket]" _ "[i]"] that
    by (simp add: rivers_of_def del: bkt_at.simps bkt_set.simps)
  obtain r b where r: "bkt_at [RiverBucket] s = Some r" "no_leaf streamID r" "stream_bucket_ok b"
    and b: "ent streamID r = Some (Sub b)" "ent i b = Some (Sub c)"
    using river_pathE [OF ok at] .
  have "bkt_at [RiverBucket] ?s' = Some (set_ent streamID (Sub (set_ent i (Sub c') b)) r)"
    using r(1) b by (auto split: option.splits entry.splits)
  moreover have "stream_bucket_ok (set_ent i (Sub c') b)"
    using r(3) c'(1) by (rule stream_ok_set)
  moreover have "wf_bucket ?s'" using ok c'(2) unfolding rivers_ok_def by (simp add: wf_bkt_set del: bkt_set.simps)
  ultimately show "rivers_ok streamID ?s'"
    unfolding rivers_ok_def by (simp add: no_leaf_def child_def del: bkt_at.simps bkt_set.simps)
qed

lemma rivers_opened:
  assumes ok: "rivers_ok streamID s" and r: "bkt_at [RiverBucket] s = Some r"
  shows "rivers_ok streamID (opened streamID i r s)" and "rivers_of (opened streamID i r s) = rivers_of s"
proof -
  have no: "no_leaf streamID r" and str: "stream_bucket_ok (child streamID r)" and wf: "wf_bucket s"
    using ok r by (auto simp: rivers_ok_def simp del: bkt_at.simps)
  have no_i: "no_leaf i (child streamID r)" using str by (rule stream_ok_no_leaf)
  note at = opened_at [OF r no no_i]
  have wf_r: "wf_bucket r" using wf r by (rule wf_bkt_at)
  have wf_child: "wf_bucket (child n b)" if "wf_bucket b" for n b
    using that by (auto simp: child_def split: option.splits entry.splits dest: wf_ent)
  have wf_with: "wf_bucket (with_child n b)" if "wf_bucket b" for n b
    using that by (auto simp: with_child_def wf_set_ent split: option.splits entry.splits)
  have "wf_bucket (opened streamID i r s)"
    unfolding opened_def by (intro wf_bkt_set wf wf_with wf_child wf_r)
  moreover have "stream_bucket_ok (with_child i (child streamID r))"
    using str by (auto simp: with_child_def stream_ok_set bus_bucket_ok_empty split: option.splits entry.splits)
  ultimately show "rivers_ok streamID (opened streamID i r s)"
    unfolding rivers_ok_def opened_keeps_streams [OF r no] by (simp add: no_leaf_def child_def)
  have "(j, n) \<in> rivers_of (opened streamID i r s) t \<longleftrightarrow> (j, n) \<in> rivers_of s t" for t j n
  proof (cases "t = streamID \<and> j = i")
    case True
    have "bkt_at [RiverBucket, streamID, i] s = Some c \<Longrightarrow> child i (child streamID r) = c" for c
      by (auto simp: river_at [OF r] child_def simp del: bkt_at.simps split: option.splits entry.splits)
        (auto split: option.splits entry.splits)
    moreover have "ent k (child i (child streamID r)) \<noteq> None \<Longrightarrow> bkt_at [RiverBucket, streamID, i] s \<noteq> None" for k
      by (auto simp: river_at [OF r] child_def simp del: bkt_at.simps(2) split: option.splits entry.splits)
        (auto split: option.splits entry.splits)
    ultimately show ?thesis
      using True at(1) by (fastforce simp: rivers_of_def simp del: bkt_at.simps)
  next
    case False
    then have "bkt_at [RiverBucket, t, j] (opened streamID i r s) = bkt_at [RiverBucket, t, j] s"
      using at(2) [of j] at(3) [of t "[j]"] by auto
    then show ?thesis by (simp add: rivers_of_def del: bkt_at.simps)
  qed
  then show "rivers_of (opened streamID i r s) = rivers_of s" by auto
qed


lemma DeleteBus_refines:
  assumes ok: "rivers_ok streamID s" and at: "bkt_at [RiverBucket, streamID, i] s = Some c"
  shows "\<exists>s'. river_DeleteBus i streamID n s = (Ret (), s') \<and> rivers_ok streamID s' \<and>
    rivers_of s' streamID = rivers_of s streamID - {(i, n)}"
proof -
  let ?p = "[RiverBucket, streamID, i]"
  let ?c' = "del_ent (strconv_FormatUint n) c"
  obtain r b where r: "bkt_at [RiverBucket] s = Some r" and str: "stream_bucket_ok b"
    and b0: "ent streamID r = Some (Sub b)" and c: "ent i b = Some (Sub c)"
    using river_pathE [OF ok at] .
  have b: "bkt_at [RiverBucket, streamID] s = Some b" by (simp only: river_at [OF r] b0) simp
  have ok_c: "bus_bucket_ok c" using str c by (auto simp: stream_bucket_ok_def)
  then have ok_c': "bus_bucket_ok ?c'" by (auto simp: bus_bucket_ok_def flat_del)
  have "wf_bucket c" by (rule wf_bkt_at [OF rivers_ok_wf [OF ok] at])
  then have wf_c': "wf_bucket ?c'" by (rule wf_del_ent)
  have "store_GetNestedBucket [RiverBucket] [streamID, i] s = (Ret ?p, s)"
    by (simp add: r b at del: bkt_at.simps)
  then have "river_DeleteBus i streamID n s = (Ret (), bkt_set ?p ?c' s)"
    using ok_c at
    by (simp add: river_DeleteBus_def river_bucket_def db_bind_def db_catch_def on_bkt_def bus_bucket_ok_def flat_Delete
        del: bkt_at.simps bkt_set.simps store_GetNestedBucket.simps)
  moreover note rivers_set(1,2) [OF ok at ok_c' wf_c']
  moreover have "{(j, m) \<in> rivers_of s streamID. j \<noteq> i} \<union> {(i, m) | m. ent (strconv_FormatUint m) ?c' \<noteq> None} =
      rivers_of s streamID - {(i, n)}"
    using at by (auto simp: rivers_of_def simp del: bkt_at.simps)
  ultimately show ?thesis by (intro exI [where x = "bkt_set ?p ?c' s"]) simp
qed

lemma bus_peers_set:
  assumes ok: "rivers_ok streamID s" and r: "bkt_at [RiverBucket] s = Some r"
  obtains cs where "bus_clients (''inproc://'' @ streamID @ ''/'') (bents (child streamID r)) = Ret cs"
    and "set cs = (\<lambda>(i, n). bus_address streamID i (strconv_FormatUint n)) ` rivers_of s streamID"
proof -
  let ?b = "child streamID r"
  have str: "stream_bucket_ok ?b" and wf: "wf_bucket s" using ok r by (auto simp: rivers_ok_def simp del: bkt_at.simps)
  have wf_b: "wf_bucket ?b"
    using wf_bkt_at [OF wf r] by (auto simp: child_def split: option.splits entry.splits dest: wf_ent)
  then have mem: "(k, e) \<in> set (bents ?b) \<longleftrightarrow> ent k ?b = Some e" for k e
    by (cases ?b) (simp add: ent_def al_sorted_distinct)
  have "\<forall>p \<in> set (bents ?b). \<exists>c. snd p = Sub c" using str mem by (force simp: stream_bucket_ok_def)
  from bus_clients_ok [OF this, of "''inproc://'' @ streamID @ ''/''"] obtain cs where
    cs: "bus_clients (''inproc://'' @ streamID @ ''/'') (bents ?b) = Ret cs"
    and set_cs: "set cs = {(''inproc://'' @ streamID @ ''/'') @ out @ ''/'' @ k | out c k.
      (out, Sub c) \<in> set (bents ?b) \<and> k \<in> fst ` set (bents c)}" by blast
  have at: "bkt_at [RiverBucket, streamID, i] s = Some c \<longleftrightarrow> ent i ?b = Some (Sub c)" for i c
    by (auto simp: river_at [OF r] child_def simp del: bkt_at.simps split: option.splits entry.splits)
      (auto split: option.splits entry.splits)
  have keys: "k \<in> fst ` set (bents c) \<longleftrightarrow> (\<exists>n. k = strconv_FormatUint n \<and> ent (strconv_FormatUint n) c \<noteq> None)"
    if "ent i ?b = Some (Sub c)" for i c k
  proof -
    have "bus_bucket_ok c" using str that by (auto simp: stream_bucket_ok_def)
    then have "ent k c \<noteq> None \<longrightarrow> (\<exists>n. k = strconv_FormatUint n)" by (auto simp: bus_bucket_ok_def)
    then show ?thesis unfolding ent_def map_of_eq_None_iff by metis
  qed
  have "x \<in> set cs \<longleftrightarrow> (\<exists>i c n. x = bus_address streamID i (strconv_FormatUint n) \<and> ent i ?b = Some (Sub c) \<and>
      ent (strconv_FormatUint n) c \<noteq> None)" for x
    unfolding set_cs mem bus_address_def mem_Collect_eq append_assoc by (auto simp: keys cong: conj_cong) blast
  then have "set cs = (\<lambda>(i, n). bus_address streamID i (strconv_FormatUint n)) ` rivers_of s streamID"
    unfolding rivers_of_def at set_eq_iff image_iff by (simp add: Bex_def) blast
  then show thesis by (rule that [OF cs])
qed

text \<open>
  C11 (NewBus_refines).  The register of buses refines a set of (name, number) pairs: with working
  sockets \<^verbatim>\<open>NewBus\<close> dials exactly the buses that are registered for the stream, takes a number
  that is not in use and adds it; the other streams keep theirs, and \<^verbatim>\<open>DeleteBus\<close> takes exactly
  this bus out again.
\<close>

theorem NewBus_refines:
  assumes ok: "rivers_ok streamID s" and net: "net_ok net" and ids: "streamID \<noteq> []" "i \<noteq> []"
    and room: "\<forall>c. bkt_at [RiverBucket, streamID, i] s = Some c \<longrightarrow> bseq c + 1 \<noteq> 0"
  shows "\<exists>b s'. river_NewBus net i streamID s = (Ret b, s') \<and> rivers_ok streamID s' \<and>
    set (bus_peers b) = (\<lambda>(j, n). bus_address streamID j (strconv_FormatUint n)) ` rivers_of s streamID \<and>
    (i, bus_id b) \<notin> rivers_of s streamID \<and>
    rivers_of s' streamID = insert (i, bus_id b) (rivers_of s streamID) \<and>
    (\<forall>t. t \<noteq> streamID \<longrightarrow> rivers_of s' t = rivers_of s t) \<and>
    (\<exists>s''. river_DeleteBus i streamID (bus_id b) s' = (Ret (), s'') \<and> rivers_of s'' streamID = rivers_of s streamID)"
proof -
  obtain r where r: "bkt_at [RiverBucket] s = Some r" "no_leaf streamID r" "stream_bucket_ok (child streamID r)"
    using ok unfolding rivers_ok_def by auto
  obtain cs where cs: "bus_clients (''inproc://'' @ streamID @ ''/'') (bents (child streamID r)) = Ret cs"
    and peers: "set cs = (\<lambda>(j, n). bus_address streamID j (strconv_FormatUint n)) ` rivers_of s streamID"
    using bus_peers_set [OF ok r(1)] .
  define c where "c = child i (child streamID r)"
  let ?s2 = "opened streamID i r s" and ?p = "[RiverBucket, streamID, i]"
  let ?s' = "bkt_set ?p (joined c) ?s2"
  have at: "bkt_at ?p s = Some c \<or> bkt_at ?p s = None \<and> c = empty_bucket"
    unfolding c_def river_at [OF r(1)] child_def by (auto split: option.splits entry.splits)
  then have seq: "bseq c + 1 \<noteq> 0" using room by (auto simp: empty_bucket_def simp del: bkt_at.simps)
  have ok_c: "bus_bucket_ok c" unfolding c_def using r(3) by (rule child_ok)
  note fresh = bus_ok_fresh [OF ok_c seq]
  have new: "river_NewBus net i streamID s =
      (Ret \<lparr>bus_id = bseq c + 1, bus_addr = bus_address streamID i (strconv_FormatUint (bseq c + 1)), bus_peers = cs\<rparr>, ?s')"
    by (rule NewBus_eq [OF r net ids c_def seq cs])
  note opens = rivers_opened [OF ok r(1), of i]
  have s2: "bkt_at ?p ?s2 = Some c"
    unfolding c_def by (rule opened_at(1) [OF r(1,2) stream_ok_no_leaf [OF r(3)]])
  have wf_c: "wf_bucket c" by (rule wf_bkt_at [OF rivers_ok_wf [OF opens(1)] s2])
  have wf_j: "wf_bucket (joined c)"
    unfolding joined_def using wf_c by (cases c) (auto intro!: wf_set_ent)
  have ok_j: "bus_bucket_ok (joined c)" unfolding joined_def by (rule bus_ok_add [OF ok_c seq])
  have ent_j: "ent (strconv_FormatUint n) (joined c) \<noteq> None \<longleftrightarrow> n = bseq c + 1 \<or> ent (strconv_FormatUint n) c \<noteq> None" for n
    by (simp add: joined_def) (simp add: ent_def)
  have mine: "(i, n) \<in> rivers_of s streamID \<longleftrightarrow> ent (strconv_FormatUint n) c \<noteq> None" for n
    using at by (auto simp: rivers_of_def simp del: bkt_at.simps)
  note set = rivers_set [OF opens(1) s2 ok_j wf_j, unfolded opens(2)]
  have after: "rivers_of ?s' streamID = insert (i, bseq c + 1) (rivers_of s streamID)"
    unfolding set(2) using ent_j mine by auto
  have gone: "(i, bseq c + 1) \<notin> rivers_of s streamID" using fresh by (simp add: mine)
  have s': "bkt_at ?p ?s' = Some (joined c)" using s2 by (rule bkt_at_set_same)
  have del: "\<exists>s''. river_DeleteBus i streamID (bseq c + 1) ?s' = (Ret (), s'') \<and> rivers_of s'' streamID = rivers_of s streamID"
    using DeleteBus_refines [OF set(1) s', of "bseq c + 1"] after gone by auto
  show ?thesis
    unfolding new
    by (rule exI, rule exI [where x = ?s'], intro conjI allI impI, rule refl)
      (simp_all add: set(1,3) after gone peers del del: bkt_set.simps)
qed


definition demo_net :: net where
  "demo_net = \<lparr>net_NewSocket = None, net_SetOption = \<lambda>_. None, net_Listen = \<lambda>_. None, net_Dial = \<lambda>_. None, net_Close = None\<rparr>"

lemma rivers_ok_fresh: "rivers_ok t (db_of [RiverBucket])"
  by (simp add: rivers_ok_def ent_db_of no_leaf_def stream_bucket_ok_def child_def)

theorem NewBus_refines_witness:
  "\<exists>b s'. river_NewBus demo_net ''ann'' ''s1'' (db_of [RiverBucket]) = (Ret b, s') \<and> bus_peers b = [] \<and>
    rivers_of s' ''s1'' = {(''ann'', bus_id b)}"
proof -
  have none: "rivers_of (db_of [RiverBucket]) t = {}" for t
    by (simp add: rivers_of_def ent_db_of)
  show ?thesis
    using NewBus_refines [of "''s1''" "db_of [RiverBucket]" demo_net "''ann''"] rivers_ok_fresh
    by (auto simp: none demo_net_def net_ok_def ent_db_of)
qed

end
