(* ===== verification/Notifs.thy ===== *)
theory Notifs
  imports River
begin

text \<open>
  Notifications (\<^verbatim>\<open>notif/notif.go\<close>, \<^verbatim>\<open>notif/encode.go\<close>).  The topic of a user is one prefix byte
  and the BLAKE2b hash of the user's name; a message is the topic's code followed by the
  document.  A subscriber socket passes on a message when one of the subscribed codes is a
  prefix of it (the \<^verbatim>\<open>receiver\<close> loop of mangos' \<^verbatim>\<open>sub\<close> protocol), and \<^verbatim>\<open>sub.Recv\<close> removes the
  topic.  The locale \<open>topic\<close> is what the \<^verbatim>\<open>Topic\<close> interface asks of an implementation.
\<close>

section \<open>Topics of users\<close>

definition notif_River :: string where "notif_River = ''notifs''"
definition UserPrefix :: char where "UserPrefix = CHR 0x01"
definition userTopicSize :: nat where "userTopicSize = 65"

definition notif_MakeUserTopic :: "string \<Rightarrow> Topic" where
  "notif_MakeUserTopic u =
     (let t = blake2b_Sum512 u
      in \<lparr>tp_Prefix = UserPrefix, tp_Code = UserPrefix # t,
          tp_Name = ''user '' @ base64_Std_Encode t, tp_Len = userTopicSize\<rparr>)"

definition notif_Topics :: "string \<Rightarrow> Topic list" where
  "notif_Topics userID = [notif_MakeUserTopic userID]"

section \<open>Delivery\<close>

text \<open>What a subscriber reads after a message was sent: nothing when no subscription matches.\<close>

definition sub_matches :: "sub \<Rightarrow> bytes \<Rightarrow> bool" where
  "sub_matches x bs \<longleftrightarrow> list_ex (\<lambda>p. bytes_HasPrefix bs (tp_Code (snd p))) (sub_topics x)"

definition deliver :: "sub \<Rightarrow> bytes \<Rightarrow> bytes go option" where
  "deliver x bs = (if sub_matches x bs then Some (river_sub_Recv x (Ret bs)) else None)"

text \<open>What a topic promises: its code starts with its prefix and has its length.\<close>

locale topic =
  fixes t :: Topic
  assumes code_prefix: "tp_Code t \<noteq> [] \<and> hd (tp_Code t) = tp_Prefix t"
    and code_len: "length (tp_Code t) = tp_Len t"
begin

lemma Recv_BytesFor:
  "map_of (sub_topics x) (tp_Prefix t) = Some t \<Longrightarrow> river_sub_Recv x (Ret (river_BytesFor t bs)) = Ret bs"
  using code_prefix code_len by (simp add: river_sub_Recv_def river_BytesFor_def)

lemma deliver_BytesFor: "sub_topics x = [(tp_Prefix t, t)] \<Longrightarrow> deliver x (river_BytesFor t bs) = Some (Ret bs)"
  by (simp add: deliver_def sub_matches_def Recv_BytesFor) (simp add: river_BytesFor_def)

end

interpretation global: topic river_Global
  by unfold_locales (simp_all add: river_Global_def)

interpretation user_topic: topic "notif_MakeUserTopic u"
  by unfold_locales (simp_all add: notif_MakeUserTopic_def Let_def userTopicSize_def)

lemma NewSub_topics:
  assumes "river_NewSub net streamID (notif_Topics u) s = (Ret x, s')"
  shows "sub_topics x = [(UserPrefix, notif_MakeUserTopic u)] \<and> s' = s"
proof -
  have "m = [(UserPrefix, notif_MakeUserTopic u)]" if "topic_map net (notif_Topics u) [] = Ret m" for m
    using that by (auto simp: notif_Topics_def notif_MakeUserTopic_def Let_def split: option.splits)
  moreover have "snd (dial_all net cs s) = s" for cs s
    by (induction cs) (auto simp: db_bind_def db_return_def split: option.splits prod.splits go.splits)
  moreover have "notif_Topics u \<noteq> []" by (simp add: notif_Topics_def)
  ultimately show ?thesis
    using assms
    by (auto simp: river_NewSub_def db_bind_Ret rd_bkt_def db_return_def errors_Wrap_def db_catch_def sock_def db_fail_def
        simp del: bkt_at.simps split: option.splits prod.splits go.splits)
      (metis snd_conv)
qed

section \<open>Property\<close>

text \<open>
  C40 (notif_delivery).  The subscriber that the notification endpoint makes for user \<open>u\<close> reads
  the document of every notification that is sent to \<open>u\<close>, whole and without the topic, and none
  that is sent to another user, unless the two names have the same hash.
\<close>

theorem notif_delivery:
  assumes "river_NewSub net notif_River (notif_Topics u) s = (Ret x, s')"
  shows "deliver x (river_BytesFor (notif_MakeUserTopic v) box) =
    (if blake2b_Sum512 v = blake2b_Sum512 u then Some (Ret box) else None)"
proof (cases "blake2b_Sum512 v = blake2b_Sum512 u")
  case True
  then have "notif_MakeUserTopic v = notif_MakeUserTopic u" by (simp add: notif_MakeUserTopic_def)
  with True NewSub_topics [OF assms] user_topic.deliver_BytesFor [of x u box] show ?thesis
    by (simp add: notif_MakeUserTopic_def Let_def)
next
  case False
  with NewSub_topics [OF assms] show ?thesis
    by (simp add: deliver_def sub_matches_def bytes_HasPrefix_def river_BytesFor_def notif_MakeUserTopic_def Let_def)
qed

definition demo_notif_db :: db where
  "demo_notif_db = Bucket 0 [(RiverBucket, Sub (Bucket 0 [(notif_River, Sub (Bucket 0 [(''tasks'', Leaf (Raw []))]))]))]"

theorem notif_delivery_witness:
  "\<exists>x. river_NewSub demo_net notif_River (notif_Topics ''ann'') demo_notif_db = (Ret x, demo_notif_db) \<and>
     deliver x (river_BytesFor (notif_MakeUserTopic ''ann'') ''hello'') = Some (Ret ''hello'')"
proof -
  have "\<exists>x. river_NewSub demo_net notif_River (notif_Topics ''ann'') demo_notif_db = (Ret x, demo_notif_db)"
    by (simp add: river_NewSub_def db_bind_def rd_bkt_def demo_notif_db_def ent_def demo_net_def notif_Topics_def
        errors_Wrap_def db_catch_def db_return_def)
  then show ?thesis using notif_delivery [of demo_net "''ann''" demo_notif_db _ _ "''ann''"] by force
qed

end
