(* ===== verification/Streams.thy ===== *)
theory Streams
  imports Users Frames
begin

text \<open>
  Streams and convos (\<^verbatim>\<open>stream/stream.go\<close>, \<^verbatim>\<open>convo/convo.go\<close> with their errors and
  notifications).  A convo is a stream of another bucket, and the two packages repeat the same
  functions.  The locale \<open>group_table\<close> is what both promise to the handlers: a table of streams
  by ID with its own errors; it is interpreted on the functions of either package.
\<close>

section \<open>Data\<close>

record Stream =
  str_Group :: Group
  str_ID :: string
  str_Name :: string

type_synonym Convo = Stream

definition zero_Stream :: Stream where
  "zero_Stream = \<lparr>str_Group = zero_Group, str_ID = [], str_Name = []\<rparr>"

definition enc_Stream :: "Stream \<Rightarrow> json" where
  "enc_Stream x = JObj (enc_Group (str_Group x) @ [(''id'', JStr (str_ID x)), (''name'', JStr (str_Name x))])"

definition dec_Stream :: "json \<Rightarrow> Stream \<Rightarrow> Stream option" where
  "dec_Stream j x =
     (if is_obj j then do {
        g \<leftarrow> dec_Group j (str_Group x);
        i \<leftarrow> dec_str (jfield ''id'' j) (str_ID x);
        n \<leftarrow> dec_str (jfield ''name'' j) (str_Name x);
        Some \<lparr>str_Group = g, str_ID = i, str_Name = n\<rparr>
      } else None)"

definition StreamBucket :: bytes where "StreamBucket = ''streams''"
definition ConvoBucket :: bytes where "ConvoBucket = ''convos''"
definition ScribeBucket :: bytes where "ScribeBucket = ''scribes''"
definition MessageBucket :: bytes where "MessageBucket = ''messages''"

section \<open>Errors\<close>

fun stream_IsMissing :: "err \<Rightarrow> bool" where
  "stream_IsMissing (stream_errMissing _) = True"
| "stream_IsMissing _ = False"

fun stream_IsExists :: "err \<Rightarrow> bool" where
  "stream_IsExists (stream_errExists _) = True"
| "stream_IsExists _ = False"

fun convo_IsMissing :: "err \<Rightarrow> bool" where
  "convo_IsMissing (convo_errMissing _) = True"
| "convo_IsMissing _ = False"

fun convo_IsExists :: "err \<Rightarrow> bool" where
  "convo_IsExists (convo_errExists _) = True"
| "convo_IsExists _ = False"

section \<open>Streams\<close>

definition stream_CheckNotExist :: "string \<Rightarrow> unit dbop" where
  "stream_CheckNotExist i =
     db_catch (store_CheckNotExist StreamBucket i)
       (\<lambda>e. if store_IsExists e then db_fail (stream_errExists i) else db_fail e)"

definition stream_CheckExists :: "string \<Rightarrow> unit dbop" where
  "stream_CheckExists i =
     db_catch (store_CheckExists StreamBucket i)
       (\<lambda>e. if store_IsMissing e then db_fail (stream_errMissing i) else db_fail e)"

definition stream_Get :: "Stream \<Rightarrow> string \<Rightarrow> Stream dbop" where
  "stream_Get x i =
     db_catch (store_Unmarshal dec_Stream StreamBucket x i)
       (\<lambda>e. if store_IsMissing e then db_fail (stream_errMissing i) else db_fail e)"

definition stream_GetAll_step ::
    "string \<Rightarrow> users_Filter list \<Rightarrow> bytes \<times> val option \<Rightarrow> Stream list \<Rightarrow> Stream list go" where
  "stream_GetAll_step user filters kv result =
     go_bind (json_Unmarshal_item dec_Stream (snd kv) zero_Stream) (\<lambda>next.
       if \<not> users_Member (users_defaultFilter user) (str_Group next) then Ret result
       else if \<not> users_Member (users_MultiAnd filters) (str_Group next) then Ret result
       else Ret (result @ [next]))"

definition stream_GetAll :: "string \<Rightarrow> users_Filter list \<Rightarrow> Stream list dbop" where
  "stream_GetAll user filters = store_ForEach StreamBucket (stream_GetAll_step user filters) []"

definition stream_Upsert :: "Stream \<Rightarrow> unit dbop" where
  "stream_Upsert x = store_Marshal enc_Stream StreamBucket x (str_ID x)"

definition stream_Delete :: "string \<Rightarrow> unit dbop" where
  "stream_Delete i = store_Delete StreamBucket i"

section \<open>Convos\<close>

definition convo_CheckNotExist :: "string \<Rightarrow> unit dbop" where
  "convo_CheckNotExist i =
     db_catch (store_CheckNotExist ConvoBucket i)
       (\<lambda>e. if store_IsExists e then db_fail (convo_errExists i) else db_fail e)"

definition convo_CheckExists :: "string \<Rightarrow> unit dbop" where
  "convo_CheckExists i =
     db_catch (store_CheckExists ConvoBucket i)
       (\<lambda>e. if store_IsMissing e then db_fail (convo_errMissing i) else db_fail e)"

definition convo_Get :: "Convo \<Rightarrow> string \<Rightarrow> Convo dbop" where
  "convo_Get c i =
     db_catch (store_Unmarshal dec_Stream ConvoBucket c i)
       (\<lambda>e. if store_IsMissing e then db_fail (convo_errMissing i) else db_fail e)"

definition convo_Upsert :: "Convo \<Rightarrow> unit dbop" where
  "convo_Upsert c = store_Marshal enc_Stream ConvoBucket c (str_ID c)"

definition convo_Delete :: "bytes \<Rightarrow> unit dbop" where
  "convo_Delete i = store_Delete ConvoBucket i"

definition convo_GetAll_step ::
    "string \<Rightarrow> users_Filter list \<Rightarrow> bytes \<times> val option \<Rightarrow> Convo list \<Rightarrow> Convo list go" where
  "convo_GetAll_step user filters kv result =
     go_bind (json_Unmarshal_item dec_Stream (snd kv) zero_Stream) (\<lambda>next.
       if \<not> users_Member (users_defaultFilter user) (str_Group next) then Ret result
       else if \<not> users_Member (users_MultiAnd filters) (str_Group next) then Ret result
       else Ret (result @ [next]))"

definition convo_GetAll :: "string \<Rightarrow> users_Filter list \<Rightarrow> Convo list dbop" where
  "convo_GetAll user filters = store_ForEach ConvoBucket (convo_GetAll_step user filters) []"

section \<open>Notifications\<close>

text \<open>The resource name and the contents of the connection notifications.\<close>

definition stream_Connected :: "Stream \<Rightarrow> string \<Rightarrow> string \<times> json" where
  "stream_Connected x user =
     (''stream-connected'', JObj [(''userID'', JStr user), (''streamID'', JStr (str_ID x))])"

definition stream_Disconnected :: "Stream \<Rightarrow> string \<Rightarrow> string \<times> json" where
  "stream_Disconnected x user =
     (''stream-disconnected'', JObj [(''userID'', JStr user), (''streamID'', JStr (str_ID x))])"

definition convo_Connected :: "Convo \<Rightarrow> string \<Rightarrow> string \<times> json" where
  "convo_Connected c user =
     (''convo-connected'', JObj [(''userID'', JStr user), (''convoID'', JStr (str_ID c))])"

definition convo_Disconnected :: "Convo \<Rightarrow> string \<Rightarrow> string \<times> json" where
  "convo_Disconnected c user =
     (''convo-disconnected'', JObj [(''userID'', JStr user), (''convoID'', JStr (str_ID c))])"

section \<open>The contract\<close>

definition stream_ok :: "Stream \<Rightarrow> bool" where
  "stream_ok x \<longleftrightarrow> group_ok (str_Group x)"

lemma dec_enc_Stream: "stream_ok x \<Longrightarrow> dec_Stream (enc_Stream x) zero_Stream = Some x"
  by (cases x) (simp add: dec_Stream_def enc_Stream_def zero_Stream_def dec_Group_def enc_Group_def zero_Group_def
      stream_ok_def group_ok_def)

interpretation stream_codec: json_codec enc_Stream dec_Stream zero_Stream stream_ok
  by unfold_locales (rule dec_enc_Stream)

abbreviation streams_in :: "bytes \<Rightarrow> (string \<rightharpoonup> Stream) \<Rightarrow> db \<Rightarrow> bool" where
  "streams_in b t s \<equiv> holds_tbl enc_Stream stream_ok b t s"

text \<open>Whether \<open>user\<close> sees the stream in a listing with the given filters.\<close>

definition listed :: "string \<Rightarrow> users_Filter list \<Rightarrow> Stream \<Rightarrow> bool" where
  "listed user filters x \<longleftrightarrow>
     (g_Owner (str_Group x) = user \<or> smap_get (g_Readers (str_Group x)) user \<or> smap_get (g_Writers (str_Group x)) user)
     \<and> (\<forall>f \<in> set filters. users_Member f (str_Group x))"

locale group_table =
  fixes bkt :: bytes
    and errMissing :: "string \<Rightarrow> err"
    and errExists :: "string \<Rightarrow> err"
    and CheckNotExist :: "string \<Rightarrow> unit dbop"
    and CheckExists :: "string \<Rightarrow> unit dbop"
    and Get :: "Stream \<Rightarrow> string \<Rightarrow> Stream dbop"
    and GetAll :: "string \<Rightarrow> users_Filter list \<Rightarrow> Stream list dbop"
    and Upsert :: "Stream \<Rightarrow> unit dbop"
    and Delete :: "string \<Rightarrow> unit dbop"
  assumes CheckNotExist_eq:
      "has_tbl bkt s \<Longrightarrow> CheckNotExist i s = (if table s bkt i = None then Ret () else Fail (errExists i), s)"
    and CheckExists_eq:
      "has_tbl bkt s \<Longrightarrow> CheckExists i s = (if table s bkt i = None then Fail (errMissing i) else Ret (), s)"
    and Get_eq: "streams_in bkt t s \<Longrightarrow> Get zero_Stream i s = (go_of_option (errMissing i) (t i), s)"
    and GetAll_eq: "wf_bucket s \<Longrightarrow> streams_in bkt t s \<Longrightarrow>
      \<exists>xs. GetAll user filters s = (Ret xs, s) \<and> set xs = {x \<in> ran t. listed user filters x}"
    and Upsert_eq: "has_tbl bkt s \<Longrightarrow> valid_key (str_ID x) \<Longrightarrow>
      Upsert x s = (Ret (), db_put bkt (str_ID x) (Doc (enc_Stream x)) s)"
    and Delete_eq: "has_tbl bkt s \<Longrightarrow> Delete i s = (Ret (), db_del bkt i s)"
begin

lemma streams_in_put:
  "streams_in bkt t s \<Longrightarrow> stream_ok x \<Longrightarrow> valid_key (str_ID x) \<Longrightarrow>
   streams_in bkt (t(str_ID x \<mapsto> x)) (db_put bkt (str_ID x) (Doc (enc_Stream x)) s)"
  by (rule stream_codec.holds_Marshal(2))

lemma streams_in_del: "streams_in bkt t s \<Longrightarrow> streams_in bkt (t(i := None)) (db_del bkt i s)"
  by (rule stream_codec.holds_Delete(2))

lemma in_has_tbl: "streams_in bkt t s \<Longrightarrow> has_tbl bkt s"
  by (simp add: holds_tbl_def)

text \<open>What was stored is read back under its ID, and nothing else changes.\<close>

lemma Get_after_Upsert:
  assumes "streams_in bkt t s" and "stream_ok x" and "valid_key (str_ID x)"
  shows "\<exists>s'. Upsert x s = (Ret (), s') \<and>
    (\<forall>i. Get zero_Stream i s' = (go_of_option (errMissing i) (if i = str_ID x then Some x else t i), s'))"
  using Upsert_eq [OF in_has_tbl [OF assms(1)] assms(3)] Get_eq [OF streams_in_put [OF assms]]
  by (intro exI conjI) (assumption, simp)

lemma Get_after_Delete:
  assumes "streams_in bkt t s"
  shows "\<exists>s'. Delete i s = (Ret (), s') \<and>
    (\<forall>j. Get zero_Stream j s' = (go_of_option (errMissing j) (if j = i then None else t j), s'))"
  using Delete_eq [OF in_has_tbl [OF assms]] Get_eq [OF streams_in_del [OF assms]]
  by (intro exI conjI) (assumption, simp)

text \<open>A stream that is stored is listed for exactly its members.\<close>

lemma GetAll_after_Upsert:
  assumes "wf_bucket s" and "streams_in bkt t s" and "stream_ok x" and "valid_key (str_ID x)"
    and "t (str_ID x) = None"
  shows "\<exists>s' xs. Upsert x s = (Ret (), s') \<and> GetAll user [] s' = (Ret xs, s') \<and>
    set xs = {y \<in> ran t. listed user [] y} \<union> (if listed user [] x then {x} else {})"
proof -
  let ?s' = "db_put bkt (str_ID x) (Doc (enc_Stream x)) s"
  obtain xs where xs: "GetAll user [] ?s' = (Ret xs, ?s')"
    and set_xs: "set xs = {y \<in> ran (t(str_ID x \<mapsto> x)). listed user [] y}"
    using GetAll_eq [OF wf_db_put [OF assms(1)] streams_in_put [OF assms(2-4)]] by blast
  have "ran (t(str_ID x \<mapsto> x)) = insert x (ran t)" using assms(5) by (rule ran_map_upd)
  with xs set_xs show ?thesis
    using Upsert_eq [OF in_has_tbl [OF assms(2)] assms(4)] by (intro exI conjI) (assumption, assumption, auto)
qed

end

lemma catch_exists:
  "has_tbl b s \<Longrightarrow>
   db_catch (store_CheckNotExist b i) (\<lambda>e. if store_IsExists e then db_fail (x i) else db_fail e) s =
     (if table s b i = None then Ret () else Fail (x i), s)"
  "has_tbl b s \<Longrightarrow>
   db_catch (store_CheckExists b i) (\<lambda>e. if store_IsMissing e then db_fail (x i) else db_fail e) s =
     (if table s b i = None then Fail (x i) else Ret (), s)"
  by (simp_all add: db_catch_def store_CheckNotExist_eq store_CheckExists_eq db_fail_def)

lemma catch_get:
  assumes "streams_in b t s"
  shows "db_catch (store_Unmarshal dec_Stream b zero_Stream i) (\<lambda>e. if store_IsMissing e then db_fail (x i) else db_fail e) s
     = (go_of_option (x i) (t i), s)"
  by (cases "t i") (simp_all add: db_catch_def stream_codec.holds_Unmarshal [OF assms] db_fail_def)

lemma streams_loop:
  assumes "\<And>kv r. f kv r = go_bind (json_Unmarshal_item dec_Stream (snd kv) zero_Stream) (\<lambda>next.
       if \<not> users_Member (users_defaultFilter user) (str_Group next) then Ret r
       else if \<not> users_Member (users_MultiAnd filters) (str_Group next) then Ret r
       else Ret (r @ [next]))"
  shows "\<forall>p \<in> set ps. stream_ok (snd p) \<Longrightarrow>
   go_foreach f (map (\<lambda>p. (fst p, Some (Doc (enc_Stream (snd p))))) ps) r
     = Ret (r @ filter (listed user filters) (map snd ps))"
proof (induction ps arbitrary: r)
  case (Cons p ps)
  have "listed user filters (snd p) \<longleftrightarrow>
      users_Member (users_defaultFilter user) (str_Group (snd p)) \<and> users_Member (users_MultiAnd filters) (str_Group (snd p))"
    by (auto simp: listed_def defaultFilter_Member list_all_iff)
  with Cons show ?case by (simp add: assms dec_enc_Stream)
qed simp

lemma streams_GetAll:
  assumes "\<And>kv r. f kv r = go_bind (json_Unmarshal_item dec_Stream (snd kv) zero_Stream) (\<lambda>next.
       if \<not> users_Member (users_defaultFilter user) (str_Group next) then Ret r
       else if \<not> users_Member (users_MultiAnd filters) (str_Group next) then Ret r
       else Ret (r @ [next]))"
    and "wf_bucket s" and "streams_in b t s"
  shows "\<exists>xs. store_ForEach b f [] s = (Ret xs, s) \<and> set xs = {x \<in> ran t. listed user filters x}"
proof -
  obtain kxs where kxs: "map_of kxs = t" "sorted_wrt (<) (map fst kxs)"
    and each: "\<And>f (a :: Stream list). store_ForEach b f a s =
      (go_foreach f (map (\<lambda>p. (fst p, Some (Doc (enc_Stream (snd p))))) kxs) a, s)"
    by (rule holds_ForEach [OF assms(2,3)]) blast
  have "distinct (map fst kxs)" using kxs(2) by (simp add: strict_sorted_iff)
  then have ran: "set (map snd kxs) = ran t" by (simp add: ran_distinct flip: kxs(1))
  then have "\<forall>p \<in> set kxs. stream_ok (snd p)" using assms(3) by (auto simp: holds_tbl_def)
  with ran show ?thesis
    by (intro exI [where x = "filter (listed user filters) (map snd kxs)"])
      (auto simp: each streams_loop [OF assms(1)])
qed

interpretation streams: group_table StreamBucket stream_errMissing stream_errExists
  stream_CheckNotExist stream_CheckExists stream_Get stream_GetAll stream_Upsert stream_Delete
proof unfold_locales
  show "\<exists>xs. stream_GetAll user filters s = (Ret xs, s) \<and> set xs = {x \<in> ran t. listed user filters x}"
    if "wf_bucket s" "streams_in StreamBucket t s" for s t user filters
    unfolding stream_GetAll_def by (rule streams_GetAll) (use that in \<open>simp_all add: stream_GetAll_step_def\<close>)
qed (simp_all add: stream_CheckNotExist_def stream_CheckExists_def stream_Get_def stream_Upsert_def stream_Delete_def
    catch_exists catch_get)

interpretation convos: group_table ConvoBucket convo_errMissing convo_errExists
  convo_CheckNotExist convo_CheckExists convo_Get convo_GetAll convo_Upsert convo_Delete
proof unfold_locales
  show "\<exists>xs. convo_GetAll user filters s = (Ret xs, s) \<and> set xs = {x \<in> ran t. listed user filters x}"
    if "wf_bucket s" "streams_in ConvoBucket t s" for s t user filters
    unfolding convo_GetAll_def by (rule streams_GetAll) (use that in \<open>simp_all add: convo_GetAll_step_def\<close>)
qed (simp_all add: convo_CheckNotExist_def convo_CheckExists_def convo_Get_def convo_Upsert_def convo_Delete_def
    catch_exists catch_get)

end
