(* ===== verification/Rest_Stream.thy ===== *)
theory Rest_Stream
  imports Rest_Middleware Notifs Streams Go_Uuid
begin

text \<open>
  The handlers on streams (\<^verbatim>\<open>rest/stream.go\<close>): connecting a web socket, creating, updating,
  listing, reading and deleting a stream.  What lies outside the database is a record
  \<open>world\<close>: what the socket calls return, the replies to a survey (one survey for each path of
  buckets), and what other handlers commit to the database while a survey or a web socket
  session is under way.  The theorems quantify over it.
\<close>

section \<open>The outside world\<close>

record world =
  w_net :: net
  w_send :: "bytes list \<Rightarrow> nat \<Rightarrow> bytes \<Rightarrow> err option"
  w_recv :: "bytes list \<Rightarrow> nat \<Rightarrow> nat \<Rightarrow> bytes go"
  w_env :: "bytes list \<Rightarrow> db \<Rightarrow> db"
  w_session :: "db \<Rightarrow> db"

text \<open>\<^verbatim>\<open>river.MakeSurvey(surv, river.HUP, river.OK)\<close>, outside of any transaction.\<close>

definition hup_survey :: "world \<Rightarrow> bytes list \<Rightarrow> surveyor \<Rightarrow> server \<Rightarrow> unit go \<times> server" where
  "hup_survey w bks surv sv =
     (river_MakeSurvey (w_send w bks) (w_recv w bks) surv HUP OK, sv\<lparr>sv_db := w_env w bks (sv_db sv)\<rparr>)"

text \<open>A deletion and a \<^verbatim>\<open>Close\<close> that both run, and what becomes of their errors.\<close>

definition and_close :: "unit dbop \<Rightarrow> err option \<Rightarrow> unit dbop" where
  "and_close m eC s =
     (case (m s, eC) of
        ((Fail _, s'), Some c) \<Rightarrow> (Fail (Wrapped ''deletion failed'' c), s')
      | ((Ret _, s'), Some c) \<Rightarrow> (Fail c, s')
      | (r, _) \<Rightarrow> r)"

section \<open>Connecting\<close>

text \<open>The transaction that ends a session: first the bus, then the responder.\<close>

definition disconnect :: "net \<Rightarrow> string \<Rightarrow> string \<Rightarrow> bus \<Rightarrow> respondent \<Rightarrow> unit dbop" where
  "disconnect net userID streamID rv rsp =
     db_bind (and_close (river_DeleteBus userID streamID (bus_id rv)) (net_Close net)) (\<lambda>_.
       and_close (river_DeleteResp (rsp_id rsp) [HangupBucket, streamID, userID]) (net_Close net))"

text \<open>The two branches of an error of \<^verbatim>\<open>NewResponder\<close> or \<^verbatim>\<open>NewBus\<close>.\<close>

definition river_status :: "err \<Rightarrow> response" where
  "river_status e = HttpError (if river_IsExists e then StatusConflict else StatusInternalServerError)"

definition rest_Stream_Connect :: "world \<Rightarrow> handler" where
  "rest_Stream_Connect w r sv =
     (case mw_CtxGetUserID r of
        Ret userID \<Rightarrow>
          (let i = ByName r ''stream_id''
           in case uuid_FromString i of
                Fail _ \<Rightarrow> (HttpError StatusBadRequest, sv)
              | Panic \<Rightarrow> (Panicked, sv)
              | Ret _ \<Rightarrow>
                  (case sv_View (stream_Get zero_Stream i) sv of
                     Fail e \<Rightarrow> (HttpError (if stream_IsMissing e then StatusNotFound else StatusInternalServerError), sv)
                   | Panic \<Rightarrow> (Panicked, sv)
                   | Ret str \<Rightarrow>
                       if \<not> smap_get (g_Writers (str_Group str)) userID then (HttpError StatusUnauthorized, sv)
                       else (case sv_Update (river_NewResponder (w_net w) [HangupBucket, str_ID str, userID]) sv of
                               (Fail e, sv1) \<Rightarrow> (river_status e, sv1)
                             | (Panic, sv1) \<Rightarrow> (Panicked, sv1)
                             | (Ret rsp, sv1) \<Rightarrow>
                                 (case sv_Update (river_NewBus (w_net w) userID (str_ID str)) sv1 of
                                    (Fail e, sv2) \<Rightarrow> (river_status e, sv2)
                                  | (Panic, sv2) \<Rightarrow> (Panicked, sv2)
                                  | (Ret rv, sv2) \<Rightarrow>
                                      (let tell = (\<lambda>n. notify_all (fst n) (snd n) (smap_keys (g_Readers (str_Group str))));
                                           sv3 = tell (stream_Connected str userID) sv2;
                                           sv4 = sv3\<lparr>sv_db := w_session w (sv_db sv3)\<rparr>
                                       in case sv_Update (disconnect (w_net w) userID (str_ID str) rv rsp) sv4 of
                                            (Fail _, sv5) \<Rightarrow> (Exited, sv5)
                                          | (Panic, sv5) \<Rightarrow> (Panicked, sv5)
                                          | (Ret _, sv5) \<Rightarrow> (WsServed, tell (stream_Disconnected str userID) sv5))))))
      | _ \<Rightarrow> (Panicked, sv))"

section \<open>Creating, updating\<close>

text \<open>The body with the caller as its owner and the given ID.\<close>

definition owned :: "string \<Rightarrow> string \<Rightarrow> Stream \<Rightarrow> Stream" where
  "owned userID i str = str\<lparr>str_ID := i, str_Group := (str_Group str)\<lparr>g_Owner := userID\<rparr>\<rparr>"

text \<open>The status of an error of the checks in \<^verbatim>\<open>Create\<close> and in \<^verbatim>\<open>Put\<close>.\<close>

definition create_status :: "(err \<Rightarrow> bool) \<Rightarrow> err \<Rightarrow> response" where
  "create_status isExists e =
     HttpError (if users_IsMissing e then StatusNotFound
                else if isExists e then StatusConflict
                else StatusInternalServerError)"

definition put_status :: "(err \<Rightarrow> bool) \<Rightarrow> err \<Rightarrow> response" where
  "put_status isMissing e =
     HttpError (if users_IsMissing e \<or> isMissing e then StatusNotFound else StatusInternalServerError)"

definition rest_Stream_Create :: "uuid \<Rightarrow> handler" where
  "rest_Stream_Create newV4 r sv =
     (case decode_body dec_Stream zero_Stream r of
        None \<Rightarrow> (HttpError StatusBadRequest, sv)
      | Some sent \<Rightarrow>
          (case mw_CtxGetUserID r of
             Ret userID \<Rightarrow>
               (let i = uuid_String newV4; str = owned userID i sent; allUsers = all_users userID (str_Group str)
                in case sv_View (store_Wrap [stream_CheckNotExist i, users_CheckUsersExist allUsers]) sv of
                     Fail e \<Rightarrow> (create_status stream_IsExists e, sv)
                   | Panic \<Rightarrow> (Panicked, sv)
                   | Ret _ \<Rightarrow>
                       (case sv_Update (store_Wrap [stream_CheckNotExist i, users_CheckUsersExist allUsers, stream_Upsert str]) sv of
                          (Fail e, sv1) \<Rightarrow> (create_status stream_IsExists e, sv1)
                        | (Panic, sv1) \<Rightarrow> (Panicked, sv1)
                        | (Ret _, sv1) \<Rightarrow>
                            (OkBody (enc_Stream str),
                             notify_all ''streams'' (enc_Stream str) (smap_keys (g_Readers (str_Group str))) sv1)))
           | _ \<Rightarrow> (Panicked, sv)))"

text \<open>\<^verbatim>\<open>updateUsers\<close>: the caller and the new readers are true, old readers who are not among them
  false.\<close>

definition update_users :: "string \<Rightarrow> Stream \<Rightarrow> Stream \<Rightarrow> (string \<times> bool) list" where
  "update_users userID old new =
     fold (\<lambda>u m. assoc_set u (map_of m u = Some True) m) (smap_keys (g_Readers (str_Group old)))
       (fold (\<lambda>u. assoc_set u True) (userID # smap_keys (g_Readers (str_Group new))) [])"

text \<open>Telling the users of such a map that they were added or removed.\<close>

definition notify_update :: "string \<Rightarrow> string \<Rightarrow> Stream \<Rightarrow> (string \<times> bool) list \<Rightarrow> server \<Rightarrow> server" where
  "notify_update resource removed str us sv =
     fold (\<lambda>(u, ok). if ok then notif_Encode resource (enc_Stream str) u
                     else notif_Encode removed (JStr (str_ID str)) u) us sv"

definition rest_Stream_Put :: handler where
  "rest_Stream_Put r sv =
     (case mw_CtxGetUserID r of
        Ret userID \<Rightarrow>
          (let i = ByName r ''stream_id''
           in case uuid_FromString i of
                Fail _ \<Rightarrow> (HttpError StatusBadRequest, sv)
              | Panic \<Rightarrow> (Panicked, sv)
              | Ret _ \<Rightarrow>
                  (case decode_body dec_Stream zero_Stream r of
                     None \<Rightarrow> (HttpError StatusBadRequest, sv)
                   | Some sent \<Rightarrow>
                       (let str = owned userID i sent; allUsers = all_users userID (str_Group str)
                        in case sv_View (store_Wrap [stream_CheckExists i, users_CheckUsersExist allUsers]) sv of
                             Fail e \<Rightarrow> (put_status stream_IsMissing e, sv)
                           | Panic \<Rightarrow> (Panicked, sv)
                           | Ret _ \<Rightarrow>
                               (case sv_View (stream_Get zero_Stream i) sv of
                                  Fail e \<Rightarrow>
                                    (HttpError (if stream_IsMissing e then StatusNotFound else StatusInternalServerError), sv)
                                | Panic \<Rightarrow> (Panicked, sv)
                                | Ret existing \<Rightarrow>
                                    if g_Owner (str_Group existing) \<noteq> userID then (HttpError StatusUnauthorized, sv)
                                    else (case sv_Update (store_Wrap [stream_CheckExists i, users_CheckUsersExist allUsers,
                                                            stream_Upsert str]) sv of
                                            (Fail e, sv1) \<Rightarrow> (put_status stream_IsMissing e, sv1)
                                          | (Panic, sv1) \<Rightarrow> (Panicked, sv1)
                                          | (Ret _, sv1) \<Rightarrow>
                                              (OkBody (enc_Stream str),
                                               notify_update ''streams'' ''stream-removed'' str
                                                 (update_users userID existing str) sv1)))))) 
      | _ \<Rightarrow> (Panicked, sv))"

section \<open>Listing, reading, deleting\<close>

text \<open>A nil slice is written as \<^verbatim>\<open>null\<close>.\<close>

definition enc_Streams :: "Stream list \<Rightarrow> json" where
  "enc_Streams xs = (if xs = [] then JNull else JArr (map enc_Stream xs))"

definition rest_Stream_GetAll :: handler where
  "rest_Stream_GetAll r sv =
     (case mw_CtxGetUserID r of
        Ret userID \<Rightarrow>
          (case sv_View (stream_GetAll userID []) sv of
             Ret xs \<Rightarrow> (OkBody (enc_Streams xs), sv)
           | Fail _ \<Rightarrow> (HttpError StatusInternalServerError, sv)
           | Panic \<Rightarrow> (Panicked, sv))
      | _ \<Rightarrow> (Panicked, sv))"

definition is_member :: "string \<Rightarrow> Stream \<Rightarrow> bool" where
  "is_member u x \<longleftrightarrow>
     g_Owner (str_Group x) = u \<or> smap_get (g_Readers (str_Group x)) u \<or> smap_get (g_Writers (str_Group x)) u"

definition rest_Stream_Get :: handler where
  "rest_Stream_Get r sv =
     (case mw_CtxGetUserID r of
        Ret userID \<Rightarrow>
          (let i = ByName r ''stream_id''
           in case uuid_FromString i of
                Fail _ \<Rightarrow> (HttpError StatusBadRequest, sv)
              | Panic \<Rightarrow> (Panicked, sv)
              | Ret _ \<Rightarrow>
                  (case sv_View (stream_Get zero_Stream i) sv of
                     Fail e \<Rightarrow> (HttpError (if stream_IsMissing e then StatusNotFound else StatusInternalServerError), sv)
                   | Panic \<Rightarrow> (Panicked, sv)
                   | Ret existing \<Rightarrow>
                       if \<not> is_member userID existing then (HttpError StatusUnauthorized, sv)
                       else (OkBody (enc_Stream existing), sv)))
      | _ \<Rightarrow> (Panicked, sv))"

text \<open>The loop \<^verbatim>\<open>hangupReaders\<close>.  The first user without a bucket of responders ends it.\<close>

fun stream_hangup :: "world \<Rightarrow> string \<Rightarrow> string list \<Rightarrow> server \<Rightarrow> unit go \<times> server" where
  "stream_hangup w i [] sv = (Ret (), sv)"
| "stream_hangup w i (user # us) sv =
     (case sv_Update (river_NewSurvey (w_net w) [HangupBucket, i, user]) sv of
        (Panic, sv1) \<Rightarrow> (Panic, sv1)
      | (Fail e, sv1) \<Rightarrow> if river_IsStreamMissing e then (Ret (), sv1) else (Fail e, sv1)
      | (Ret surv, sv1) \<Rightarrow>
          (case hup_survey w [HangupBucket, i, user] surv sv1 of
             (Ret _, sv2) \<Rightarrow> stream_hangup w i us sv2
           | r \<Rightarrow> r))"

definition rest_Stream_Delete :: "world \<Rightarrow> handler" where
  "rest_Stream_Delete w r sv =
     (case mw_CtxGetUserID r of
        Ret userID \<Rightarrow>
          (let i = ByName r ''stream_id''
           in case uuid_FromString i of
                Fail _ \<Rightarrow> (HttpError StatusBadRequest, sv)
              | Panic \<Rightarrow> (Panicked, sv)
              | Ret _ \<Rightarrow>
                  (case sv_View (stream_Get zero_Stream i) sv of
                     Fail e \<Rightarrow> (HttpError (if stream_IsMissing e then StatusNotFound else StatusInternalServerError), sv)
                   | Panic \<Rightarrow> (Panicked, sv)
                   | Ret existing \<Rightarrow>
                       if g_Owner (str_Group existing) \<noteq> userID then (HttpError StatusUnauthorized, sv)
                       else (case stream_hangup w i (smap_keys (g_Readers (str_Group existing))) sv of
                               (Fail _, sv1) \<Rightarrow> (HttpError StatusInternalServerError, sv1)
                             | (Panic, sv1) \<Rightarrow> (Panicked, sv1)
                             | (Ret _, sv1) \<Rightarrow>
                                 (case sv_Update (stream_Delete i) sv1 of
                                    (Fail _, sv2) \<Rightarrow> (HttpError StatusInternalServerError, sv2)
                                  | (Panic, sv2) \<Rightarrow> (Panicked, sv2)
                                  | (Ret _, sv2) \<Rightarrow>
                                      (OkEmpty,
                                       notify_all ''stream-deleted'' (JStr i)
                                         (smap_keys (g_Readers (str_Group existing))) sv2)))))
      | _ \<Rightarrow> (Panicked, sv))"

section \<open>The contract of the handlers\<close>

text \<open>A request of user \<open>u\<close> for the stream or convo \<open>i\<close>.\<close>

definition asks :: "string \<Rightarrow> string \<Rightarrow> string \<Rightarrow> request \<Rightarrow> bool" where
  "asks key u i r \<longleftrightarrow> mw_CtxGetUserID r = Ret u \<and> ByName r key = i"

definition users_exist :: "db \<Rightarrow> string list \<Rightarrow> bool" where
  "users_exist s us \<longleftrightarrow> has_tbl UserBucket s \<and> (\<forall>u \<in> set us. table s UserBucket u \<noteq> None)"

lemma CheckUsersExist_ok: "users_exist s us \<Longrightarrow> users_CheckUsersExist us s = (Ret (), s)"
  by (auto simp: users_exist_def users_CheckUsersExist_eq find_Some_iff split: option.splits)

lemma holds_same:
  "bkt_at [b] s' = bkt_at [b] s \<Longrightarrow> holds_tbl enc ok b t s' = holds_tbl enc ok b t s"
  "bkt_at [b] s' = bkt_at [b] s \<Longrightarrow> has_tbl b s' = has_tbl b s"
  by (simp_all add: holds_tbl_def has_tbl_def table_def fun_eq_iff del: bkt_at.simps)

lemma notify_all_state [simp]:
  "sv_db (notify_all resource j us sv) = sv_db sv"
  "sv_out (notify_all resource j us sv) = sv_out sv @ map (\<lambda>u. (u, resource, j)) us"
  by (induction us arbitrary: sv) (simp_all add: notify_all_def notif_Encode_def)

lemma uuid_String_key [simp]: "length u = 16 \<Longrightarrow> valid_key (uuid_String u)"
  by (simp add: valid_key_def uuid_String_def MaxKeySize_def)

lemma owned_simps [simp]:
  "str_ID (owned u i x) = i" "g_Owner (str_Group (owned u i x)) = u"
  "g_Readers (str_Group (owned u i x)) = g_Readers (str_Group x)"
  "g_Writers (str_Group (owned u i x)) = g_Writers (str_Group x)"
  by (simp_all add: owned_def)

text \<open>
  What both APIs promise: a stream that was created is read by its members and nobody else, and
  only its owner updates or deletes it, only its writers connect to it.  \<open>ready i\<close> is what
  creation needs of the database beside the table itself.
\<close>

locale group_api = group_table +
  fixes key :: string and resource :: string and ready :: "string \<Rightarrow> db \<Rightarrow> bool"
    and hCreate :: "uuid \<Rightarrow> handler" and hGet :: handler and hPut :: handler
    and hDelete :: handler and hConnect :: handler
  assumes hGet_eq: "streams_in bkt t (sv_db sv) \<Longrightarrow> asks key u i r \<Longrightarrow> uuid_FromString i = Ret x \<Longrightarrow>
      hGet r sv = (case t i of None \<Rightarrow> HttpError StatusNotFound
         | Some y \<Rightarrow> if is_member u y then OkBody (enc_Stream y) else HttpError StatusUnauthorized, sv)"
    and hCreate_eq: "streams_in bkt t (sv_db sv) \<Longrightarrow> ready (uuid_String n) (sv_db sv) \<Longrightarrow> t (uuid_String n) = None \<Longrightarrow>
      valid_key (uuid_String n) \<Longrightarrow>
      mw_CtxGetUserID r = Ret u \<Longrightarrow> decode_body dec_Stream zero_Stream r = Some sent \<Longrightarrow>
      y = owned u (uuid_String n) sent \<Longrightarrow> stream_ok y \<Longrightarrow> users_exist (sv_db sv) (all_users u (str_Group y)) \<Longrightarrow>
      \<exists>s'. hCreate n r sv =
          (OkBody (enc_Stream y), notify_all resource (enc_Stream y) (smap_keys (g_Readers (str_Group y))) (sv\<lparr>sv_db := s'\<rparr>)) \<and>
        streams_in bkt (t(uuid_String n \<mapsto> y)) s' \<and> has_tbl UserBucket s'"
    and hPut_other: "streams_in bkt t (sv_db sv) \<Longrightarrow> has_tbl UserBucket (sv_db sv) \<Longrightarrow> asks key u i r \<Longrightarrow> uuid_FromString i = Ret x \<Longrightarrow>
      t i = Some y \<Longrightarrow> g_Owner (str_Group y) \<noteq> u \<Longrightarrow> \<exists>st. hPut r sv = (HttpError st, sv)"
    and hDelete_other: "streams_in bkt t (sv_db sv) \<Longrightarrow> asks key u i r \<Longrightarrow> uuid_FromString i = Ret x \<Longrightarrow>
      t i = Some y \<Longrightarrow> g_Owner (str_Group y) \<noteq> u \<Longrightarrow> \<exists>st. hDelete r sv = (HttpError st, sv)"
    and hConnect_other: "streams_in bkt t (sv_db sv) \<Longrightarrow> asks key u i r \<Longrightarrow> uuid_FromString i = Ret x \<Longrightarrow>
      t i = Some y \<Longrightarrow> \<not> smap_get (g_Writers (str_Group y)) u \<Longrightarrow> \<exists>st. hConnect r sv = (HttpError st, sv)"
begin

lemma lifecycle:
  assumes n: "length n = 16" and s: "streams_in bkt t (sv_db sv)" "ready (uuid_String n) (sv_db sv)" "t (uuid_String n) = None"
    and r: "mw_CtxGetUserID r = Ret u" "decode_body dec_Stream zero_Stream r = Some sent"
    and y: "y = owned u (uuid_String n) sent" "stream_ok y" "users_exist (sv_db sv) (all_users u (str_Group y))"
  shows "\<exists>sv'. hCreate n r sv = (OkBody (enc_Stream y), sv') \<and>
    sv_out sv' = sv_out sv @ map (\<lambda>v. (v, resource, enc_Stream y)) (smap_keys (g_Readers (str_Group y))) \<and>
    streams_in bkt (t(uuid_String n \<mapsto> y)) (sv_db sv') \<and>
    (\<forall>v q. asks key v (uuid_String n) q \<longrightarrow>
       hGet q sv' = (if is_member v y then OkBody (enc_Stream y) else HttpError StatusUnauthorized, sv') \<and>
       (v \<noteq> u \<longrightarrow> (\<exists>st. hPut q sv' = (HttpError st, sv')) \<and> (\<exists>st. hDelete q sv' = (HttpError st, sv'))) \<and>
       (\<not> smap_get (g_Writers (str_Group y)) v \<longrightarrow> (\<exists>st. hConnect q sv' = (HttpError st, sv'))))"
proof -
  obtain s' where run: "hCreate n r sv =
      (OkBody (enc_Stream y), notify_all resource (enc_Stream y) (smap_keys (g_Readers (str_Group y))) (sv\<lparr>sv_db := s'\<rparr>))"
    and s': "streams_in bkt (t(uuid_String n \<mapsto> y)) s'" "has_tbl UserBucket s'"
    using hCreate_eq [OF s _ r y] uuid_String_key [OF n] by blast
  define sv' where "sv' = notify_all resource (enc_Stream y) (smap_keys (g_Readers (str_Group y))) (sv\<lparr>sv_db := s'\<rparr>)"
  have tab: "streams_in bkt (t(uuid_String n \<mapsto> y)) (sv_db sv')" "has_tbl UserBucket (sv_db sv')"
    using s' by (simp_all add: sv'_def)
  have "hGet q sv' = (if is_member v y then OkBody (enc_Stream y) else HttpError StatusUnauthorized, sv')"
    if "asks key v (uuid_String n) q" for v q
    using hGet_eq [OF tab(1) that uuid_roundtrip [OF n]] by simp
  moreover have "(\<exists>st. hPut q sv' = (HttpError st, sv')) \<and> (\<exists>st. hDelete q sv' = (HttpError st, sv'))"
    if "asks key v (uuid_String n) q" "v \<noteq> u" for v q
    using hPut_other [OF tab that(1) uuid_roundtrip [OF n], of y] hDelete_other [OF tab(1) that(1) uuid_roundtrip [OF n], of y]
      that(2) y(1) by auto
  moreover have "\<exists>st. hConnect q sv' = (HttpError st, sv')"
    if "asks key v (uuid_String n) q" "\<not> smap_get (g_Writers (str_Group y)) v" for v q
    using hConnect_other [OF tab(1) that(1) uuid_roundtrip [OF n], of y] that(2) by simp
  ultimately show ?thesis using run tab(1) by (auto simp: sv'_def)
qed

end

text \<open>How the checks of a handler come out when the table holds the stream.\<close>

lemma CheckUsersExist_total:
  "has_tbl UserBucket s \<Longrightarrow> users_CheckUsersExist us s = (Ret (), s) \<or> (\<exists>u. users_CheckUsersExist us s = (Fail (users_ErrMissing u), s))"
  by (auto simp: users_CheckUsersExist_eq split: option.splits)

interpretation stream_api: group_api StreamBucket stream_errMissing stream_errExists
  stream_CheckNotExist stream_CheckExists stream_Get stream_GetAll stream_Upsert stream_Delete
  "''stream_id''" "''streams''" "\<lambda>_ _. True" rest_Stream_Create rest_Stream_Get rest_Stream_Put
  "rest_Stream_Delete w" "rest_Stream_Connect w" for w
proof unfold_locales
  fix t u i r x and sv :: server
  assume t: "streams_in StreamBucket t (sv_db sv)" and r: "asks ''stream_id'' u i r" and i: "uuid_FromString i = Ret x"
  note simps = asks_def sv_View_eq streams.Get_eq [OF t] streams.CheckExists_eq [OF streams.in_has_tbl [OF t]]
    stream_codec.holds_table [OF t]
  show "rest_Stream_Get r sv = (case t i of None \<Rightarrow> HttpError StatusNotFound
      | Some y \<Rightarrow> if is_member u y then OkBody (enc_Stream y) else HttpError StatusUnauthorized, sv)"
    using r i by (cases "t i") (auto simp: rest_Stream_Get_def simps)
  fix y
  assume y: "t i = Some y"
  show "\<exists>st. rest_Stream_Put r sv = (HttpError st, sv)" if "has_tbl UserBucket (sv_db sv)" "g_Owner (str_Group y) \<noteq> u"
  proof (cases "decode_body dec_Stream zero_Stream r")
    case (Some sent)
    with r i y that(2) CheckUsersExist_total [OF that(1), of "all_users u (str_Group (owned u i sent))"] show ?thesis
      by (auto simp: rest_Stream_Put_def simps Let_def put_status_def)
  qed (use r i in \<open>auto simp: rest_Stream_Put_def simps\<close>)
  show "\<exists>st. rest_Stream_Delete w r sv = (HttpError st, sv)" if "g_Owner (str_Group y) \<noteq> u"
    using r i y that by (auto simp: rest_Stream_Delete_def simps)
  show "\<exists>st. rest_Stream_Connect w r sv = (HttpError st, sv)" if "\<not> smap_get (g_Writers (str_Group y)) u"
    using r i y that by (auto simp: rest_Stream_Connect_def simps)
next
  fix t n r u sent y and sv :: server
  assume t: "streams_in StreamBucket t (sv_db sv)" and new: "t (uuid_String n) = None" "valid_key (uuid_String n)"
    and r: "mw_CtxGetUserID r = Ret u" "decode_body dec_Stream zero_Stream r = Some sent"
    and y: "y = owned u (uuid_String n) sent" "stream_ok y" and us: "users_exist (sv_db sv) (all_users u (str_Group y))"
  let ?s' = "db_put StreamBucket (uuid_String n) (Doc (enc_Stream y)) (sv_db sv)"
  have has: "has_tbl StreamBucket (sv_db sv)" using t by (rule streams.in_has_tbl)
  have "store_Wrap [stream_CheckNotExist (uuid_String n), users_CheckUsersExist (all_users u (str_Group y)), stream_Upsert y] (sv_db sv)
      = (Ret (), ?s')"
    using new CheckUsersExist_ok [OF us] streams.Upsert_eq [OF has, of y]
    by (simp add: streams.CheckNotExist_eq [OF has] stream_codec.holds_table [OF t] y(1))
  with r CheckUsersExist_ok [OF us] new(1) have "rest_Stream_Create n r sv =
      (OkBody (enc_Stream y), notify_all ''streams'' (enc_Stream y) (smap_keys (g_Readers (str_Group y))) (sv\<lparr>sv_db := ?s'\<rparr>))"
    by (simp add: rest_Stream_Create_def Let_def sv_View_eq streams.CheckNotExist_eq [OF has] stream_codec.holds_table [OF t] sv_Update_Ret
        flip: y(1))
  moreover have "streams_in StreamBucket (t(uuid_String n \<mapsto> y)) ?s'"
    using streams.streams_in_put [OF t y(2)] new(2) y(1) by simp
  moreover have "has_tbl UserBucket ?s'" using us has by (simp add: users_exist_def)
  ultimately show "\<exists>s'. rest_Stream_Create n r sv =
        (OkBody (enc_Stream y), notify_all ''streams'' (enc_Stream y) (smap_keys (g_Readers (str_Group y))) (sv\<lparr>sv_db := s'\<rparr>)) \<and>
      streams_in StreamBucket (t(uuid_String n \<mapsto> y)) s' \<and> has_tbl UserBucket s'" by blast
qed

section \<open>Hanging up\<close>

lemma GetNested_missing:
  "bkt_at p s \<noteq> None \<Longrightarrow> bkt_at (p @ bks) s = None \<Longrightarrow> \<exists>k. store_GetNestedBucket p bks s = (Fail (ErrMissingBucket k), s)"
proof (induction bks arbitrary: p)
  case (Cons k bks)
  then show ?case using Cons.IH [of "p @ [k]"] by (auto split: option.splits)
qed simp

lemma GetNested_found: "bkt_at (p @ bks) s \<noteq> None \<Longrightarrow> store_GetNestedBucket p bks s = (Ret (p @ bks), s)"
proof (induction bks arbitrary: p)
  case (Cons k bks)
  then show ?case using Cons.IH [of "p @ [k]"] bkt_at_append [of p "k # bks" s] bkt_at_append [of "p @ [k]" bks s]
    by (auto split: option.splits)
qed simp

lemma NewSurvey_missing:
  assumes "bkt_at [RiverBucket] s \<noteq> None" and "bkt_at (RiverBucket # bks) s = None"
  shows "\<exists>k. river_NewSurvey net bks s = (Fail (river_errStreamMissing k), s)"
proof -
  obtain k where "store_GetNestedBucket [RiverBucket] bks s = (Fail (ErrMissingBucket k), s)"
    using GetNested_missing [OF assms(1), of bks] assms(2) by auto
  moreover have "bks \<noteq> []" using assms by auto
  ultimately show ?thesis by (simp add: river_NewSurvey_def db_bind_def db_catch_def db_fail_def)
qed

lemma stream_hangup_stops:
  assumes "bkt_at [RiverBucket] (sv_db sv) \<noteq> None" and "bkt_at [RiverBucket, HangupBucket, i, a] (sv_db sv) = None"
  shows "stream_hangup w i (a # us) sv = (Ret (), sv)"
  using NewSurvey_missing [OF assms(1), of "[HangupBucket, i, a]" "w_net w"] assms(2)
  by (auto simp: sv_Update_Fail simp del: bkt_at.simps)

section \<open>Properties\<close>

text \<open>
  C20 (Stream_lifecycle).  A stream posted by a user is stored with that user as its owner and
  a fresh ID, and its readers are told.  From then on it is read by its owner, readers and
  writers and by nobody else; who is not the owner cannot update or delete it, and who is not
  a writer cannot connect to it: these requests are answered with an error and change nothing.
\<close>

theorem Stream_lifecycle:
  assumes "length n = 16" and "streams_in StreamBucket t (sv_db sv)" and "t (uuid_String n) = None"
    and "mw_CtxGetUserID r = Ret u" and "decode_body dec_Stream zero_Stream r = Some sent"
    and "y = owned u (uuid_String n) sent" and "stream_ok y" and "users_exist (sv_db sv) (all_users u (str_Group y))"
  shows "\<exists>sv'. rest_Stream_Create n r sv = (OkBody (enc_Stream y), sv') \<and>
    sv_out sv' = sv_out sv @ map (\<lambda>v. (v, ''streams'', enc_Stream y)) (smap_keys (g_Readers (str_Group y))) \<and>
    (\<forall>v q. asks ''stream_id'' v (uuid_String n) q \<longrightarrow>
       rest_Stream_Get q sv' = (if is_member v y then OkBody (enc_Stream y) else HttpError StatusUnauthorized, sv') \<and>
       (v \<noteq> u \<longrightarrow> (\<exists>st. rest_Stream_Put q sv' = (HttpError st, sv')) \<and> (\<exists>st. rest_Stream_Delete w q sv' = (HttpError st, sv'))) \<and>
       (\<not> smap_get (g_Writers (str_Group y)) v \<longrightarrow> (\<exists>st. rest_Stream_Connect w q sv' = (HttpError st, sv'))))"
  using stream_api.lifecycle [OF assms(1,2) TrueI assms(3-8), of w] by blast

text \<open>A world in which all calls succeed, nobody answers a survey and nobody else is active.\<close>

definition demo_world :: world where
  "demo_world = \<lparr>w_net = demo_net, w_send = (\<lambda>_ _ _. None), w_recv = (\<lambda>_ _ _. Fail mangos_ErrProtoState),
     w_env = (\<lambda>_ s. s), w_session = (\<lambda>s. s)\<rparr>"

definition demo_social :: db where
  "demo_social =
     db_put UserBucket ''bob'' (Doc (enc_User \<lparr>user_Name = ''bob'', user_Coin = 0\<rparr>))
       (db_put UserBucket ''alice'' (Doc (enc_User \<lparr>user_Name = ''alice'', user_Coin = 0\<rparr>))
         (db_of [ConvoBucket, MessageBucket, RiverBucket, StreamBucket, UserBucket]))"

definition demo_group :: Stream where
  "demo_group = \<lparr>str_Group = \<lparr>g_Owner = ''x'', g_Readers = Some [(''bob'', True)], g_Writers = Some [(''bob'', True)]\<rparr>,
     str_ID = [], str_Name = ''talk''\<rparr>"

definition demo_post :: request where
  "demo_post = \<lparr>rq_AuthHeader = [], rq_RefreshHeader = [], rq_WSProtocolsHeader = [], rq_body = Some (enc_Stream demo_group),
     rq_params = [], rq_query = None, rq_ctx = [CtxUserID \<mapsto> ''alice'']\<rparr>"

definition demo_id :: uuid where
  "demo_id = replicate 16 CHR 0x10"

lemma demo_social_facts:
  "streams_in StreamBucket Map.empty demo_social" "streams_in ConvoBucket Map.empty demo_social"
  "users_exist demo_social (all_users ''alice'' (str_Group (owned ''alice'' i demo_group)))"
  "decode_body dec_Stream zero_Stream demo_post = Some demo_group" "mw_CtxGetUserID demo_post = Ret ''alice''"
  "stream_ok (owned ''alice'' i demo_group)" "length demo_id = 16"
  by (auto simp: demo_social_def holds_tbl_def fun_eq_iff users_exist_def all_users_def demo_group_def owned_def smap_keys_def
      StreamBucket_def UserBucket_def ConvoBucket_def decode_body_def demo_post_def dec_enc_Stream stream_ok_def group_ok_def
      smap_ok_def mw_CtxGetUserID_def go_assert_def demo_id_def)

theorem Stream_lifecycle_witness:
  "\<exists>sv' y. rest_Stream_Create demo_id demo_post \<lparr>sv_db = demo_social, sv_out = []\<rparr> = (OkBody (enc_Stream y), sv') \<and>
    sv_out sv' = [(''bob'', ''streams'', enc_Stream y)]"
proof -
  let ?y = "owned ''alice'' (uuid_String demo_id) demo_group"
  have "smap_keys (g_Readers (str_Group ?y)) = [''bob'']" by (simp add: demo_group_def smap_keys_def)
  with Stream_lifecycle [of demo_id Map.empty "\<lparr>sv_db = demo_social, sv_out = []\<rparr>" demo_post "''alice''" demo_group ?y demo_world]
  show ?thesis using demo_social_facts by auto
qed

text \<open>
  C36 (Stream_Delete_stops_early).  When the first reader of a stream has never connected to it,
  deleting the stream hangs up nobody: whatever the other readers' connections would answer,
  the stream is deleted at once, and all their rivers and responders stay registered.
\<close>

theorem Stream_Delete_stops_early:
  assumes "streams_in StreamBucket t (sv_db sv)" and "asks ''stream_id'' u i r" and "uuid_FromString i = Ret x"
    and "t i = Some y" and "g_Owner (str_Group y) = u" and "smap_keys (g_Readers (str_Group y)) = a # us"
    and "bkt_at [RiverBucket] (sv_db sv) \<noteq> None" and "bkt_at [RiverBucket, HangupBucket, i, a] (sv_db sv) = None"
  shows "\<exists>sv'. rest_Stream_Delete w r sv = (OkEmpty, sv') \<and> table (sv_db sv') StreamBucket i = None \<and>
    bkt_at [RiverBucket] (sv_db sv') = bkt_at [RiverBucket] (sv_db sv)"
proof -
  let ?s' = "db_del StreamBucket i (sv_db sv)"
  have has: "has_tbl StreamBucket (sv_db sv)" using assms(1) by (rule streams.in_has_tbl)
  have "rest_Stream_Delete w r sv =
      (OkEmpty, notify_all ''stream-deleted'' (JStr i) (a # us) (sv\<lparr>sv_db := ?s'\<rparr>))"
    using assms(2-6) stream_hangup_stops [OF assms(7,8), of w us]
    by (simp add: rest_Stream_Delete_def asks_def Let_def sv_View_eq streams.Get_eq [OF assms(1)]
        sv_Update_Ret streams.Delete_eq [OF has] del: stream_hangup.simps bkt_at.simps)
  moreover have "bkt_at [RiverBucket] ?s' = bkt_at [RiverBucket] (sv_db sv)"
    using bkt_at_db_del [OF has] by (simp add: RiverBucket_def StreamBucket_def)
  ultimately show ?thesis using has by (simp del: bkt_at.simps)
qed

text \<open>A stream with the readers Alice and Bob, to which only Bob is connected.\<close>

definition demo_bob_connected :: db where
  "demo_bob_connected =
     bkt_set [RiverBucket]
       (Bucket 0 [(HangupBucket, Sub (Bucket 0 [(uuid_String demo_id,
          Sub (Bucket 0 [(''bob'', Sub (Bucket 1 [(''1'', Leaf (Raw []))]))]))]))])
       (db_put StreamBucket (uuid_String demo_id) (Doc (enc_Stream
          \<lparr>str_Group = \<lparr>g_Owner = ''alice'', g_Readers = Some [(''alice'', True), (''bob'', True)], g_Writers = None\<rparr>,
           str_ID = uuid_String demo_id, str_Name = []\<rparr>)) demo_social)"

definition demo_delete :: request where
  "demo_delete = demo_post\<lparr>rq_params := [(''stream_id'', uuid_String demo_id)]\<rparr>"

theorem Stream_Delete_stops_early_witness:
  "\<forall>w. \<exists>sv'. rest_Stream_Delete w demo_delete \<lparr>sv_db = demo_bob_connected, sv_out = []\<rparr> = (OkEmpty, sv') \<and>
     bkt_at [RiverBucket, HangupBucket, uuid_String demo_id, ''bob''] (sv_db sv') = Some (Bucket 1 [(''1'', Leaf (Raw []))])"
proof
  fix w
  let ?y = "\<lparr>str_Group = \<lparr>g_Owner = ''alice'', g_Readers = Some [(''alice'', True), (''bob'', True)], g_Writers = None\<rparr>,
    str_ID = uuid_String demo_id, str_Name = []\<rparr>"
  let ?s1 = "db_put StreamBucket (uuid_String demo_id) (Doc (enc_Stream ?y)) demo_social"
  let ?sv = "\<lparr>sv_db = demo_bob_connected, sv_out = []\<rparr>"
  have "streams_in StreamBucket [uuid_String demo_id \<mapsto> ?y] ?s1"
    using streams.streams_in_put [OF demo_social_facts(1), of ?y] demo_social_facts(7)
    by (simp add: stream_ok_def group_ok_def smap_ok_def)
  moreover have same: "bkt_at [StreamBucket] demo_bob_connected = bkt_at [StreamBucket] ?s1"
    by (simp add: demo_bob_connected_def StreamBucket_def RiverBucket_def del: bkt_at.simps bkt_set.simps)
  ultimately have t: "streams_in StreamBucket [uuid_String demo_id \<mapsto> ?y] (sv_db ?sv)"
    by (simp only: server.simps holds_same(1) [OF same])
  have r0: "bkt_at [RiverBucket] demo_social = Some empty_bucket"
    by (simp add: demo_social_def bkt_at_db_put RiverBucket_def UserBucket_def del: bkt_at.simps)
      (simp add: ent_db_of)
  then have r1: "bkt_at [RiverBucket] ?s1 = Some empty_bucket"
    using bkt_at_db_put [OF streams.in_has_tbl [OF demo_social_facts(1)], of RiverBucket]
    by (simp add: RiverBucket_def StreamBucket_def del: bkt_at.simps)
  have rivers: "bkt_at (RiverBucket # q) demo_bob_connected =
      bkt_at q (Bucket 0 [(HangupBucket, Sub (Bucket 0 [(uuid_String demo_id,
          Sub (Bucket 0 [(''bob'', Sub (Bucket 1 [(''1'', Leaf (Raw []))]))]))]))])" for q
    using bkt_at_below [OF r1, of q] by (simp add: demo_bob_connected_def del: bkt_at.simps bkt_set.simps)
  have alice: "bkt_at [HangupBucket, uuid_String demo_id, ''alice''] (Bucket 0 [(HangupBucket, Sub (Bucket 0 [(uuid_String demo_id,
      Sub (Bucket 0 [(''bob'', Sub (Bucket 1 [(''1'', Leaf (Raw []))]))]))]))]) = None"
    by (simp add: ent_def)
  have ask: "asks ''stream_id'' ''alice'' (uuid_String demo_id) demo_delete"
    by (simp add: asks_def demo_delete_def demo_post_def mw_CtxGetUserID_def go_assert_def ByName_def)
  obtain sv' where run: "rest_Stream_Delete w demo_delete ?sv = (OkEmpty, sv')"
    and rv: "bkt_at [RiverBucket] (sv_db sv') = bkt_at [RiverBucket] demo_bob_connected"
    using Stream_Delete_stops_early [OF t ask uuid_roundtrip [OF demo_social_facts(7)], of ?y "''alice''" "[''bob'']" w] alice
    by (auto simp: smap_keys_def rivers simp del: bkt_at.simps(2))
  have "bkt_at [RiverBucket, HangupBucket, uuid_String demo_id, ''bob''] (sv_db sv') =
      bkt_at [RiverBucket, HangupBucket, uuid_String demo_id, ''bob''] demo_bob_connected"
    using bkt_at_append [of "[RiverBucket]" "[HangupBucket, uuid_String demo_id, ''bob'']"] rv
    by (simp del: bkt_at.simps)
  then show "\<exists>sv'. rest_Stream_Delete w demo_delete ?sv = (OkEmpty, sv') \<and>
     bkt_at [RiverBucket, HangupBucket, uuid_String demo_id, ''bob''] (sv_db sv') = Some (Bucket 1 [(''1'', Leaf (Raw []))])"
    using run by (simp add: rivers ent_def del: bkt_at.simps) (simp add: ent_def)
qed

end
