(* ===== verification/Rfc3339.thy ===== *)
theory Rfc3339
  imports Go_Binary
begin

text \<open>
  The times that key the messages of a convo: \<^verbatim>\<open>time.Time.AppendFormat(nil, time.RFC3339)\<close> of the
  standard library, with the calendar below it.  The lemmas show that the calendar day grows
  with the day number, and that within one zone and the years 0 to 9999 the keys are ordered
  as the times.
\<close>

section \<open>Formatting\<close>

text \<open>\<open>local\<close> gives the offset of the server's own zone, in seconds east of UTC.\<close>

definition zone_offset :: "(int \<Rightarrow> int) \<Rightarrow> gtime \<Rightarrow> int" where
  "zone_offset local t = (case t_zone t of ZUTC \<Rightarrow> 0 | ZLocal \<Rightarrow> local (t_ns t) | ZFixed n \<Rightarrow> n)"

text \<open>Year, month and day of a day counted from 1970-01-01, in the Gregorian calendar.\<close>

definition civil :: "int \<Rightarrow> int \<times> int \<times> int" where
  "civil z =
     (let d = z + 719468; era = d div 146097; doe = d mod 146097;
          yoe = (doe - doe div 1460 + doe div 36524 - doe div 146096) div 365;
          doy = doe - (365 * yoe + yoe div 4 - yoe div 100);
          mp = (5 * doy + 2) div 153;
          m = (if mp < 10 then mp + 3 else mp - 9)
      in (yoe + era * 400 + (if m \<le> 2 then 1 else 0), m, doy - (153 * mp + 2) div 5 + 1))"

definition appendInt :: "int \<Rightarrow> nat \<Rightarrow> string" where
  "appendInt n width =
     (let ds = nat_digits (nat \<bar>n\<bar>)
      in (if n < 0 then ''-'' else []) @ replicate (width - length ds) (CHR ''0'') @ ds)"

text \<open>\<^verbatim>\<open>AppendFormat(nil, time.RFC3339)\<close>.\<close>

definition rfc3339 :: "(int \<Rightarrow> int) \<Rightarrow> gtime \<Rightarrow> bytes" where
  "rfc3339 local t =
     (let off = zone_offset local t;
          sec = t_ns t div 1000000000 + off;
          (y, mo, d) = civil (sec div 86400);
          r = sec mod 86400;
          zmin = \<bar>off\<bar> div 60
      in appendInt y 4 @ ''-'' @ appendInt mo 2 @ ''-'' @ appendInt d 2 @ ''T'' @
         appendInt (r div 3600) 2 @ '':'' @ appendInt (r mod 3600 div 60) 2 @ '':'' @ appendInt (r mod 60) 2 @
         (if off = 0 then ''Z''
          else (if off < 0 then ''-'' else ''+'') @ appendInt (zmin div 60) 2 @ '':'' @ appendInt (zmin mod 60) 2))"

section \<open>The calendar\<close>

text \<open>
  A date as one number; years count from March here.  An era is 400 years of 146097 days.
\<close>

definition date_ord :: "int \<times> int \<times> int \<Rightarrow> int" where
  "date_ord = (\<lambda>(y, m, d). (12 * y + m) * 32 + d)"

abbreviation yoe_sum :: "int \<Rightarrow> int" where
  "yoe_sum doe \<equiv> doe - doe div 1460 + doe div 36524 - doe div 146096"

definition year_start :: "int \<Rightarrow> int" where
  "year_start y = 365 * y + y div 4 - y div 100"

definition yoe_of :: "int \<Rightarrow> int" where
  "yoe_of doe = yoe_sum doe div 365"

definition doy_of :: "int \<Rightarrow> int" where
  "doy_of doe = doe - year_start (yoe_of doe)"

definition month_ord :: "int \<Rightarrow> int" where
  "month_ord doy = (5 * doy + 2) div 153 * 32 + (doy - (153 * ((5 * doy + 2) div 153) + 2) div 5 + 1)"

lemma sum_step: "a' \<le> a + 1 \<Longrightarrow> b \<le> b' \<Longrightarrow> c' \<le> c \<Longrightarrow> d - a + b - c \<le> d + 1 - a' + b' - (c' :: int)"
  by linarith

lemma yoe_sum_step: "0 \<le> d \<Longrightarrow> d < 146097 \<Longrightarrow> yoe_sum d \<le> yoe_sum (d + 1)"
proof -
  assume d: "0 \<le> d" "d < 146097"
  have "(d + 1) div 1460 \<le> (d + 1460) div 1460" by (rule zdiv_mono1) simp_all
  then have a: "(d + 1) div 1460 \<le> d div 1460 + 1" by simp
  have b: "d div 36524 \<le> (d + 1) div 36524" by (rule zdiv_mono1) simp_all
  consider "d + 1 < 146096" | "d = 146095" | "d = 146096" using d by fastforce
  then show ?thesis
  proof cases
    case 1
    then have "(d + 1) div 146096 \<le> d div 146096" using d(1) by (simp add: div_pos_pos_trivial)
    with a b show ?thesis by (rule sum_step)
  qed simp_all
qed

lemma yoe_sum_mono: "d \<le> e \<Longrightarrow> 0 \<le> d \<Longrightarrow> e \<le> 146097 \<Longrightarrow> yoe_sum d \<le> yoe_sum e"
proof (induction e rule: int_ge_induct)
  case (step e)
  have "yoe_sum d \<le> yoe_sum e" by (rule step.IH) (use step.prems in simp_all)
  also have "yoe_sum e \<le> yoe_sum (e + 1)" by (rule yoe_sum_step) (use step.prems step.hyps in simp_all)
  finally show ?case .
qed simp_all

text \<open>The day before the first and the day after the last possible one of each of the 400 years.\<close>

lemma year_ends:
  "list_all (\<lambda>y. y = 0 \<or> yoe_of (year_start y - 1) < y) [0..399]"
  "list_all (\<lambda>y. y < yoe_of (year_start y + 366)) [0..399]"
  "list_all (\<lambda>y. 0 \<le> year_start y \<and> year_start y + 366 \<le> 146097) [0..399]"
  by code_simp+

lemma month_ends:
  "list_all (\<lambda>doy. 0 < month_ord doy \<and> month_ord doy < 384) [0..365]"
  "list_all (\<lambda>doy. month_ord doy < month_ord (doy + 1)) [0..365]"
  "list_all (\<lambda>doy. let mp = (5 * doy + 2) div 153; day = doy - (153 * mp + 2) div 5 + 1
    in 0 \<le> mp \<and> mp \<le> 11 \<and> 1 \<le> day \<and> day \<le> 31) [0..365]"
  by code_simp+

lemma month_ord_less: "d < e \<Longrightarrow> 0 \<le> d \<Longrightarrow> e \<le> 365 \<Longrightarrow> month_ord d < month_ord e"
proof (induction e rule: int_gr_induct)
  case base
  then show ?case using month_ends(2) by (auto simp: list_all_iff)
next
  case (step e)
  have "month_ord d < month_ord e" by (rule step.IH) (use step.prems in simp_all)
  also have "month_ord e < month_ord (e + 1)" using month_ends(2) step.prems step.hyps by (auto simp: list_all_iff)
  finally show ?case .
qed

lemma yoe_mono: "d \<le> e \<Longrightarrow> 0 \<le> d \<Longrightarrow> e \<le> 146097 \<Longrightarrow> yoe_of d \<le> yoe_of e"
  unfolding yoe_of_def by (rule zdiv_mono1 [OF yoe_sum_mono]) simp_all

lemma yoe_range: assumes "0 \<le> d" "d < 146097" shows "0 \<le> yoe_of d" "yoe_of d \<le> 399"
proof -
  have "yoe_of 0 = 0" "yoe_of 146096 = 399" by (simp_all add: yoe_of_def)
  then show "0 \<le> yoe_of d" "yoe_of d \<le> 399" using yoe_mono [of 0 d] yoe_mono [of d 146096] assms by simp_all
qed

lemma doy_range: assumes "0 \<le> d" "d < 146097" shows "0 \<le> doy_of d" "doy_of d \<le> 365"
proof -
  let ?y = "yoe_of d"
  have y: "?y \<in> set [0..399]" using yoe_range [OF assms] by simp
  have low: "yoe_of (year_start ?y - 1) < ?y" if "?y \<noteq> 0"
    using year_ends(1) [unfolded list_all_iff, THEN bspec, OF y] that by simp
  have high: "?y < yoe_of (year_start ?y + 366)"
    using year_ends(2) [unfolded list_all_iff, THEN bspec, OF y] .
  have b: "0 \<le> year_start ?y" "year_start ?y + 366 \<le> 146097"
    using year_ends(3) [unfolded list_all_iff, THEN bspec, OF y] by simp_all
  have "year_start ?y \<le> d"
  proof (rule ccontr)
    assume "\<not> year_start ?y \<le> d"
    then have "?y \<le> yoe_of (year_start ?y - 1)" and "?y \<noteq> 0"
      using yoe_mono [of d "year_start ?y - 1"] assms b by (auto simp: year_start_def)
    with low show False by simp
  qed
  then show "0 \<le> doy_of d" by (simp add: doy_of_def)
  have "d < year_start ?y + 366"
    using yoe_mono [of "year_start ?y + 366" d] assms b high by (meson add_nonneg_nonneg linorder_not_less nless_le order.trans zero_le_numeral)
  then show "doy_of d \<le> 365" by (simp add: doy_of_def)
qed

definition era_ord :: "int \<Rightarrow> int" where
  "era_ord doe = 384 * yoe_of doe + month_ord (doy_of doe)"

lemma month_ord_range: "0 \<le> d \<Longrightarrow> d \<le> 365 \<Longrightarrow> 0 < month_ord d \<and> month_ord d < 384"
  using month_ends(1) by (auto simp: list_all_iff)

lemma era_ord_less:
  assumes "d < e" "0 \<le> d" "e < 146097"
  shows "era_ord d < era_ord e"
proof -
  have doy: "0 < month_ord (doy_of d)" "month_ord (doy_of d) < 384" "0 < month_ord (doy_of e)"
    using month_ord_range doy_range [of d] doy_range [of e] assms by simp_all
  have le: "yoe_of d \<le> yoe_of e" by (rule yoe_mono) (use assms in simp_all)
  show ?thesis
  proof (cases "yoe_of d = yoe_of e")
    case True
    then have "doy_of d < doy_of e" using assms(1) by (simp add: doy_of_def)
    then have "month_ord (doy_of d) < month_ord (doy_of e)"
      by (rule month_ord_less) (use doy_range [of d] doy_range [of e] assms in simp_all)
    with True show ?thesis by (simp add: era_ord_def)
  next
    case False
    with le doy show ?thesis by (simp add: era_ord_def)
  qed
qed

lemma era_ord_range: "0 \<le> d \<Longrightarrow> d < 146097 \<Longrightarrow> 0 < era_ord d \<and> era_ord d < 153600"
  using yoe_range [of d] doy_range [of d] month_ord_range [of "doy_of d"] by (simp add: era_ord_def)

lemma civil_parts:
  assumes "0 \<le> doe" "doe < 146097" and "doe = (z + 719468) mod 146097"
  shows "case civil z of (y, m, d) \<Rightarrow> 1 \<le> m \<and> m \<le> 12 \<and> 1 \<le> d \<and> d \<le> 31"
    and "date_ord (civil z) = 153600 * ((z + 719468) div 146097) + era_ord doe + 96"
proof -
  let ?doy = "doy_of doe"
  let ?mp = "(5 * ?doy + 2) div 153"
  define mp where "mp = ?mp"
  define day where "day = ?doy - (153 * mp + 2) div 5 + 1"
  have "?doy \<in> set [0..365]" using doy_range [OF assms(1,2)] by simp
  from bspec [OF month_ends(3) [unfolded list_all_iff] this]
  have r: "0 \<le> mp" "mp \<le> 11" "1 \<le> day" "day \<le> 31" by (simp_all only: Let_def mp_def day_def)
  have c: "civil z = (yoe_of doe + (z + 719468) div 146097 * 400 + (if (if mp < 10 then mp + 3 else mp - 9) \<le> 2 then 1 else 0),
      if mp < 10 then mp + 3 else mp - 9, day)"
    by (simp only: civil_def Let_def mp_def day_def doy_of_def yoe_of_def year_start_def assms(3))
  show "case civil z of (y, m, d) \<Rightarrow> 1 \<le> m \<and> m \<le> 12 \<and> 1 \<le> d \<and> d \<le> 31"
    using r by (simp add: c)
  have "month_ord ?doy = mp * 32 + day" by (simp only: month_ord_def mp_def day_def)
  then show "date_ord (civil z) = 153600 * ((z + 719468) div 146097) + era_ord doe + 96"
    using r by (simp add: c date_ord_def era_ord_def)
qed

lemma civil_less:
  assumes "z < z'"
  shows "date_ord (civil z) < date_ord (civil z')"
proof -
  define q q' r r' where "q = (z + 719468) div 146097" "q' = (z' + 719468) div 146097"
    "r = (z + 719468) mod 146097" "r' = (z' + 719468) mod 146097"
  note d = this
  have r: "0 \<le> r" "r < 146097" "0 \<le> r'" "r' < 146097" by (simp_all add: d)
  have z: "146097 * q + r < 146097 * q' + r'"
    using assms mult_div_mod_eq [of 146097 "z + 719468"] mult_div_mod_eq [of 146097 "z' + 719468"] unfolding d by simp
  have o: "date_ord (civil z) = 153600 * q + era_ord r + 96" "date_ord (civil z') = 153600 * q' + era_ord r' + 96"
    using civil_parts(2) r unfolding d by simp_all
  have "q \<le> q'" using assms unfolding d by (intro zdiv_mono1) simp_all
  then show ?thesis
    using z era_ord_less [of r r'] era_ord_range [of r] era_ord_range [of r'] r
    by (cases "q = q'") (simp_all add: o)
qed

section \<open>The text\<close>

lemma append_less_iff:
  "length xs = length us \<Longrightarrow> xs @ ys < us @ vs \<longleftrightarrow> xs < us \<or> xs = us \<and> ys < (vs :: bytes)"
  by (induction xs us rule: list_induct2) auto

lemma digit_less: "m < 10 \<Longrightarrow> n < 10 \<Longrightarrow> char_of (48 + m) < (char_of (48 + n) :: char) \<longleftrightarrow> m < (n :: nat)"
  by (simp add: less_char_def)

lemma digit_eq: "m < 10 \<Longrightarrow> n < 10 \<Longrightarrow> (char_of (48 + m) :: char) = char_of (48 + n) \<longleftrightarrow> m = (n :: nat)"
  using digit_less [of m n] digit_less [of n m] by (metis linorder_neq_iff)

lemma last_digit_less:
  "r < 10 \<Longrightarrow> r' < 10 \<Longrightarrow> a * 10 + r < b * 10 + r' \<longleftrightarrow> a < b \<or> a = b \<and> r < (r' :: nat)"
  by auto

text \<open>A number in a field of fixed width.\<close>

fun field :: "nat \<Rightarrow> nat \<Rightarrow> string" where
  "field 0 n = []"
| "field (Suc w) n = field w (n div 10) @ [char_of (48 + n mod 10)]"

lemma length_field [simp]: "length (field w n) = w"
  by (induction w n rule: field.induct) simp_all

lemma field_0: "field w 0 = replicate w (CHR ''0'')"
proof (induction w)
  case (Suc w)
  have "char_of (48 :: nat) = CHR ''0''" by code_simp
  with Suc show ?case by (simp add: replicate_append_same)
qed simp

lemma field_less: "m < 10 ^ w \<Longrightarrow> n < 10 ^ w \<Longrightarrow> field w m < field w n \<longleftrightarrow> m < n"
  and field_eq: "m < 10 ^ w \<Longrightarrow> n < 10 ^ w \<Longrightarrow> field w m = field w n \<longleftrightarrow> m = n"
proof (induction w arbitrary: m n)
  case (Suc w)
  have lt: "m div 10 < 10 ^ w" "n div 10 < 10 ^ w"
    if "m < 10 ^ Suc w" "n < 10 ^ Suc w" for m n :: nat using that by (simp_all add: less_mult_imp_div_less mult.commute)
  have eq: "m = n \<longleftrightarrow> m div 10 = n div 10 \<and> m mod 10 = n mod 10" for m n :: nat by (metis div_mult_mod_eq)
  have less: "m < n \<longleftrightarrow> m div 10 < n div 10 \<or> m div 10 = n div 10 \<and> m mod 10 < n mod 10" for m n :: nat
    using last_digit_less [of "m mod 10" "n mod 10" "m div 10" "n div 10"] by simp
  { case 1
    then show ?case using Suc.IH [of "m div 10" "n div 10"] lt
      by (simp add: append_less_iff digit_less less [of m n])
  next
    case 2
    then show ?case using Suc.IH [of "m div 10" "n div 10"] lt by (simp add: digit_eq eq [of m n]) }
qed simp_all

lemma field_digits: "n < 10 ^ Suc w \<Longrightarrow>
  length (nat_digits n) \<le> Suc w \<and> field (Suc w) n = replicate (Suc w - length (nat_digits n)) (CHR ''0'') @ nat_digits n"
proof (induction w arbitrary: n)
  case 0
  then show ?case by (simp add: nat_digits.simps [of n])
next
  case (Suc w)
  show ?case
  proof (cases "n < 10")
    case True
    then show ?thesis by (simp add: nat_digits.simps [of n] field_0 replicate_append_same del: replicate.simps)
  next
    case False
    have "n div 10 < 10 ^ Suc w" using Suc.prems by (simp add: less_mult_imp_div_less mult.commute)
    from Suc.IH [OF this] False show ?thesis by (simp add: nat_digits.simps [of n] Suc_diff_le)
  qed
qed

lemma appendInt_field: "0 \<le> n \<Longrightarrow> n < 10 ^ Suc w \<Longrightarrow> appendInt n (Suc w) = field (Suc w) (nat n)"
  using field_digits [of "nat n" w] by (simp add: appendInt_def nat_less_iff Let_def del: field.simps)

lemma appendInt_2:
  assumes "0 \<le> m" "m < 100" "0 \<le> n" "n < 100"
  shows "length (appendInt m 2) = 2" "appendInt m 2 < appendInt n 2 \<longleftrightarrow> m < n" "appendInt m 2 = appendInt n 2 \<longleftrightarrow> m = n"
  using assms appendInt_field [of m 1] appendInt_field [of n 1] field_less [of "nat m" 2 "nat n"] field_eq [of "nat m" 2 "nat n"]
  by (simp_all add: numeral_2_eq_2 nat_less_eq_zless eq_nat_nat_iff del: field.simps zless_nat_conj)

lemma appendInt_4:
  assumes "0 \<le> m" "m < 10000" "0 \<le> n" "n < 10000"
  shows "length (appendInt m 4) = 4" "appendInt m 4 < appendInt n 4 \<longleftrightarrow> m < n" "appendInt m 4 = appendInt n 4 \<longleftrightarrow> m = n"
  using assms appendInt_field [of m 3] appendInt_field [of n 3] field_less [of "nat m" 4 "nat n"] field_eq [of "nat m" 4 "nat n"]
  by (simp_all add: nat_less_eq_zless eq_nat_nat_iff del: field.simps zless_nat_conj)

section \<open>Order and length of the keys\<close>

definition local_sec :: "(int \<Rightarrow> int) \<Rightarrow> gtime \<Rightarrow> int" where
  "local_sec local t = t_ns t div 1000000000 + zone_offset local t"

definition year_of :: "(int \<Rightarrow> int) \<Rightarrow> gtime \<Rightarrow> int" where
  "year_of local t = fst (civil (local_sec local t div 86400))"

definition four_digits :: "(int \<Rightarrow> int) \<Rightarrow> gtime \<Rightarrow> bool" where
  "four_digits local t \<longleftrightarrow> 0 \<le> year_of local t \<and> year_of local t < 10000"

definition day_text :: "int \<Rightarrow> bytes" where
  "day_text z = (case civil z of (y, mo, d) \<Rightarrow> appendInt y 4 @ ''-'' @ appendInt mo 2 @ ''-'' @ appendInt d 2)"

definition clock_text :: "int \<Rightarrow> bytes" where
  "clock_text r = appendInt (r div 3600) 2 @ '':'' @ appendInt (r mod 3600 div 60) 2 @ '':'' @ appendInt (r mod 60) 2"

definition zone_text :: "int \<Rightarrow> bytes" where
  "zone_text off = (if off = 0 then ''Z''
     else (if off < 0 then ''-'' else ''+'') @ appendInt (\<bar>off\<bar> div 60 div 60) 2 @ '':'' @ appendInt (\<bar>off\<bar> div 60 mod 60) 2)"

lemma rfc3339_parts:
  "rfc3339 local t = day_text (local_sec local t div 86400) @ ''T'' @ clock_text (local_sec local t mod 86400) @
     zone_text (zone_offset local t)"
  by (simp add: rfc3339_def Let_def local_sec_def day_text_def clock_text_def zone_text_def split_beta)

lemma civil_ranges: "case civil z of (y, m, d) \<Rightarrow> 1 \<le> m \<and> m \<le> 12 \<and> 1 \<le> d \<and> d \<le> 31"
  by (rule civil_parts(1) [of "(z + 719468) mod 146097"]) simp_all

lemma div_less: "0 < q \<Longrightarrow> m < n * q \<Longrightarrow> m div q < (n :: int)"
  by (rule ccontr) (use mult_right_mono [of n "m div q" q] div_mult_mod_eq [of m q] pos_mod_sign [of q m] in linarith)

lemma clock_ranges:
  fixes r :: int
  assumes "0 \<le> r" "r < 86400"
  shows "0 \<le> r div 3600" "r div 3600 < 24" "0 \<le> r mod 3600 div 60" "r mod 3600 div 60 < 60" "0 \<le> r mod 60" "r mod 60 < 60"
    and "r = 3600 * (r div 3600) + 60 * (r mod 3600 div 60) + r mod 60"
proof -
  have "r mod 60 = r mod 3600 mod 60" by (simp add: mod_mod_cancel)
  then show "r = 3600 * (r div 3600) + 60 * (r mod 3600 div 60) + r mod 60"
    using mult_div_mod_eq [of 3600 r] mult_div_mod_eq [of 60 "r mod 3600"] by simp
qed (use assms in \<open>simp_all add: pos_imp_zdiv_nonneg_iff div_less\<close>)

lemma year_field: "four_digits local t \<Longrightarrow> civil (local_sec local t div 86400) = (y, m, d) \<Longrightarrow> 0 \<le> y \<and> y < 10000"
  by (simp add: four_digits_def year_of_def)

lemma day_text_length:
  assumes "civil z = (y, m, d)" "0 \<le> y" "y < 10000"
  shows "length (day_text z) = 10"
  using assms civil_ranges [of z] appendInt_2(1) [of m m] appendInt_2(1) [of d d] appendInt_4(1) [of y y]
  by (simp add: day_text_def)

lemma day_text_less:
  assumes "z < z'" and c: "civil z = (y, m, d)" "civil z' = (y', m', d')"
    and "0 \<le> y" "y < 10000" "0 \<le> y'" "y' < 10000"
  shows "day_text z < day_text z'"
proof -
  have r: "1 \<le> m" "m \<le> 12" "1 \<le> d" "d \<le> 31" "1 \<le> m'" "m' \<le> 12" "1 \<le> d'" "d' \<le> 31"
    using civil_ranges [of z] civil_ranges [of z'] c by simp_all
  have "date_ord (y, m, d) < date_ord (y', m', d')" using civil_less [OF assms(1)] c by simp
  with r have "y < y' \<or> y = y' \<and> (m < m' \<or> m = m' \<and> d < d')" by (auto simp: date_ord_def)
  then show ?thesis
    using r assms(4-7) appendInt_4 [of y y'] appendInt_4(1) [of y' y] appendInt_2 [of m m'] appendInt_2(1) [of m' m] appendInt_2 [of d d']
    by (auto simp: day_text_def c append_less_iff)
qed

lemma clock_text_length: "0 \<le> r \<Longrightarrow> r < 86400 \<Longrightarrow> length (clock_text r) = 8"
  using clock_ranges(1-6) [of r] appendInt_2(1) [of "r div 3600" 0] appendInt_2(1) [of "r mod 3600 div 60" 0]
    appendInt_2(1) [of "r mod 60" 0, OF _ less_trans [OF pos_mod_bound]]
  by (simp add: clock_text_def)

lemma clock_text_less:
  assumes "r < r'" "0 \<le> r" "r' < 86400"
  shows "clock_text r < clock_text r'"
proof -
  define h m s h' m' s' where "h = r div 3600" "m = r mod 3600 div 60" "s = r mod 60"
    "h' = r' div 3600" "m' = r' mod 3600 div 60" "s' = r' mod 60"
  note d = this
  have r: "r < 86400" "0 \<le> r'" using assms by simp_all
  note b = clock_ranges [OF assms(2) r(1), folded d] clock_ranges [OF r(2) assms(3), folded d]
  with assms(1) have "h < h' \<or> h = h' \<and> (m < m' \<or> m = m' \<and> s < s')" by auto
  then show ?thesis
    using b appendInt_2 [of h h'] appendInt_2(1) [of h' h] appendInt_2 [of m m'] appendInt_2(1) [of m' m] appendInt_2 [of s s']
    unfolding clock_text_def d [symmetric] by (auto simp: append_less_iff)
qed

lemma rfc3339_less:
  assumes "local_sec local a < local_sec local b" and four: "four_digits local a" "four_digits local b"
  shows "rfc3339 local a < rfc3339 local b"
proof -
  let ?a = "local_sec local a" and ?b = "local_sec local b"
  obtain y m d y' m' d' where c: "civil (?a div 86400) = (y, m, d)" "civil (?b div 86400) = (y', m', d')" by (meson prod_cases3)
  note y = year_field [OF four(1) c(1)] year_field [OF four(2) c(2)]
  have l: "length (day_text (?a div 86400)) = length (day_text (?b div 86400))"
    "length (clock_text (?a mod 86400)) = length (clock_text (?b mod 86400))"
    using day_text_length [OF c(1)] day_text_length [OF c(2)] y by (simp_all add: clock_text_length)
  have le: "?a div 86400 \<le> ?b div 86400" using assms(1) by (intro zdiv_mono1) simp_all
  show ?thesis
  proof (cases "?a div 86400 = ?b div 86400")
    case True
    then have "?a mod 86400 < ?b mod 86400"
      using assms(1) by (metis add_less_cancel_left mult_div_mod_eq)
    then show ?thesis using l True by (simp add: rfc3339_parts append_less_iff clock_text_less)
  next
    case False
    with le have "day_text (?a div 86400) < day_text (?b div 86400)" using day_text_less [OF _ c] y by simp
    then show ?thesis using l by (simp add: rfc3339_parts append_less_iff)
  qed
qed

text \<open>Within one offset and the years of four digits, keys are ordered as their seconds.\<close>

lemma rfc3339_order:
  assumes "zone_offset local a = zone_offset local b" "four_digits local a" "four_digits local b"
  shows "rfc3339 local a < rfc3339 local b \<longleftrightarrow> t_ns a div 1000000000 < t_ns b div 1000000000"
    and "rfc3339 local a = rfc3339 local b \<longleftrightarrow> t_ns a div 1000000000 = t_ns b div 1000000000"
proof -
  have less: "rfc3339 local x < rfc3339 local y" if "t_ns x div 1000000000 < t_ns y div 1000000000"
      "zone_offset local x = zone_offset local y" "four_digits local x" "four_digits local y" for x y
    using that by (intro rfc3339_less) (simp_all add: local_sec_def)
  have eq: "t_ns a div 1000000000 = t_ns b div 1000000000 \<Longrightarrow> rfc3339 local a = rfc3339 local b"
    using assms(1) by (simp add: rfc3339_parts local_sec_def)
  show "rfc3339 local a < rfc3339 local b \<longleftrightarrow> t_ns a div 1000000000 < t_ns b div 1000000000"
    and "rfc3339 local a = rfc3339 local b \<longleftrightarrow> t_ns a div 1000000000 = t_ns b div 1000000000"
    using less [of a b] less [of b a] eq assms
    by (cases rule: linorder_cases [of "t_ns a div 1000000000" "t_ns b div 1000000000"]; force)+
qed

lemma rfc3339_length:
  assumes "four_digits local t" "\<bar>zone_offset local t\<bar> < 360000"
  shows "length (rfc3339 local t) = (if zone_offset local t = 0 then 20 else 25)"
proof -
  let ?off = "zone_offset local t"
  obtain y m d where c: "civil (local_sec local t div 86400) = (y, m, d)" by (meson prod_cases3)
  have "length (zone_text ?off) = (if ?off = 0 then 1 else 6)"
    using assms(2) appendInt_2(1) [of "\<bar>?off\<bar> div 60 div 60" 0] appendInt_2(1) [of "\<bar>?off\<bar> div 60 mod 60" 0]
    by (simp add: zone_text_def div_less pos_imp_zdiv_nonneg_iff)
  then show ?thesis
    using day_text_length [OF c] year_field [OF assms(1) c] by (simp add: rfc3339_parts clock_text_length)
qed

end
