(* ===== verification/Convos.thy ===== *)
theory Convos
  imports Streams River Rfc3339
begin

text \<open>
  The messages of convos (\<^verbatim>\<open>convo/message.go\<close>, \<^verbatim>\<open>convo/read.go\<close>) and the scribes that write
  them down (\<^verbatim>\<open>convo/scribe.go\<close>).  Messages lie in \<^verbatim>\<open>messages/{convo}\<close> under their RFC 3339
  time; the members of a running convo are checked in under \<^verbatim>\<open>rivers/scribes/{convo}\<close>.

  The theorems: \<^verbatim>\<open>GetMessageRange\<close> with its cursor and its reversal in place equals a
  specification by filtering; what a scribe writes can be read back; and three places where
  messages or check-ins get lost.
\<close>

section \<open>Messages\<close>

record Message =
  msg_Sender :: string
  msg_Content :: string
  msg_Timestamp :: gtime

definition zero_Message :: Message where
  "zero_Message = \<lparr>msg_Sender = [], msg_Content = [], msg_Timestamp = \<lparr>t_ns = - 62135596800000000000, t_zone = ZUTC\<rparr>\<rparr>"

definition enc_Message :: "Message \<Rightarrow> json" where
  "enc_Message m = JObj [(''sender'', JStr (msg_Sender m)), (''content'', JStr (msg_Content m)),
                         (''timestamp'', JTime (msg_Timestamp m))]"

definition dec_Message :: "json \<Rightarrow> Message \<Rightarrow> Message option" where
  "dec_Message j m =
     (if is_obj j then do {
        sd \<leftarrow> dec_str (jfield ''sender'' j) (msg_Sender m);
        ct \<leftarrow> dec_str (jfield ''content'' j) (msg_Content m);
        ts \<leftarrow> dec_time (jfield ''timestamp'' j) (msg_Timestamp m);
        Some \<lparr>msg_Sender = sd, msg_Content = ct, msg_Timestamp = ts\<rparr>
      } else None)"

definition convo_InitMessages :: "string \<Rightarrow> unit dbop" where
  "convo_InitMessages i = on_bkt [MessageBucket] (Bucket_CreateBucketIfNotExists i)"

definition convo_DeleteMessages :: "string \<Rightarrow> unit dbop" where
  "convo_DeleteMessages i = on_bkt [MessageBucket] (Bucket_DeleteBucket i)"

text \<open>The loop that walks back from the end of the range: the entries before the cursor, the
  last one first.\<close>

fun range_back :: "bytes \<Rightarrow> int \<Rightarrow> (bytes \<times> entry) list \<Rightarrow> Message list \<Rightarrow> Message list go" where
  "range_back fromBytes max' [] result = Ret result"
| "range_back fromBytes max' ((t, e) # es) result =
     (if int (length result) < max' \<and> fromBytes \<le> t then
        go_bind (json_Unmarshal_item dec_Message (case e of Leaf v \<Rightarrow> Some v | Sub _ \<Rightarrow> None) zero_Message) (\<lambda>nxt.
          range_back fromBytes max' es (result @ [nxt]))
      else Ret result)"

text \<open>The loop that reverses the result in place.\<close>

fun swap_halves :: "nat \<Rightarrow> nat \<Rightarrow> 'a list \<Rightarrow> 'a list" where
  "swap_halves i 0 xs = xs"
| "swap_halves i (Suc k) xs =
     swap_halves (Suc i) k (xs[length xs - i - 1 := xs ! i, i := xs ! (length xs - i - 1)])"

text \<open>
  The cursor is an index into the entries.  The result is a slice: \<open>None\<close> is nil.
\<close>

definition range_at :: "bytes \<Rightarrow> bytes \<Rightarrow> int \<Rightarrow> (bytes \<times> entry) list \<Rightarrow> Message list option go" where
  "range_at fromBytes toBytes max' es =
     (let i = length (takeWhile (\<lambda>p. fst p < toBytes) es);
          scan = (\<lambda>k. go_bind (range_back fromBytes max' (rev (take (Suc k) es)) []) (\<lambda>result.
                   Ret (if result = [] then None else Some (swap_halves 0 (length result div 2) result))));
          prev = (if i = 0 then Ret (Some [])
                  else if fst (es ! (i - 1)) < fromBytes then Ret (Some [])
                  else scan (i - 1))
      in if i < length es then (if fst (es ! i) > toBytes then prev else scan i) else prev)"

definition convo_GetMessageRange :: "(int \<Rightarrow> int) \<Rightarrow> string \<Rightarrow> gtime \<Rightarrow> gtime \<Rightarrow> int \<Rightarrow> Message list option dbop" where
  "convo_GetMessageRange local convoID from to max' =
     db_bind (db_catch (store_GetNestedBucket [MessageBucket] [convoID])
                (\<lambda>e. case e of ErrMissingBucket b \<Rightarrow> db_fail (convo_errMissing b) | _ \<Rightarrow> db_fail e)) (\<lambda>p.
       rd_bkt p (\<lambda>b. range_at (rfc3339 local from) (rfc3339 local to) max' (bents b)))"

definition convo_GetMessages :: "(int \<Rightarrow> int) \<Rightarrow> gtime \<Rightarrow> string \<Rightarrow> Message list option dbop" where
  "convo_GetMessages local now convoID =
     convo_GetMessageRange local convoID (now\<lparr>t_ns := t_ns now - 7 * 24 * 3600 * 1000000000\<rparr>) now 50"

section \<open>Sending\<close>

record stream_Message =
  smsg_Kind :: int64
  smsg_Content :: string

definition dec_stream_Message :: "json \<Rightarrow> stream_Message \<Rightarrow> stream_Message option" where
  "dec_stream_Message j m =
     (if is_obj j then do {
        k \<leftarrow> dec_int64 (jfield ''kind'' j) (smsg_Kind m);
        c \<leftarrow> dec_str (jfield ''content'' j) (smsg_Content m);
        Some \<lparr>smsg_Kind = k, smsg_Content = c\<rparr>
      } else None)"

text \<open>What arrives on a web socket: a document, text that is not one, or an error.\<close>

datatype ws_recv = WsDoc json | WsSyntaxError | WsError err

text \<open>The bytes, whether the connection is still good or failed for good, and the error.\<close>

definition convo_Sender_Read :: "string \<Rightarrow> gtime \<Rightarrow> ws_recv \<Rightarrow> json option \<times> bool \<times> err option" where
  "convo_Sender_Read name now r =
     (case r of
        WsDoc j \<Rightarrow>
          (case dec_stream_Message j \<lparr>smsg_Kind = 0, smsg_Content = []\<rparr> of
             Some m \<Rightarrow> (Some (enc_Message \<lparr>msg_Sender = name, msg_Content = smsg_Content m, msg_Timestamp = now\<rparr>), True, None)
           | None \<Rightarrow> (None, False, Some (Wrapped ''failed to unmarshal stream.Message'' JsonErr)))
      | WsSyntaxError \<Rightarrow> (None, False, Some (Wrapped ''failed to unmarshal stream.Message'' JsonErr))
      | WsError e \<Rightarrow> (None, True, Some (Wrapped ''failed to unmarshal stream.Message'' e)))"

section \<open>Scribes\<close>

definition MaxBuffer :: nat where "MaxBuffer = 128"

definition scribe_bucket :: "string \<Rightarrow> path dbop" where
  "scribe_bucket s = store_GetNestedBucket [RiverBucket] [ScribeBucket, s]"

definition convo_Scribe_CheckExists :: "string \<Rightarrow> unit dbop" where
  "convo_Scribe_CheckExists s =
     db_bind (db_catch (scribe_bucket s)
                (\<lambda>e. case e of ErrMissingBucket b \<Rightarrow> db_fail (convo_errMissing b) | _ \<Rightarrow> db_fail e)) (\<lambda>p.
       rd_bkt p (\<lambda>b. if bents b = [] then Fail (convo_errMissing s) else Ret ()))"

definition convo_Checkin :: "string \<Rightarrow> (uint64 \<times> bool) dbop" where
  "convo_Checkin s =
     db_bind (store_MakeNestedBucket [RiverBucket] [ScribeBucket, s]) (\<lambda>p.
     db_bind (rd_bkt p (\<lambda>b. Ret (bseq b, bents b = []))) (\<lambda>(seq, first).
     db_bind (on_bkt p (Bucket_Put (LittleEndian_PutUint64 seq) (Raw []))) (\<lambda>_.
       db_return (seq, first))))"

definition convo_Checkout :: "string \<Rightarrow> uint64 \<Rightarrow> bool dbop" where
  "convo_Checkout s i =
     db_bind (scribe_bucket s) (\<lambda>p.
     db_bind (on_bkt p (Bucket_Delete (LittleEndian_PutUint64 i))) (\<lambda>_.
       rd_bkt p (\<lambda>b. Ret (bents b = []))))"

definition convo_DeleteCheckins :: "string \<Rightarrow> unit dbop" where
  "convo_DeleteCheckins s =
     db_bind (store_GetNestedBucket [RiverBucket] [ScribeBucket]) (\<lambda>p st.
       if bkt_at (p @ [s]) st \<noteq> None then on_bkt p (Bucket_DeleteBucket s) st else (Ret (), st))"

text \<open>The database part of \<^verbatim>\<open>Spawn\<close>: the responder and the bus of the scribe.\<close>

definition convo_Spawn :: "net \<Rightarrow> string \<Rightarrow> (respondent \<times> bus) dbop" where
  "convo_Spawn net s =
     db_bind (river_NewResponder net [HangupBucket, ScribeBucket, s]) (\<lambda>rsp.
     db_bind (river_NewBus net s s) (\<lambda>scr. db_return (rsp, scr)))"

type_synonym Entry = "bytes \<times> val"

text \<open>One transaction of the write loop.\<close>

definition scribe_write :: "string \<Rightarrow> Entry list \<Rightarrow> unit dbop" where
  "scribe_write s buf =
     db_bind (store_MakeNestedBucket [MessageBucket] [s]) (\<lambda>b.
       store_Wrap (map (\<lambda>(k, v). on_bkt b (Bucket_Put k v)) buf))"

text \<open>
  The goroutine of \<^verbatim>\<open>Spawn\<close> as a reaction to what its \<^verbatim>\<open>select\<close> sees: the timer, a message, the
  end of the input.  \<open>None\<close> is \<^verbatim>\<open>log.Fatalf\<close>; the result tells whether the loop has ended, and
  the buffer.  The events are consumed one by one, so the loop runs as long as there are any.
\<close>

datatype scribe_event = Tick | Arrived val | InputClosed

fun scribe_run :: "(int \<Rightarrow> int) \<Rightarrow> string \<Rightarrow> scribe_event list \<Rightarrow> Entry list \<Rightarrow> db \<Rightarrow> (bool \<times> Entry list \<times> db) option" where
  "scribe_run local s [] buf st = Some (False, buf, st)"
| "scribe_run local s (Tick # evs) buf st =
     (if length buf > 0 then
        (case db_Update (scribe_write s buf) st of
           (Ret _, st') \<Rightarrow> scribe_run local s evs [] st'
         | _ \<Rightarrow> None)
      else scribe_run local s evs buf st)"
| "scribe_run local s (InputClosed # evs) buf st = Some (True, buf, st)"
| "scribe_run local s (Arrived bs # evs) buf st =
     (case json_Unmarshal dec_Message bs zero_Message of
        Ret msg \<Rightarrow>
          (let buf' = buf @ [(rfc3339 local (msg_Timestamp msg), bs)]
           in if length buf' < MaxBuffer then scribe_run local s evs buf' st
              else (case db_Update (scribe_write s buf') st of
                      (Ret _, st') \<Rightarrow> scribe_run local s evs [] st'
                    | _ \<Rightarrow> None))
      | _ \<Rightarrow> None)"

text \<open>The clean-up after the loop: both deletions run, and the error of either aborts.\<close>

definition scribe_cleanup :: "string \<Rightarrow> uint64 \<Rightarrow> uint64 \<Rightarrow> unit dbop" where
  "scribe_cleanup s scrID hID st =
     (case river_DeleteBus s s scrID st of
        (Panic, st1) \<Rightarrow> (Panic, st1)
      | (rB, st1) \<Rightarrow>
          (case (rB, river_DeleteResp hID [HangupBucket, ScribeBucket, s] st1) of
             (_, Panic, st2) \<Rightarrow> (Panic, st2)
           | (Fail eB, Fail eS, st2) \<Rightarrow> (Fail (Wrapped ''DeleteBus failed'' eS), st2)
           | (Fail eB, Ret _, st2) \<Rightarrow> (Fail eB, st2)
           | (_, Fail eS, st2) \<Rightarrow> (Fail eS, st2)
           | (_, Ret _, st2) \<Rightarrow> (Ret (), st2)))"

definition convo_Hangup ::
    "net \<Rightarrow> (nat \<Rightarrow> bytes \<Rightarrow> err option) \<Rightarrow> (nat \<Rightarrow> nat \<Rightarrow> bytes go) \<Rightarrow> string \<Rightarrow> unit dbop" where
  "convo_Hangup net send recv s st =
     (case db_Update (river_NewSurvey net [HangupBucket, ScribeBucket, s]) st of
        (Ret surv, st1) \<Rightarrow> (river_MakeSurvey send recv surv HUP OK, st1)
      | (Fail e, st1) \<Rightarrow> (Fail e, st1)
      | (Panic, st1) \<Rightarrow> (Panic, st1))"

section \<open>Lemmas on the range\<close>

lemma length_swap_halves [simp]: "length (swap_halves i k xs) = length xs"
  by (induction i k xs rule: swap_halves.induct) simp_all

lemma nth_swap_halves:
  "2 * (i + k) \<le> length xs \<Longrightarrow> j < length xs \<Longrightarrow>
   swap_halves i k xs ! j =
     (if i \<le> j \<and> j < i + k \<or> length xs - i - k \<le> j \<and> j < length xs - i then xs ! (length xs - j - 1) else xs ! j)"
proof (induction i k xs rule: swap_halves.induct)
  case (2 i k xs)
  let ?n = "length xs"
  define ys where "ys = xs[?n - i - 1 := xs ! i, i := xs ! (?n - i - 1)]"
  have ys: "ys ! m = (if m = i then xs ! (?n - i - 1) else if m = ?n - i - 1 then xs ! i else xs ! m)" if "m < ?n" for m
    using that by (auto simp: ys_def nth_list_update)
  have n: "length ys = ?n" by (simp add: ys_def)
  have "swap_halves (Suc i) k ys ! j =
      (if Suc i \<le> j \<and> j < Suc i + k \<or> ?n - Suc i - k \<le> j \<and> j < ?n - Suc i then ys ! (?n - j - 1) else ys ! j)"
    using "2.IH" [folded ys_def, unfolded n] "2.prems" by simp
  also have "\<dots> = (if i \<le> j \<and> j < i + Suc k \<or> ?n - i - Suc k \<le> j \<and> j < ?n - i then xs ! (?n - j - 1) else xs ! j)"
  proof -
    consider "j = i" | "j = ?n - i - 1" | "j \<noteq> i" "j \<noteq> ?n - i - 1" by blast
    then show ?thesis
    proof cases
      case 3
      have "i < ?n" "j < ?n" using "2.prems" by auto
      then have "j = ?n - i - 1" if "?n - j - 1 = i" using that by linarith
      moreover have "j = i" if "?n - j - 1 = ?n - i - 1" using that \<open>i < ?n\<close> \<open>j < ?n\<close> by linarith
      ultimately have "?n - j - 1 \<noteq> i" "?n - j - 1 \<noteq> ?n - i - 1" using 3 by blast+
      with 3 "2.prems" ys [of j] ys [of "?n - j - 1"] show ?thesis by auto
    qed (use "2.prems" ys [of j] in auto)
  qed
  finally show ?case by (simp add: ys_def)
qed auto

lemma swap_halves_rev: "swap_halves 0 (length xs div 2) xs = rev xs"
proof (rule nth_equalityI)
  fix j assume "j < length (swap_halves 0 (length xs div 2) xs)"
  then have j: "j < length xs" by simp
  have "j = length xs - j - 1" if "\<not> j < length xs div 2" "\<not> length xs - length xs div 2 \<le> j"
    using that by linarith
  then show "swap_halves 0 (length xs div 2) xs ! j = rev xs ! j"
    using j by (auto simp: nth_swap_halves rev_nth)
qed simp

text \<open>The entries that hold the messages of an association list.\<close>

abbreviation msg_ents :: "(bytes \<times> Message) list \<Rightarrow> (bytes \<times> entry) list" where
  "msg_ents \<equiv> map (\<lambda>p. (fst p, Leaf (Doc (enc_Message (snd p)))))"

lemma dec_enc_Message [simp]: "dec_Message (enc_Message m) zero_Message = Some m"
  by (cases m) (simp add: dec_Message_def enc_Message_def zero_Message_def)

interpretation message_codec: json_codec enc_Message dec_Message zero_Message "\<lambda>_. True"
  by unfold_locales simp

lemma range_back_eq:
  "int (length r) \<le> max' \<Longrightarrow>
   range_back from max' (msg_ents kms) r =
     Ret (r @ take (nat max' - length r) (map snd (takeWhile (\<lambda>p. from \<le> fst p) kms)))"
proof (induction kms arbitrary: r)
  case (Cons p kms)
  show ?case
  proof (cases "int (length r) < max' \<and> from \<le> fst p")
    case True
    then have "length r < nat max'" by linarith
    then have "nat max' - length r = Suc (nat max' - length (r @ [snd p]))" by (simp add: Suc_diff_Suc)
    with True Cons.IH [of "r @ [snd p]"] show ?thesis by simp
  next
    case False
    with Cons.prems show ?thesis by auto
  qed
qed simp

lemma sorted_filter_le:
  assumes "sorted_wrt (<) (map fst es)"
  shows "filter (\<lambda>p. fst p \<le> (k :: 'k :: linorder)) es =
    (let i = length (takeWhile (\<lambda>p. fst p < k) es)
     in take (if i < length es \<and> \<not> k < fst (es ! i) then Suc i else i) es)"
  using assms
proof (induction es)
  case (Cons p es)
  have "fst p < k \<or> fst p = k \<or> k < fst p" by auto
  moreover have "filter (\<lambda>p. fst p \<le> k) es = []" if "k \<le> fst p"
    using Cons.prems that by (force simp: filter_empty_conv)
  ultimately show ?case using Cons by (auto simp: Let_def)
qed simp

lemma sorted_back:
  assumes "sorted_wrt (<) (map fst es)"
  shows "takeWhile (\<lambda>p. (k :: 'k :: linorder) \<le> fst p) (rev es) = rev (filter (\<lambda>p. k \<le> fst p) es)"
  using assms
proof (induction es rule: rev_induct)
  case (snoc p es)
  have "filter (\<lambda>p. k \<le> fst p) es = []" if "fst p < k"
    using snoc.prems that by (force simp: filter_empty_conv sorted_wrt_append)
  with snoc show ?case by (auto simp: sorted_wrt_append)
qed simp

text \<open>The last \<open>n\<close> messages of the range, by filtering.\<close>

definition range_spec :: "bytes \<Rightarrow> bytes \<Rightarrow> nat \<Rightarrow> (bytes \<times> Message) list \<Rightarrow> Message list" where
  "range_spec from to n kms =
     (let ms = map snd (filter (\<lambda>p. from \<le> fst p \<and> fst p \<le> to) kms) in drop (length ms - n) ms)"

definition slice :: "'a list option \<Rightarrow> 'a list" where
  "slice x = (case x of None \<Rightarrow> [] | Some ms \<Rightarrow> ms)"

text \<open>The walk back from the last entry of the range, and its reversal in place.\<close>

abbreviation range_scan :: "bytes \<Rightarrow> nat \<Rightarrow> (bytes \<times> Message) list \<Rightarrow> nat \<Rightarrow> Message list option go" where
  "range_scan from n kms k \<equiv> go_bind (range_back from (int n) (rev (take (Suc k) (msg_ents kms))) []) (\<lambda>result.
     Ret (if result = [] then None else Some (swap_halves 0 (length result div 2) result)))"

lemma range_spec_pre:
  "range_spec from to n kms =
     (let ps = filter (\<lambda>p. from \<le> fst p) (filter (\<lambda>p. fst p \<le> to) kms) in drop (length ps - n) (map snd ps))"
  by (simp add: range_spec_def conj_commute Let_def)

lemma range_scan_eq:
  assumes srt: "sorted_wrt (<) (map fst kms)" and pre: "filter (\<lambda>p. fst p \<le> to) kms = take (Suc k) kms"
  shows "\<exists>x. range_scan from n kms k = Ret x \<and> slice x = range_spec from to n kms"
proof -
  let ?pre = "filter (\<lambda>p. fst p \<le> to) kms"
  define res where "res = take n (map snd (takeWhile (\<lambda>p. from \<le> fst p) (rev ?pre)))"
  have srt_pre: "sorted_wrt (<) (map fst ?pre)" using srt by (induction kms) auto
  have "range_back from (int n) (rev (take (Suc k) (msg_ents kms))) [] = Ret res"
    using range_back_eq [of "[]" "int n" "from" "rev ?pre"] pre by (simp add: take_map rev_map res_def)
  then have "range_scan from n kms k = Ret (if res = [] then None else Some (rev res))"
    by (simp add: swap_halves_rev)
  moreover have "rev res = range_spec from to n kms"
    by (simp add: res_def range_spec_pre Let_def sorted_back [OF srt_pre] take_rev flip: rev_map)
  ultimately show ?thesis by (auto simp: slice_def)
qed

lemma sorted_take_below:
  assumes srt: "sorted_wrt (<) (map fst kms)" and i: "i \<le> length kms" "i = 0 \<or> fst (kms ! (i - 1)) < from"
    and q: "q \<in> set (take i kms)"
  shows "fst q < (from :: bytes)"
proof -
  from q obtain j where j: "j < i" "q = kms ! j" using i(1) by (auto simp: in_set_conv_nth)
  have "fst (kms ! j) \<le> fst (kms ! (i - 1))"
    using srt j(1) i(1) by (cases "j = i - 1") (auto simp: sorted_wrt_iff_nth_less less_imp_le)
  with i(2) j show ?thesis by auto
qed

lemma range_at_eq:
  assumes srt: "sorted_wrt (<) (map fst kms)"
  shows "\<exists>x. range_at from to (int n) (msg_ents kms) = Ret x \<and> slice x = range_spec from to n kms"
proof -
  let ?pre = "filter (\<lambda>p. fst p \<le> to) kms"
  define i where "i = length (takeWhile (\<lambda>p. fst p < to) kms)"
  have i: "length (takeWhile (\<lambda>p. fst p < to) (msg_ents kms)) = i"
    by (simp add: i_def takeWhile_map comp_def)
  have le: "i \<le> length kms" unfolding i_def by (rule length_takeWhile_le)
  have pre: "?pre = take (if i < length kms \<and> \<not> to < fst (kms ! i) then Suc i else i) kms"
    unfolding i_def by (rule sorted_filter_le [OF srt, of to, unfolded Let_def])
  show ?thesis
  proof (cases "i < length kms \<and> \<not> to < fst (kms ! i)")
    case True
    then have "range_at from to (int n) (msg_ents kms) = range_scan from n kms i"
      unfolding range_at_def i Let_def by simp
    with range_scan_eq [OF srt, of to i] pre True show ?thesis by simp
  next
    case False
    then have p: "?pre = take i kms" using pre by (simp only: if_False)
    have at: "range_at from to (int n) (msg_ents kms) =
        (if i = 0 then Ret (Some []) else if fst (kms ! (i - 1)) < from then Ret (Some []) else range_scan from n kms (i - 1))"
      unfolding range_at_def i Let_def using False le by auto
    show ?thesis
    proof (cases "i = 0 \<or> fst (kms ! (i - 1)) < from")
      case True
      have "filter (\<lambda>p. from \<le> fst p) ?pre = []"
        using sorted_take_below [OF srt le True] unfolding p by (auto simp: filter_empty_conv not_le)
      then have "range_spec from to n kms = []" by (simp add: range_spec_pre)
      with at True show ?thesis by (auto simp: slice_def)
    next
      case False
      then have "?pre = take (Suc (i - 1)) kms" using p by simp
      with range_scan_eq [OF srt, of to "i - 1"] at False show ?thesis by simp
    qed
  qed
qed

lemma GetMessageRange_eq:
  assumes "bkt_at [MessageBucket] s = Some B" and "ent c B = Some (Sub (Bucket q (msg_ents kms)))"
    and "sorted_wrt (<) (map fst kms)"
  shows "\<exists>x. convo_GetMessageRange local c from to (int n) s = (Ret x, s) \<and>
    slice x = range_spec (rfc3339 local from) (rfc3339 local to) n kms"
proof -
  have "bkt_at [MessageBucket, c] s = Some (Bucket q (msg_ents kms))"
    using bkt_at_ent [OF assms(1), of c "[]"] assms(2) by simp
  moreover obtain x where "range_at (rfc3339 local from) (rfc3339 local to) (int n) (msg_ents kms) = Ret x"
    "slice x = range_spec (rfc3339 local from) (rfc3339 local to) n kms"
    using range_at_eq assms(3) by blast
  ultimately show ?thesis
    using assms(1) by (simp add: convo_GetMessageRange_def db_bind_def db_catch_def rd_bkt_def del: bkt_at.simps)
qed

text \<open>
  C28 (GetMessageRange_spec).  On any messages stored under increasing keys, and any limit \<open>n\<close>
  that is not negative, \<^verbatim>\<open>GetMessageRange\<close>, which seeks to the end of the range, walks back
  and reverses the result in place, returns exactly the last \<open>n\<close> messages whose keys lie
  between the two times, in the order of their keys; without a bucket for the convo it
  reports the convo as missing.
\<close>

theorem GetMessageRange_spec:
  assumes "bkt_at [MessageBucket] s = Some B"
    and "ent c B = (case m of None \<Rightarrow> None | Some kms \<Rightarrow> Some (Sub (Bucket q (msg_ents kms))))"
    and "\<forall>kms. m = Some kms \<longrightarrow> sorted_wrt (<) (map fst kms)"
  shows "case m of
      None \<Rightarrow> convo_GetMessageRange local c from to (int n) s = (Fail (convo_errMissing c), s)
    | Some kms \<Rightarrow> \<exists>x. convo_GetMessageRange local c from to (int n) s = (Ret x, s) \<and>
        slice x = range_spec (rfc3339 local from) (rfc3339 local to) n kms"
proof (cases m)
  case None
  have "bkt_at [MessageBucket, c] s = None"
    using bkt_at_ent [OF assms(1), of c "[]"] assms(2) None by simp
  with None assms(1) show ?thesis
    by (simp add: convo_GetMessageRange_def db_bind_def db_catch_def db_fail_def del: bkt_at.simps)
next
  case (Some kms)
  then show ?thesis using GetMessageRange_eq [of s B c q kms] assms by simp
qed


definition demo_msg :: "int \<Rightarrow> Message" where
  "demo_msg t = \<lparr>msg_Sender = ''ann'', msg_Content = ''hi'', msg_Timestamp = \<lparr>t_ns = t, t_zone = ZUTC\<rparr>\<rparr>"

definition demo_kms :: "(bytes \<times> Message) list" where
  "demo_kms = [(''2001'', demo_msg 1), (''2002'', demo_msg 2), (''2003'', demo_msg 3)]"

definition demo_messages :: db where
  "demo_messages = Bucket 0 [(MessageBucket, Sub (Bucket 0 [(''c1'', Sub (Bucket 0 (msg_ents demo_kms)))]))]"

lemma demo_times:
  "rfc3339 (\<lambda>_. 0) \<lparr>t_ns = 0, t_zone = ZUTC\<rparr> = ''1970-01-01T00:00:00Z''"
  "rfc3339 (\<lambda>_. 0) \<lparr>t_ns = 1100000000000000000, t_zone = ZUTC\<rparr> = ''2004-11-09T11:33:20Z''"
  by code_simp+

theorem GetMessageRange_spec_witness:
  "\<exists>x. convo_GetMessageRange (\<lambda>_. 0) ''c1'' \<lparr>t_ns = 0, t_zone = ZUTC\<rparr> \<lparr>t_ns = 1100000000000000000, t_zone = ZUTC\<rparr> (int 2) demo_messages =
     (Ret x, demo_messages) \<and> slice x = [demo_msg 2, demo_msg 3]"
proof -
  have "sorted_wrt (<) (map fst demo_kms)" by (simp add: demo_kms_def)
  moreover have "range_spec ''1970-01-01T00:00:00Z'' ''2004-11-09T11:33:20Z'' 2 demo_kms = [demo_msg 2, demo_msg 3]"
    by (simp add: range_spec_def demo_kms_def less_char_def)
  ultimately show ?thesis
    using GetMessageRange_spec [of demo_messages _ "''c1''" 0 "Some demo_kms" "\<lambda>_. 0"
        "\<lparr>t_ns = 0, t_zone = ZUTC\<rparr>" "\<lparr>t_ns = 1100000000000000000, t_zone = ZUTC\<rparr>" 2]
    by (simp add: demo_times demo_messages_def ent_def)
qed

section \<open>Scribes and messages\<close>

lemma MakeNested_messages:
  "bkt_at [MessageBucket] s = Some B \<Longrightarrow> no_leaf c B \<Longrightarrow> c \<noteq> [] \<Longrightarrow>
   store_MakeNestedBucket [MessageBucket] [c] s = (Ret [MessageBucket, c], bkt_set [MessageBucket] (with_child c B) s)"
  by (simp add: db_bind_def on_bkt_create del: bkt_at.simps bkt_set.simps)

lemma puts_in_bucket:
  assumes "bkt_at p s = Some b" and "flat_bucket b" and "\<forall>kv \<in> set kvs. valid_key (fst kv)"
  shows "\<exists>s'. store_Wrap (map (\<lambda>(k, v). on_bkt p (Bucket_Put k v)) kvs) s = (Ret (), s') \<and>
    bkt_at p s' = Some (fold (\<lambda>(k, v). set_ent k (Leaf v)) kvs b)"
  using assms
proof (induction kvs arbitrary: s b)
  case (Cons kv kvs)
  obtain k v where kv: "kv = (k, v)" by (cases kv)
  let ?b = "set_ent k (Leaf v) b"
  have "valid_key k" using Cons.prems(3) by (simp add: kv)
  then have put: "on_bkt p (Bucket_Put k v) s = (Ret (), bkt_set p ?b s)"
    using Cons.prems(1,2) by (simp add: on_bkt_def flat_Put valid_key_def)
  have "\<exists>s'. store_Wrap (map (\<lambda>(k, v). on_bkt p (Bucket_Put k v)) kvs) (bkt_set p ?b s) = (Ret (), s') \<and>
      bkt_at p s' = Some (fold (\<lambda>(k, v). set_ent k (Leaf v)) kvs ?b)"
    using Cons.prems by (intro Cons.IH) (auto simp: flat_set_leaf)
  then show ?case by (simp add: kv put)
qed simp

lemma scribe_write_eq:
  assumes "bkt_at [MessageBucket] s = Some B" and "no_leaf c B" and "c \<noteq> []" and "flat_bucket (child c B)"
    and "\<forall>kv \<in> set buf. valid_key (fst kv)"
  shows "\<exists>s'. db_Update (scribe_write c buf) s = (Ret (), s') \<and>
    bkt_at [MessageBucket, c] s' = Some (fold (\<lambda>(k, v). set_ent k (Leaf v)) buf (child c B))"
proof -
  let ?s1 = "bkt_set [MessageBucket] (with_child c B) s"
  have "bkt_at [MessageBucket, c] ?s1 = Some (child c B)"
    using bkt_at_create [OF assms(1,2), of c "[]"] by simp
  from puts_in_bucket [OF this assms(4,5)] obtain s' where
    "store_Wrap (map (\<lambda>(k, v). on_bkt [MessageBucket, c] (Bucket_Put k v)) buf) ?s1 = (Ret (), s')"
    "bkt_at [MessageBucket, c] s' = Some (fold (\<lambda>(k, v). set_ent k (Leaf v)) buf (child c B))" by blast
  then show ?thesis
    by (simp add: db_Update_def scribe_write_def db_bind_def MakeNested_messages [OF assms(1-3)]
        del: bkt_at.simps bkt_set.simps store_MakeNestedBucket.simps)
qed

text \<open>The time of a message in whole seconds: all that its key keeps of it, within one zone.\<close>

lemma rfc3339_second:
  assumes "t_zone t = t_zone u" and "t_zone t \<noteq> ZLocal" and "t_ns t div 1000000000 = t_ns u div 1000000000"
  shows "rfc3339 local t = rfc3339 local u"
proof -
  have "zone_offset local t = zone_offset local u"
    using assms(1,2) by (simp add: zone_offset_def split: zone.splits)
  then show ?thesis by (simp only: rfc3339_def assms(3))
qed

lemma valid_rfc3339: "length (rfc3339 local t) \<le> MaxKeySize \<Longrightarrow> valid_key (rfc3339 local t)"
  by (simp add: valid_key_def) (simp only: rfc3339_def Let_def split_beta append_is_Nil_conv list.distinct simp_thms)

lemma scribe_run_arrive:
  "length buf < MaxBuffer - 1 \<Longrightarrow>
   scribe_run local c (Arrived (Doc (enc_Message m)) # evs) buf s =
     scribe_run local c evs (buf @ [(rfc3339 local (msg_Timestamp m), Doc (enc_Message m))]) s"
  by (simp add: Let_def MaxBuffer_def)

text \<open>
  C34 (scribe_loses_messages).  Two messages of the same second have the same key, so when the
  scribe writes its buffer only the second one is there to be read; and whatever is in the
  buffer when the input is closed is never written.
\<close>

theorem scribe_loses_messages:
  assumes B: "bkt_at [MessageBucket] s = Some B" "no_leaf c B" "c \<noteq> []" "child c B = empty_bucket"
    and time: "t_zone (msg_Timestamp m) = ZUTC" "t_zone (msg_Timestamp m') = ZUTC"
      "t_ns (msg_Timestamp m) div 1000000000 = t_ns (msg_Timestamp m') div 1000000000"
    and len: "length (rfc3339 local (msg_Timestamp m)) \<le> MaxKeySize"
  shows "(\<exists>s'. scribe_run local c [Arrived (Doc (enc_Message m)), Arrived (Doc (enc_Message m')), Tick] [] s = Some (False, [], s') \<and>
      bkt_at [MessageBucket, c] s' = Some (Bucket 0 (msg_ents [(rfc3339 local (msg_Timestamp m), m')]))) \<and>
    scribe_run local c [Arrived (Doc (enc_Message m)), InputClosed] [] s =
      Some (True, [(rfc3339 local (msg_Timestamp m), Doc (enc_Message m))], s)"
proof -
  let ?k = "rfc3339 local (msg_Timestamp m)"
  let ?buf = "[(?k, Doc (enc_Message m)), (?k, Doc (enc_Message m'))]"
  have key: "rfc3339 local (msg_Timestamp m') = ?k" using time by (intro rfc3339_second) simp_all
  obtain s' where w: "db_Update (scribe_write c ?buf) s = (Ret (), s')"
    and at: "bkt_at [MessageBucket, c] s' = Some (fold (\<lambda>(k, v). set_ent k (Leaf v)) ?buf empty_bucket)"
    using scribe_write_eq [OF B(1-3), of ?buf] B(4) valid_rfc3339 [OF len] by auto
  have run: "scribe_run local c [Arrived (Doc (enc_Message m)), Arrived (Doc (enc_Message m')), Tick] [] s =
      scribe_run local c [Tick] ?buf s"
    by (simp add: scribe_run_arrive MaxBuffer_def key del: scribe_run.simps)
  have "\<exists>s'. scribe_run local c [Arrived (Doc (enc_Message m)), Arrived (Doc (enc_Message m')), Tick] [] s = Some (False, [], s') \<and>
      bkt_at [MessageBucket, c] s' = Some (Bucket 0 (msg_ents [(?k, m')]))"
    unfolding run by (simp add: w at set_ent_def empty_bucket_def del: bkt_at.simps)
  moreover have "scribe_run local c [Arrived (Doc (enc_Message m)), InputClosed] [] s = Some (True, [(?k, Doc (enc_Message m))], s)"
    by (simp add: Let_def MaxBuffer_def)
  ultimately show ?thesis by blast
qed


definition demo_no_messages :: db where
  "demo_no_messages = db_of [MessageBucket]"

theorem scribe_loses_messages_witness:
  "\<exists>s'. scribe_run (\<lambda>_. 0) ''c1'' [Arrived (Doc (enc_Message (demo_msg 1))), Arrived (Doc (enc_Message (demo_msg 2))), Tick] []
      demo_no_messages = Some (False, [], s') \<and>
    bkt_at [MessageBucket, ''c1''] s' = Some (Bucket 0 (msg_ents [(rfc3339 (\<lambda>_. 0) (msg_Timestamp (demo_msg 1)), demo_msg 2)]))"
proof -
  have "civil 0 = (1970, 1, 1)" by code_simp
  moreover have "length (appendInt 1970 4) = 4" "length (appendInt 1 2) = 2" "length (appendInt 0 2) = 2"
    by (simp_all add: appendInt_def nat_digits.simps)
  ultimately have "length (rfc3339 (\<lambda>_. 0) (msg_Timestamp (demo_msg 1))) \<le> MaxKeySize"
    by (simp add: rfc3339_def demo_msg_def zone_offset_def MaxKeySize_def)
  then show ?thesis
    by (intro scribe_loses_messages [where B = empty_bucket, THEN conjunct1])
      (simp_all add: demo_no_messages_def ent_db_of no_leaf_def child_def demo_msg_def)
qed

section \<open>Checking in\<close>

lemma MakeNested_rivers:
  assumes r: "bkt_at [RiverBucket] s = Some r" and no: "no_leaf a r" "no_leaf b (child a r)" and ne: "a \<noteq> []" "b \<noteq> []"
  shows "store_MakeNestedBucket [RiverBucket] [a, b] s = (Ret [RiverBucket, a, b], opened a b r s)"
proof -
  have "bkt_at [RiverBucket, a] (bkt_set [RiverBucket] (with_child a r) s) = Some (child a r)"
    using bkt_at_create [OF r no(1), of a "[]"] by simp
  from on_bkt_create [OF this ne(2) no(2)] show ?thesis
    by (simp add: db_bind_def on_bkt_create [OF r ne(1) no(1)] opened_def del: bkt_at.simps bkt_set.simps)
qed

lemma opened_again:
  assumes r: "bkt_at [RiverBucket] s = Some r" and no: "no_leaf a r"
    and at: "bkt_at [RiverBucket, a, b] s = Some c"
  shows "no_leaf b (child a r)" and "child b (child a r) = c"
  using at unfolding river_at [OF r] child_def
  by (auto simp: no_leaf_def split: option.splits entry.splits)

text \<open>The check-ins of a convo: present, with this counter and these keys.\<close>

definition checkins :: "string \<Rightarrow> db \<Rightarrow> bucket option" where
  "checkins c s = bkt_at [RiverBucket, ScribeBucket, c] s"

lemma Checkin_eq:
  assumes r: "bkt_at [RiverBucket] s = Some r" and no: "no_leaf ScribeBucket r" "no_leaf c (child ScribeBucket r)"
    and c: "c \<noteq> []" and b: "b = child c (child ScribeBucket r)" and flat: "flat_bucket b"
  shows "\<exists>s'. convo_Checkin c s = (Ret (bseq b, bents b = []), s') \<and>
    checkins c s' = Some (set_ent (LittleEndian_PutUint64 (bseq b)) (Leaf (Raw [])) b) \<and>
    (\<exists>r'. bkt_at [RiverBucket] s' = Some r' \<and> no_leaf ScribeBucket r')"
proof -
  let ?p = "[RiverBucket, ScribeBucket, c]"
  let ?s1 = "opened ScribeBucket c r s"
  let ?b' = "set_ent (LittleEndian_PutUint64 (bseq b)) (Leaf (Raw [])) b"
  let ?s2 = "bkt_set ?p ?b' ?s1"
  have at: "bkt_at ?p ?s1 = Some b" unfolding b by (rule opened_at(1) [OF r no])
  have le: "LittleEndian_PutUint64 (bseq b) \<noteq> []" using length_LE [of "bseq b"] by force
  have "on_bkt ?p (Bucket_Put (LittleEndian_PutUint64 (bseq b)) (Raw [])) ?s1 = (Ret (), ?s2)"
    using at flat le by (simp add: on_bkt_def flat_Put MaxKeySize_def del: bkt_at.simps bkt_set.simps)
  moreover have "store_MakeNestedBucket [RiverBucket] [ScribeBucket, c] s = (Ret ?p, ?s1)"
    by (rule MakeNested_rivers [OF r no _ c]) (simp add: ScribeBucket_def)
  ultimately have "convo_Checkin c s = (Ret (bseq b, bents b = []), ?s2)"
    using at by (simp add: convo_Checkin_def db_bind_def rd_bkt_def db_return_def
        del: bkt_at.simps bkt_set.simps store_MakeNestedBucket.simps)
  moreover have "checkins c ?s2 = Some ?b'" unfolding checkins_def using at by (rule bkt_at_set_same)
  moreover have "\<exists>r'. bkt_at [RiverBucket] ?s2 = Some r' \<and> no_leaf ScribeBucket r'"
    using opened_keeps_streams [OF r no(1), of c] by (auto simp: no_leaf_def split: option.splits entry.splits)
  ultimately show ?thesis by blast
qed

lemma Checkout_eq:
  assumes at: "checkins c s = Some b" and flat: "flat_bucket b"
  shows "\<exists>s'. convo_Checkout c n s = (Ret (bents (del_ent (LittleEndian_PutUint64 n) b) = []), s') \<and>
    checkins c s' = Some (del_ent (LittleEndian_PutUint64 n) b)"
proof -
  let ?p = "[RiverBucket, ScribeBucket, c]"
  have at': "bkt_at ?p s = Some b" using at by (simp only: checkins_def)
  then obtain r a where "bkt_at [RiverBucket] s = Some r" "bkt_at [RiverBucket, ScribeBucket] s = Some a"
    by (auto split: option.splits entry.splits)
  with at' have "scribe_bucket c s = (Ret ?p, s)" by (simp add: scribe_bucket_def del: bkt_at.simps)
  moreover have "bkt_at ?p (bkt_set ?p (del_ent (LittleEndian_PutUint64 n) b) s) = Some (del_ent (LittleEndian_PutUint64 n) b)"
    using at' by (rule bkt_at_set_same)
  ultimately show ?thesis
    using at' flat
    by (simp add: convo_Checkout_def db_bind_def on_bkt_def rd_bkt_def flat_Delete checkins_def
        del: bkt_at.simps bkt_set.simps)
qed

text \<open>
  C35 (Checkins_share_a_number).  \<^verbatim>\<open>Checkin\<close> reads the sequence of the bucket without advancing it:
  the first two users of a convo get the same number, and when one of them checks out
  \<^verbatim>\<open>Checkout\<close> reports that nobody is left, although the other is still connected.
\<close>

theorem Checkins_share_a_number:
  assumes "bkt_at [RiverBucket] s = Some r" and "no_leaf ScribeBucket r" and "no_leaf c (child ScribeBucket r)"
    and "c \<noteq> []" and "child c (child ScribeBucket r) = empty_bucket"
  shows "\<exists>n s1 s2 s3. convo_Checkin c s = (Ret (n, True), s1) \<and> convo_Checkin c s1 = (Ret (n, False), s2) \<and>
    convo_Checkout c n s2 = (Ret True, s3)"
proof -
  let ?k = "LittleEndian_PutUint64 0"
  let ?b1 = "set_ent ?k (Leaf (Raw [])) empty_bucket"
  obtain s1 r1 where s1: "convo_Checkin c s = (Ret (0, True), s1)" "checkins c s1 = Some ?b1"
    "bkt_at [RiverBucket] s1 = Some r1" "no_leaf ScribeBucket r1"
    using Checkin_eq [OF assms(1-4) assms(5) [symmetric]] by (auto simp: empty_bucket_def flat_bucket_def simp del: bkt_at.simps)
  note again = opened_again [OF s1(3,4) s1(2) [unfolded checkins_def]]
  have flat: "flat_bucket ?b1" by (simp add: flat_set_leaf)
  have b1: "bents ?b1 \<noteq> []" "bseq ?b1 = 0" "set_ent ?k (Leaf (Raw [])) ?b1 = ?b1" "bents (del_ent ?k ?b1) = []"
    by (simp_all add: set_ent_def del_ent_def al_del_def empty_bucket_def)
  obtain s2 where s2: "convo_Checkin c s1 = (Ret (0, False), s2)" "checkins c s2 = Some ?b1"
    using Checkin_eq [OF s1(3,4) again(1) assms(4) again(2) [symmetric] flat] b1 by auto
  obtain s3 where "convo_Checkout c 0 s2 = (Ret True, s3)"
    using Checkout_eq [OF s2(2) flat, of 0] b1(4) by auto
  with s1(1) s2(1) show ?thesis by blast
qed

theorem Checkins_share_a_number_witness:
  "\<exists>n s1 s2 s3. convo_Checkin ''c1'' (db_of [RiverBucket]) = (Ret (n, True), s1) \<and>
    convo_Checkin ''c1'' s1 = (Ret (n, False), s2) \<and> convo_Checkout ''c1'' n s2 = (Ret True, s3)"
  by (rule Checkins_share_a_number [where r = empty_bucket])
    (simp_all add: ent_db_of no_leaf_def child_def)

end
