(* ===== verification/Rest_Convo.thy ===== *)
theory Rest_Convo
  imports Rest_Stream Convos Frames
begin

text \<open>
  The handlers on convos (\<^verbatim>\<open>rest/convo.go\<close>): connecting a web socket with a scribe, reading the
  messages, creating, updating, listing, reading and deleting a convo.  The database is always
  open here, so the branches for \<^verbatim>\<open>bolt.ErrDatabaseNotOpen\<close> are not taken.
\<close>

section \<open>Connecting\<close>

text \<open>What \<^verbatim>\<open>Connect\<close> does once the session is over: check out, and hang up the scribe as the
  last one.  \<open>None\<close> means to go on.\<close>

definition scribe_checkout :: "world \<Rightarrow> string \<Rightarrow> uint64 \<Rightarrow> server \<Rightarrow> response option \<times> server" where
  "scribe_checkout w i scrID sv =
     (case sv_Update (convo_Checkout i scrID) sv of
        (Panic, sv1) \<Rightarrow> (Some Panicked, sv1)
      | (Fail e, sv1) \<Rightarrow> (if store_IsMissingBucket e then None else Some Exited, sv1)
      | (Ret isLast, sv1) \<Rightarrow>
          if \<not> isLast then (None, sv1)
          else (let bks = [HangupBucket, ScribeBucket, i]
                in case convo_Hangup (w_net w) (w_send w bks) (w_recv w bks) i (sv_db sv1) of
                     (r, s') \<Rightarrow>
                       (let sv2 = sv1\<lparr>sv_db := w_env w bks s'\<rparr>
                        in (case r of
                              Ret _ \<Rightarrow> None
                            | Panic \<Rightarrow> Some Panicked
                            | Fail e \<Rightarrow>
                                if river_IsMissing e then
                                  (case sv_View (river_CheckMissing [ScribeBucket, i]) sv2 of
                                     Ret _ \<Rightarrow> None
                                   | Panic \<Rightarrow> Some Panicked
                                   | Fail _ \<Rightarrow> Some Exited)
                                else Some Exited, sv2))))"

text \<open>The part of \<^verbatim>\<open>Connect\<close> from the check-in on.\<close>

definition convo_session :: "world \<Rightarrow> string \<Rightarrow> Convo \<Rightarrow> respondent \<Rightarrow> server \<Rightarrow> response \<times> server" where
  "convo_session w userID conv rsp sv =
     (case sv_Update (convo_Checkin (str_ID conv)) sv of
        (Fail _, sv1) \<Rightarrow> (HttpError StatusInternalServerError, sv1)
      | (Panic, sv1) \<Rightarrow> (Panicked, sv1)
      | (Ret (scrID, first), sv1) \<Rightarrow>
          (case (if first then sv_Update (db_bind (convo_Spawn (w_net w) (str_ID conv)) (\<lambda>_. db_return ())) sv1
                 else (Ret (), sv1)) of
             (Fail _, sv2) \<Rightarrow> (HttpError StatusInternalServerError, sv2)
           | (Panic, sv2) \<Rightarrow> (Panicked, sv2)
           | (Ret _, sv2) \<Rightarrow>
               (case sv_Update (river_NewBus (w_net w) userID (str_ID conv)) sv2 of
                  (Fail e, sv3) \<Rightarrow> (river_status e, sv3)
                | (Panic, sv3) \<Rightarrow> (Panicked, sv3)
                | (Ret rv, sv3) \<Rightarrow>
                    (let tell = (\<lambda>n. notify_all (fst n) (snd n) (smap_keys (g_Readers (str_Group conv))));
                         sv4 = tell (convo_Connected conv userID) sv3;
                         sv5 = sv4\<lparr>sv_db := w_session w (sv_db sv4)\<rparr>
                     in case scribe_checkout w (str_ID conv) scrID sv5 of
                          (Some rsp', sv6) \<Rightarrow> (rsp', sv6)
                        | (None, sv6) \<Rightarrow>
                            (case sv_Update (disconnect (w_net w) userID (str_ID conv) rv rsp) sv6 of
                               (Fail _, sv7) \<Rightarrow> (Exited, sv7)
                             | (Panic, sv7) \<Rightarrow> (Panicked, sv7)
                             | (Ret _, sv7) \<Rightarrow> (WsServed, tell (convo_Disconnected conv userID) sv7))))))"

definition convo_get_status :: "err \<Rightarrow> response" where
  "convo_get_status e = HttpError (if convo_IsMissing e then StatusNotFound else StatusInternalServerError)"

definition rest_Convo_Connect :: "world \<Rightarrow> handler" where
  "rest_Convo_Connect w r sv =
     (case mw_CtxGetUserID r of
        Ret userID \<Rightarrow>
          (let i = ByName r ''convo_id''
           in case uuid_FromString i of
                Fail _ \<Rightarrow> (HttpError StatusBadRequest, sv)
              | Panic \<Rightarrow> (Panicked, sv)
              | Ret _ \<Rightarrow>
                  (case sv_View (convo_Get zero_Stream i) sv of
                     Fail e \<Rightarrow> (convo_get_status e, sv)
                   | Panic \<Rightarrow> (Panicked, sv)
                   | Ret conv \<Rightarrow>
                       if \<not> smap_get (g_Writers (str_Group conv)) userID then (HttpError StatusUnauthorized, sv)
                       else (case sv_Update (river_NewResponder (w_net w) [HangupBucket, str_ID conv, userID]) sv of
                               (Fail e, sv1) \<Rightarrow> (river_status e, sv1)
                             | (Panic, sv1) \<Rightarrow> (Panicked, sv1)
                             | (Ret rsp, sv1) \<Rightarrow> convo_session w userID conv rsp sv1)))
      | _ \<Rightarrow> (Panicked, sv))"

section \<open>Messages\<close>

definition enc_Messages :: "Message list option \<Rightarrow> json" where
  "enc_Messages r = (case r of None \<Rightarrow> JNull | Some ms \<Rightarrow> JArr (map enc_Message ms))"

definition rest_Convo_GetMessages :: "(int \<Rightarrow> int) \<Rightarrow> gtime \<Rightarrow> handler" where
  "rest_Convo_GetMessages local now r sv =
     (let convoID = ByName r ''convo_id''
      in case mw_CtxGetUserID r of
           Ret userID \<Rightarrow>
             (case sv_View (convo_Get zero_Stream convoID) sv of
                Fail e \<Rightarrow> (convo_get_status e, sv)
              | Panic \<Rightarrow> (Panicked, sv)
              | Ret conv \<Rightarrow>
                  if \<not> smap_get (g_Readers (str_Group conv)) userID then (HttpError StatusUnauthorized, sv)
                  else (case sv_View (convo_GetMessages local now convoID) sv of
                          Fail e \<Rightarrow> (convo_get_status e, sv)
                        | Panic \<Rightarrow> (Panicked, sv)
                        | Ret result \<Rightarrow> (OkBody (enc_Messages result), sv)))
         | _ \<Rightarrow> (Panicked, sv))"

section \<open>Creating, listing, reading\<close>

definition rest_Convo_Create :: "uuid \<Rightarrow> handler" where
  "rest_Convo_Create newV4 r sv =
     (case decode_body dec_Stream zero_Stream r of
        None \<Rightarrow> (HttpError StatusBadRequest, sv)
      | Some sent \<Rightarrow>
          (case mw_CtxGetUserID r of
             Ret userID \<Rightarrow>
               (let i = uuid_String newV4; str = owned userID i sent; allUsers = all_users userID (str_Group str)
                in case sv_View (store_Wrap [convo_CheckNotExist i, users_CheckUsersExist allUsers]) sv of
                     Fail e \<Rightarrow> (create_status convo_IsExists e, sv)
                   | Panic \<Rightarrow> (Panicked, sv)
                   | Ret _ \<Rightarrow>
                       (case sv_Update (store_Wrap [convo_CheckNotExist i, users_CheckUsersExist allUsers,
                               convo_Upsert str, convo_InitMessages i]) sv of
                          (Fail e, sv1) \<Rightarrow> (create_status convo_IsExists e, sv1)
                        | (Panic, sv1) \<Rightarrow> (Panicked, sv1)
                        | (Ret _, sv1) \<Rightarrow>
                            (OkBody (enc_Stream str),
                             notify_all ''convos'' (enc_Stream str) (smap_keys (g_Readers (str_Group str))) sv1)))
           | _ \<Rightarrow> (Panicked, sv)))"

definition rest_Convo_GetAll :: handler where
  "rest_Convo_GetAll r sv =
     (case mw_CtxGetUserID r of
        Ret userID \<Rightarrow>
          (case sv_View (convo_GetAll userID []) sv of
             Ret xs \<Rightarrow> (OkBody (JArr (map enc_Stream xs)), sv)
           | Fail _ \<Rightarrow> (HttpError StatusInternalServerError, sv)
           | Panic \<Rightarrow> (Panicked, sv))
      | _ \<Rightarrow> (Panicked, sv))"

definition rest_Convo_Get :: handler where
  "rest_Convo_Get r sv =
     (case mw_CtxGetUserID r of
        Ret userID \<Rightarrow>
          (let i = ByName r ''convo_id''
           in case uuid_FromString i of
                Fail _ \<Rightarrow> (HttpError StatusBadRequest, sv)
              | Panic \<Rightarrow> (Panicked, sv)
              | Ret _ \<Rightarrow>
                  (case sv_View (convo_Get zero_Stream i) sv of
                     Fail e \<Rightarrow> (convo_get_status e, sv)
                   | Panic \<Rightarrow> (Panicked, sv)
                   | Ret existing \<Rightarrow>
                       if \<not> is_member userID existing then (HttpError StatusUnauthorized, sv)
                       else (OkBody (enc_Stream existing), sv)))
      | _ \<Rightarrow> (Panicked, sv))"

section \<open>Hanging up\<close>

text \<open>One turn of the loops \<^verbatim>\<open>hangupRemoved\<close> and \<^verbatim>\<open>hangupReaders\<close>: go on with the next user, leave
  the loop, or leave the handler.\<close>

datatype hup = HupNext | HupBreak | HupFailed | HupPanic

definition hangup_user :: "world \<Rightarrow> string \<Rightarrow> string \<Rightarrow> server \<Rightarrow> hup \<times> server" where
  "hangup_user w i u sv =
     (let bks = [HangupBucket, i, u]
      in case sv_View (river_NewSurvey (w_net w) bks) sv of
           Panic \<Rightarrow> (HupPanic, sv)
         | Fail e \<Rightarrow> (if river_IsStreamMissing e then HupBreak else HupFailed, sv)
         | Ret surv \<Rightarrow>
             (case hup_survey w bks surv sv of
                (Ret _, sv1) \<Rightarrow> (HupNext, sv1)
              | (Panic, sv1) \<Rightarrow> (HupPanic, sv1)
              | (Fail e, sv1) \<Rightarrow>
                  if river_IsMissing e then
                    (case sv_View (river_CheckMissing bks) sv1 of
                       Ret _ \<Rightarrow> (HupNext, sv1)
                     | Panic \<Rightarrow> (HupPanic, sv1)
                     | Fail _ \<Rightarrow> (HupFailed, sv1))
                  else (HupFailed, sv1)))"

fun convo_hangup :: "world \<Rightarrow> string \<Rightarrow> string list \<Rightarrow> server \<Rightarrow> hup \<times> server" where
  "convo_hangup w i [] sv = (HupNext, sv)"
| "convo_hangup w i (u # us) sv =
     (case hangup_user w i u sv of
        (HupNext, sv1) \<Rightarrow> convo_hangup w i us sv1
      | (HupBreak, sv1) \<Rightarrow> (HupNext, sv1)
      | r \<Rightarrow> r)"

section \<open>Updating and deleting\<close>

text \<open>The second half of \<^verbatim>\<open>Put\<close>, for the owner.\<close>

definition convo_replace :: "world \<Rightarrow> string list \<Rightarrow> Convo \<Rightarrow> Convo \<Rightarrow> server \<Rightarrow> response \<times> server" where
  "convo_replace w allUsers existing str sv =
     (let updateUsers = users_DiffGroups (str_Group existing) (str_Group str)
      in case convo_hangup w (str_ID str) (map fst (filter (\<lambda>(u, ok). \<not> ok) updateUsers)) sv of
           (HupFailed, sv1) \<Rightarrow> (HttpError StatusInternalServerError, sv1)
         | (HupPanic, sv1) \<Rightarrow> (Panicked, sv1)
         | (_, sv1) \<Rightarrow>
             (case sv_Update (store_Wrap [convo_CheckExists (str_ID str), users_CheckUsersExist allUsers, convo_Upsert str]) sv1 of
                (Fail e, sv2) \<Rightarrow> (put_status convo_IsMissing e, sv2)
              | (Panic, sv2) \<Rightarrow> (Panicked, sv2)
              | (Ret _, sv2) \<Rightarrow>
                  (OkBody (enc_Stream str), notify_update ''convos'' ''convo-removed'' str updateUsers sv2)))"

definition rest_Convo_Put :: "world \<Rightarrow> handler" where
  "rest_Convo_Put w r sv =
     (case mw_CtxGetUserID r of
        Ret userID \<Rightarrow>
          (let i = ByName r ''convo_id''
           in case uuid_FromString i of
                Fail _ \<Rightarrow> (HttpError StatusBadRequest, sv)
              | Panic \<Rightarrow> (Panicked, sv)
              | Ret _ \<Rightarrow>
                  (case decode_body dec_Stream zero_Stream r of
                     None \<Rightarrow> (HttpError StatusBadRequest, sv)
                   | Some sent \<Rightarrow>
                       (let str = owned userID i sent; allUsers = all_users userID (str_Group str)
                        in case sv_View (store_Wrap [convo_CheckExists i, users_CheckUsersExist allUsers]) sv of
                             Fail e \<Rightarrow> (put_status convo_IsMissing e, sv)
                           | Panic \<Rightarrow> (Panicked, sv)
                           | Ret _ \<Rightarrow>
                               (case sv_View (convo_Get zero_Stream i) sv of
                                  Fail e \<Rightarrow> (convo_get_status e, sv)
                                | Panic \<Rightarrow> (Panicked, sv)
                                | Ret existing \<Rightarrow>
                                    if g_Owner (str_Group existing) \<noteq> userID then (HttpError StatusUnauthorized, sv)
                                    else convo_replace w allUsers existing str sv))))
      | _ \<Rightarrow> (Panicked, sv))"

text \<open>The second half of \<^verbatim>\<open>Delete\<close>, for the owner.\<close>

definition convo_remove :: "world \<Rightarrow> string \<Rightarrow> Convo \<Rightarrow> server \<Rightarrow> response \<times> server" where
  "convo_remove w i existing sv =
     (case convo_hangup w i (smap_keys (g_Readers (str_Group existing))) sv of
        (HupFailed, sv1) \<Rightarrow> (HttpError StatusInternalServerError, sv1)
      | (HupPanic, sv1) \<Rightarrow> (Panicked, sv1)
      | (_, sv1) \<Rightarrow>
          (case sv_Update (convo_DeleteCheckins i) sv1 of
             (Panic, sv2) \<Rightarrow> (Panicked, sv2)
           | (r, sv2) \<Rightarrow>
               if (case r of Fail e \<Rightarrow> \<not> store_IsMissingBucket e | _ \<Rightarrow> False) then (Exited, sv2)
               else (case sv_Update (store_Wrap [convo_Delete i, convo_DeleteMessages i]) sv2 of
                  (Fail _, sv3) \<Rightarrow> (HttpError StatusInternalServerError, sv3)
                | (Panic, sv3) \<Rightarrow> (Panicked, sv3)
                | (Ret _, sv3) \<Rightarrow>
                    (OkEmpty,
                     notify_all ''convo-deleted'' (JStr i) (smap_keys (g_Readers (str_Group existing))) sv3))))"

definition rest_Convo_Delete :: "world \<Rightarrow> handler" where
  "rest_Convo_Delete w r sv =
     (case mw_CtxGetUserID r of
        Ret userID \<Rightarrow>
          (let i = ByName r ''convo_id''
           in case uuid_FromString i of
                Fail _ \<Rightarrow> (HttpError StatusBadRequest, sv)
              | Panic \<Rightarrow> (Panicked, sv)
              | Ret _ \<Rightarrow>
                  (case sv_View (convo_Get zero_Stream i) sv of
                     Fail e \<Rightarrow> (convo_get_status e, sv)
                   | Panic \<Rightarrow> (Panicked, sv)
                   | Ret existing \<Rightarrow>
                       if g_Owner (str_Group existing) \<noteq> userID then (HttpError StatusUnauthorized, sv)
                       else convo_remove w i existing sv))
      | _ \<Rightarrow> (Panicked, sv))"

section \<open>The contract\<close>

text \<open>The messages bucket can take a bucket for the convo.\<close>

definition messages_ready :: "string \<Rightarrow> db \<Rightarrow> bool" where
  "messages_ready i s \<longleftrightarrow> (\<exists>B. bkt_at [MessageBucket] s = Some B \<and> no_leaf i B)"

lemma InitMessages_ok:
  assumes "messages_ready i s" and "i \<noteq> []"
  shows "\<exists>s'. convo_InitMessages i s = (Ret (), s') \<and> (\<forall>b. b \<noteq> MessageBucket \<longrightarrow> bkt_at [b] s' = bkt_at [b] s)"
proof -
  obtain B where B: "bkt_at [MessageBucket] s = Some B" "no_leaf i B" using assms(1) by (auto simp: messages_ready_def)
  have run: "convo_InitMessages i s = (Ret (), bkt_set [MessageBucket] (with_child i B) s)"
    using on_bkt_create [OF B(1) assms(2) B(2)] by (simp add: convo_InitMessages_def)
  moreover have "bkt_at [b] (bkt_set [MessageBucket] (with_child i B) s) = bkt_at [b] s" if "b \<noteq> MessageBucket" for b
    using keepsD [OF same_on_bkt [OF that], OF run [unfolded convo_InitMessages_def]] by (simp add: same_bkt_def)
  ultimately show ?thesis by blast
qed

interpretation convo_api: group_api ConvoBucket convo_errMissing convo_errExists
  convo_CheckNotExist convo_CheckExists convo_Get convo_GetAll convo_Upsert convo_Delete
  "''convo_id''" "''convos''" messages_ready rest_Convo_Create rest_Convo_Get "rest_Convo_Put w"
  "rest_Convo_Delete w" "rest_Convo_Connect w" for w
proof unfold_locales
  fix t u i r x and sv :: server
  assume t: "streams_in ConvoBucket t (sv_db sv)" and r: "asks ''convo_id'' u i r" and i: "uuid_FromString i = Ret x"
  note simps = asks_def sv_View_eq convos.Get_eq [OF t] convos.CheckExists_eq [OF convos.in_has_tbl [OF t]]
    stream_codec.holds_table [OF t] convo_get_status_def
  show "rest_Convo_Get r sv = (case t i of None \<Rightarrow> HttpError StatusNotFound
      | Some y \<Rightarrow> if is_member u y then OkBody (enc_Stream y) else HttpError StatusUnauthorized, sv)"
    using r i by (cases "t i") (auto simp: rest_Convo_Get_def simps)
  fix y
  assume y: "t i = Some y"
  show "\<exists>st. rest_Convo_Put w r sv = (HttpError st, sv)" if "has_tbl UserBucket (sv_db sv)" "g_Owner (str_Group y) \<noteq> u"
  proof (cases "decode_body dec_Stream zero_Stream r")
    case (Some sent)
    with r i y that(2) CheckUsersExist_total [OF that(1), of "all_users u (str_Group (owned u i sent))"] show ?thesis
      by (auto simp: rest_Convo_Put_def simps Let_def put_status_def)
  qed (use r i in \<open>auto simp: rest_Convo_Put_def simps\<close>)
  show "\<exists>st. rest_Convo_Delete w r sv = (HttpError st, sv)" if "g_Owner (str_Group y) \<noteq> u"
    using r i y that by (auto simp: rest_Convo_Delete_def simps)
  show "\<exists>st. rest_Convo_Connect w r sv = (HttpError st, sv)" if "\<not> smap_get (g_Writers (str_Group y)) u"
    using r i y that by (auto simp: rest_Convo_Connect_def simps)
next
  fix t n r u sent y and sv :: server
  assume t: "streams_in ConvoBucket t (sv_db sv)" and ready: "messages_ready (uuid_String n) (sv_db sv)"
    and new: "t (uuid_String n) = None" "valid_key (uuid_String n)"
    and r: "mw_CtxGetUserID r = Ret u" "decode_body dec_Stream zero_Stream r = Some sent"
    and y: "y = owned u (uuid_String n) sent" "stream_ok y" and us: "users_exist (sv_db sv) (all_users u (str_Group y))"
  let ?s1 = "db_put ConvoBucket (uuid_String n) (Doc (enc_Stream y)) (sv_db sv)"
  have has: "has_tbl ConvoBucket (sv_db sv)" using t by (rule convos.in_has_tbl)
  have "bkt_at [MessageBucket] ?s1 = bkt_at [MessageBucket] (sv_db sv)"
    using bkt_at_db_put [OF has] by (simp add: MessageBucket_def ConvoBucket_def)
  then have "messages_ready (uuid_String n) ?s1" using ready by (simp add: messages_ready_def del: bkt_at.simps)
  moreover have "uuid_String n \<noteq> []" using new(2) by (simp add: valid_key_def)
  ultimately obtain s' where init: "convo_InitMessages (uuid_String n) ?s1 = (Ret (), s')"
    and same: "\<And>b. b \<noteq> MessageBucket \<Longrightarrow> bkt_at [b] s' = bkt_at [b] ?s1"
    using InitMessages_ok by blast
  have "store_Wrap [convo_CheckNotExist (uuid_String n), users_CheckUsersExist (all_users u (str_Group y)), convo_Upsert y,
      convo_InitMessages (uuid_String n)] (sv_db sv) = (Ret (), s')"
    using new CheckUsersExist_ok [OF us] convos.Upsert_eq [OF has, of y] init
    by (simp add: convos.CheckNotExist_eq [OF has] stream_codec.holds_table [OF t] y(1))
  with r CheckUsersExist_ok [OF us] new(1) have "rest_Convo_Create n r sv =
      (OkBody (enc_Stream y), notify_all ''convos'' (enc_Stream y) (smap_keys (g_Readers (str_Group y))) (sv\<lparr>sv_db := s'\<rparr>))"
    by (simp add: rest_Convo_Create_def Let_def sv_View_eq convos.CheckNotExist_eq [OF has] stream_codec.holds_table [OF t]
        sv_Update_Ret flip: y(1))
  moreover have "streams_in ConvoBucket (t(uuid_String n \<mapsto> y)) ?s1"
    using convos.streams_in_put [OF t y(2)] new(2) y(1) by simp
  then have "streams_in ConvoBucket (t(uuid_String n \<mapsto> y)) s'"
    using same [of ConvoBucket] by (simp add: holds_tbl_def has_tbl_def table_def MessageBucket_def ConvoBucket_def fun_eq_iff)
  moreover have "has_tbl UserBucket ?s1" using us has by (simp add: users_exist_def)
  then have "has_tbl UserBucket s'"
    using same [of UserBucket] by (simp add: has_tbl_def MessageBucket_def UserBucket_def)
  ultimately show "\<exists>s'. rest_Convo_Create n r sv =
        (OkBody (enc_Stream y), notify_all ''convos'' (enc_Stream y) (smap_keys (g_Readers (str_Group y))) (sv\<lparr>sv_db := s'\<rparr>)) \<and>
      streams_in ConvoBucket (t(uuid_String n \<mapsto> y)) s' \<and> has_tbl UserBucket s'" by blast
qed

section \<open>Properties\<close>

text \<open>
  C19 (Convo_lifecycle).  A convo posted by a user is stored with that user as its owner and a
  fresh ID, and its readers are told.  From then on it is read by its members and nobody
  else; who is not the owner cannot update or delete it, who is not a writer cannot connect to
  it, and who is not a reader cannot see its messages: these requests are answered with an
  error and change nothing.
\<close>

theorem Convo_lifecycle:
  assumes "length n = 16" and "streams_in ConvoBucket t (sv_db sv)" and "messages_ready (uuid_String n) (sv_db sv)"
    and "t (uuid_String n) = None"
    and "mw_CtxGetUserID r = Ret u" and "decode_body dec_Stream zero_Stream r = Some sent"
    and "y = owned u (uuid_String n) sent" and "stream_ok y" and "users_exist (sv_db sv) (all_users u (str_Group y))"
  shows "\<exists>sv'. rest_Convo_Create n r sv = (OkBody (enc_Stream y), sv') \<and>
    sv_out sv' = sv_out sv @ map (\<lambda>v. (v, ''convos'', enc_Stream y)) (smap_keys (g_Readers (str_Group y))) \<and>
    (\<forall>v q. asks ''convo_id'' v (uuid_String n) q \<longrightarrow>
       rest_Convo_Get q sv' = (if is_member v y then OkBody (enc_Stream y) else HttpError StatusUnauthorized, sv') \<and>
       (v \<noteq> u \<longrightarrow> (\<exists>st. rest_Convo_Put w q sv' = (HttpError st, sv')) \<and> (\<exists>st. rest_Convo_Delete w q sv' = (HttpError st, sv'))) \<and>
       (\<not> smap_get (g_Writers (str_Group y)) v \<longrightarrow> (\<exists>st. rest_Convo_Connect w q sv' = (HttpError st, sv'))) \<and>
       (\<not> smap_get (g_Readers (str_Group y)) v \<longrightarrow>
          rest_Convo_GetMessages local now q sv' = (HttpError StatusUnauthorized, sv')))"
proof -
  obtain sv' where sv': "rest_Convo_Create n r sv = (OkBody (enc_Stream y), sv')"
      "sv_out sv' = sv_out sv @ map (\<lambda>v. (v, ''convos'', enc_Stream y)) (smap_keys (g_Readers (str_Group y)))"
      "\<forall>v q. asks ''convo_id'' v (uuid_String n) q \<longrightarrow>
         rest_Convo_Get q sv' = (if is_member v y then OkBody (enc_Stream y) else HttpError StatusUnauthorized, sv') \<and>
         (v \<noteq> u \<longrightarrow> (\<exists>st. rest_Convo_Put w q sv' = (HttpError st, sv')) \<and> (\<exists>st. rest_Convo_Delete w q sv' = (HttpError st, sv'))) \<and>
         (\<not> smap_get (g_Writers (str_Group y)) v \<longrightarrow> (\<exists>st. rest_Convo_Connect w q sv' = (HttpError st, sv')))"
    and t: "streams_in ConvoBucket (t(uuid_String n \<mapsto> y)) (sv_db sv')"
    using convo_api.lifecycle [OF assms, of w] by blast
  have "rest_Convo_GetMessages local now q sv' = (HttpError StatusUnauthorized, sv')"
    if "asks ''convo_id'' v (uuid_String n) q" "\<not> smap_get (g_Readers (str_Group y)) v" for v q
    using that by (simp add: rest_Convo_GetMessages_def asks_def Let_def sv_View_eq convos.Get_eq [OF t])
  with sv' show ?thesis by blast
qed

theorem Convo_lifecycle_witness:
  "\<exists>sv' y. rest_Convo_Create demo_id demo_post \<lparr>sv_db = demo_social, sv_out = []\<rparr> = (OkBody (enc_Stream y), sv') \<and>
    sv_out sv' = [(''bob'', ''convos'', enc_Stream y)]"
proof -
  let ?y = "owned ''alice'' (uuid_String demo_id) demo_group"
  have "smap_keys (g_Readers (str_Group ?y)) = [''bob'']" by (simp add: demo_group_def smap_keys_def)
  moreover have "bkt_at [MessageBucket] demo_social = Some empty_bucket"
    by (simp add: demo_social_def bkt_at_db_put MessageBucket_def UserBucket_def del: bkt_at.simps)
      (simp add: ent_db_of)
  then have "messages_ready (uuid_String demo_id) demo_social"
    by (simp add: messages_ready_def no_leaf_def del: bkt_at.simps)
  ultimately show ?thesis
    using Convo_lifecycle [of demo_id Map.empty "\<lparr>sv_db = demo_social, sv_out = []\<rparr>" demo_post "''alice''" demo_group ?y
        demo_world "\<lambda>_. 0" "\<lparr>t_ns = 0, t_zone = ZUTC\<rparr>"] demo_social_facts by auto
qed

lemma sv_Update_out: "sv_Update m sv = (r, sv') \<Longrightarrow> sv_out sv' = sv_out sv"
  by (auto simp: sv_Update_def split: prod.splits)

lemma sv_Update_RetD: "sv_Update m sv = (Ret a, sv') \<Longrightarrow> m (sv_db sv) = (Ret a, sv_db sv')"
  by (auto simp: sv_Update_def db_Update_def split: prod.splits go.splits)

lemma sv_Update_FailD: "sv_Update m sv = (Fail e, sv') \<Longrightarrow> fst (m (sv_db sv)) = Fail e \<and> sv' = sv"
  by (auto simp: sv_Update_def db_Update_def split: prod.splits go.splits)

lemma hangup_user_out: "hangup_user w i u sv = (h, sv') \<Longrightarrow> sv_out sv' = sv_out sv"
  by (auto simp: hangup_user_def hup_survey_def Let_def split: go.splits prod.splits if_splits)

lemma convo_hangup_out: "convo_hangup w i us sv = (h, sv') \<Longrightarrow> sv_out sv' = sv_out sv"
proof (induction us arbitrary: sv)
  case (Cons u us)
  obtain h1 sv1 where h1: "hangup_user w i u sv = (h1, sv1)" by force
  show ?case using Cons.IH [of sv1] Cons.prems hangup_user_out [OF h1] by (auto simp: h1 split: hup.splits)
qed simp

lemma on_bkt_RetD:
  "on_bkt p f s = (Ret (), s') \<Longrightarrow> \<exists>b b'. bkt_at p s = Some b \<and> f b = Inr b' \<and> s' = bkt_set p b' s"
  by (auto simp: on_bkt_def split: option.splits sum.splits)

text \<open>After \<^verbatim>\<open>DeleteCheckins\<close> there are none, also when it reports a missing bucket.\<close>

lemma DeleteCheckins_gone:
  assumes "sv_Update (convo_DeleteCheckins i) sv = (r, sv')" and "r = Ret () \<or> (\<exists>e. r = Fail e \<and> store_IsMissingBucket e)"
  shows "bkt_at [RiverBucket, ScribeBucket, i] (sv_db sv') = None"
proof (cases "bkt_at [RiverBucket, ScribeBucket, i] (sv_db sv)")
  case None
  have "convo_DeleteCheckins i (sv_db sv) = (Ret (), s') \<Longrightarrow> s' = sv_db sv" for s'
    using None by (auto simp: convo_DeleteCheckins_def db_bind_def split: option.splits entry.splits)
  then have "sv_db sv' = sv_db sv" using assms sv_Update_RetD [of _ sv "()" sv'] sv_Update_FailD [of _ sv _ sv'] by metis
  then show ?thesis using None by simp
next
  case (Some c)
  then obtain b where b: "bkt_at [RiverBucket, ScribeBucket] (sv_db sv) = Some b"
    and ent: "ent i b = Some (Sub c)"
    using bkt_at_append [of "[RiverBucket, ScribeBucket]" "[i]" "sv_db sv"] by (auto split: option.splits entry.splits)
  have "store_GetNestedBucket [RiverBucket] [ScribeBucket] (sv_db sv) = (Ret [RiverBucket, ScribeBucket], sv_db sv)"
    using GetNested_found [of "[RiverBucket]" "[ScribeBucket]" "sv_db sv"] b by simp
  then have "convo_DeleteCheckins i (sv_db sv) = (Ret (), bkt_set [RiverBucket, ScribeBucket] (del_ent i b) (sv_db sv))"
    using Some by (simp add: convo_DeleteCheckins_def db_bind_def on_bkt_def b Bucket_DeleteBucket_def ent
        del: bkt_at.simps bkt_set.simps store_GetNestedBucket.simps)
  then have "sv_db sv' = bkt_set [RiverBucket, ScribeBucket] (del_ent i b) (sv_db sv)"
    using assms(1) by (auto simp: sv_Update_Ret)
  then show ?thesis using bkt_at_below [OF b, of "[i]" "del_ent i b"] by (simp del: bkt_set.simps)
qed

lemma delete_both:
  assumes "store_Wrap [convo_Delete i, convo_DeleteMessages i] s = (Ret (), s')"
  shows "table s' ConvoBucket i = None" "bkt_at [MessageBucket, i] s' = None" "bkt_at (RiverBucket # q) s' = bkt_at (RiverBucket # q) s"
proof -
  have ne: "ConvoBucket \<noteq> MessageBucket" "ConvoBucket \<noteq> RiverBucket" "MessageBucket \<noteq> RiverBucket"
    by (simp_all add: ConvoBucket_def MessageBucket_def RiverBucket_def)
  obtain s1 where "convo_Delete i s = (Ret (), s1)" and "convo_DeleteMessages i s1 = (Ret (), s')"
    using assms by (auto split: prod.splits go.splits)
  then obtain b b' B B' where b: "bkt_at [ConvoBucket] s = Some b" "Bucket_Delete i b = Inr b'" "s1 = bkt_set [ConvoBucket] b' s"
    and B: "bkt_at [MessageBucket] s1 = Some B" "Bucket_DeleteBucket i B = Inr B'" "s' = bkt_set [MessageBucket] B' s1"
    unfolding convo_Delete_def store_Delete_def convo_DeleteMessages_def by (blast dest: on_bkt_RetD)
  have b': "b' = del_ent i b" and B': "B' = del_ent i B"
    using b(2) B(2) by (auto simp: Bucket_Delete_def Bucket_DeleteBucket_def split: option.splits entry.splits)
  have "bkt_at [ConvoBucket] s' = Some b'"
    using ne b(1) by (simp add: B(3) b(3) del: bkt_at.simps bkt_set.simps)
  then show "table s' ConvoBucket i = None" by (simp add: table_def b' Bucket_Get_def del: bkt_at.simps)
  show "bkt_at [MessageBucket, i] s' = None"
    using bkt_at_below [OF B(1), of "[i]" B'] by (simp add: B(3) B' del: bkt_set.simps)
  show "bkt_at (RiverBucket # q) s' = bkt_at (RiverBucket # q) s"
    using ne by (simp add: B(3) b(3) del: bkt_at.simps bkt_set.simps)
qed

text \<open>
  Whatever the connections answer and whatever other handlers commit during the surveys, but
  with no other handler between the last two transactions: when \<^verbatim>\<open>DELETE\<close> of a convo succeeds,
  the caller was its owner, and the convo, its messages and the check-ins of its scribe are gone,
  and every reader was told.  (\<^verbatim>\<open>Concurrent_Updates\<close> has every interleaving.)
\<close>

theorem Convo_Delete_complete:
  assumes "asks ''convo_id'' u i r" and "rest_Convo_Delete w r sv = (OkEmpty, sv')"
  shows "\<exists>x. fst (convo_Get zero_Stream i (sv_db sv)) = Ret x \<and> g_Owner (str_Group x) = u \<and>
    table (sv_db sv') ConvoBucket i = None \<and> bkt_at [MessageBucket, i] (sv_db sv') = None \<and>
    bkt_at [RiverBucket, ScribeBucket, i] (sv_db sv') = None \<and>
    sv_out sv' = sv_out sv @ map (\<lambda>v. (v, ''convo-deleted'', JStr i)) (smap_keys (g_Readers (str_Group x)))"
proof -
  obtain x where x: "sv_View (convo_Get zero_Stream i) sv = Ret x" "g_Owner (str_Group x) = u"
    and run: "convo_remove w i x sv = (OkEmpty, sv')"
    using assms by (auto simp: rest_Convo_Delete_def asks_def Let_def convo_get_status_def split: go.splits if_splits)
  obtain h sv1 r2 sv2 sv3 where hup: "convo_hangup w i (smap_keys (g_Readers (str_Group x))) sv = (h, sv1)"
    and chk: "sv_Update (convo_DeleteCheckins i) sv1 = (r2, sv2)" "r2 = Ret () \<or> (\<exists>e. r2 = Fail e \<and> store_IsMissingBucket e)"
    and del: "sv_Update (store_Wrap [convo_Delete i, convo_DeleteMessages i]) sv2 = (Ret (), sv3)"
    and sv': "sv' = notify_all ''convo-deleted'' (JStr i) (smap_keys (g_Readers (str_Group x))) sv3"
    using run by (auto simp: convo_remove_def split: prod.splits hup.splits go.splits if_splits)
  have "sv_out sv3 = sv_out sv"
    using convo_hangup_out [OF hup] sv_Update_out [OF chk(1)] sv_Update_out [OF del] by simp
  moreover note delete_both [OF sv_Update_RetD [OF del]] DeleteCheckins_gone [OF chk]
  ultimately show ?thesis using x by (simp add: sv' sv_View_eq del: bkt_at.simps)
qed

lemma convo_hangup_stops:
  assumes "bkt_at [RiverBucket] (sv_db sv) \<noteq> None" and "bkt_at [RiverBucket, HangupBucket, i, a] (sv_db sv) = None"
  shows "convo_hangup w i (a # us) sv = (HupNext, sv)"
  using NewSurvey_missing [OF assms(1), of "[HangupBucket, i, a]" "w_net w"] assms(2)
  by (auto simp: hangup_user_def Let_def sv_View_eq simp del: bkt_at.simps)

definition demo_convo :: Convo where
  "demo_convo = owned ''alice'' (uuid_String demo_id) demo_group"

definition demo_convo_db :: db where
  "demo_convo_db = bkt_set [MessageBucket] (Bucket 0 [(uuid_String demo_id, Sub empty_bucket)])
     (db_put ConvoBucket (uuid_String demo_id) (Doc (enc_Stream demo_convo)) demo_social)"

lemma demo_convo_facts:
  "bkt_at [RiverBucket] demo_convo_db = Some empty_bucket"
  "bkt_at [MessageBucket] demo_convo_db = Some (Bucket 0 [(uuid_String demo_id, Sub empty_bucket)])"
  "streams_in ConvoBucket [uuid_String demo_id \<mapsto> demo_convo] demo_convo_db"
proof -
  let ?s1 = "db_put ConvoBucket (uuid_String demo_id) (Doc (enc_Stream demo_convo)) demo_social"
  have ne: "ConvoBucket \<noteq> MessageBucket" "ConvoBucket \<noteq> RiverBucket" "MessageBucket \<noteq> RiverBucket"
    "UserBucket \<noteq> RiverBucket" "UserBucket \<noteq> MessageBucket"
    by (simp_all add: ConvoBucket_def MessageBucket_def RiverBucket_def UserBucket_def)
  have "bkt_at [b] demo_social = Some empty_bucket" if "b = MessageBucket \<or> b = RiverBucket" for b
    using that ne by (auto simp: demo_social_def bkt_at_db_put simp del: bkt_at.simps) (simp_all add: ent_db_of)
  then have at: "bkt_at [b] ?s1 = Some empty_bucket" if "b = MessageBucket \<or> b = RiverBucket" for b
    using that ne bkt_at_db_put [OF convos.in_has_tbl [OF demo_social_facts(2)]] by (auto simp del: bkt_at.simps)
  show "bkt_at [RiverBucket] demo_convo_db = Some empty_bucket"
    using at ne by (simp add: demo_convo_db_def del: bkt_at.simps bkt_set.simps)
  show "bkt_at [MessageBucket] demo_convo_db = Some (Bucket 0 [(uuid_String demo_id, Sub empty_bucket)])"
    unfolding demo_convo_db_def by (rule bkt_at_set_same) (rule at, simp)
  have same: "bkt_at [ConvoBucket] demo_convo_db = bkt_at [ConvoBucket] ?s1"
    using ne by (simp add: demo_convo_db_def del: bkt_at.simps bkt_set.simps)
  have "streams_in ConvoBucket [uuid_String demo_id \<mapsto> demo_convo] ?s1"
    using convos.streams_in_put [OF demo_social_facts(2), of demo_convo] demo_social_facts(6,7)
    by (simp add: demo_convo_def)
  then show "streams_in ConvoBucket [uuid_String demo_id \<mapsto> demo_convo] demo_convo_db"
    by (simp only: holds_same(1) [OF same])
qed

lemma demo_convo_Delete:
  "\<exists>sv'. rest_Convo_Delete w (demo_post\<lparr>rq_params := [(''convo_id'', uuid_String demo_id)]\<rparr>) \<lparr>sv_db = demo_convo_db, sv_out = []\<rparr> = (OkEmpty, sv')"
proof -
  let ?i = "uuid_String demo_id" and ?sv = "\<lparr>sv_db = demo_convo_db, sv_out = []\<rparr>"
  note [simp del] = bkt_at.simps bkt_set.simps
  have has: "has_tbl ConvoBucket demo_convo_db" using demo_convo_facts(3) by (rule convos.in_has_tbl)
  have "bkt_at [RiverBucket, HangupBucket, ?i, ''bob''] demo_convo_db = None" "bkt_at [RiverBucket, ScribeBucket] demo_convo_db = None"
    using bkt_at_append [of "[RiverBucket]" "[HangupBucket, ?i, ''bob'']"] bkt_at_append [of "[RiverBucket]" "[ScribeBucket]"]
    by (simp_all add: demo_convo_facts(1)) (simp_all add: bkt_at.simps)
  moreover have "smap_keys (g_Readers (str_Group demo_convo)) = [''bob'']"
    by (simp add: demo_convo_def demo_group_def smap_keys_def)
  ultimately have hup: "convo_hangup w ?i (smap_keys (g_Readers (str_Group demo_convo))) ?sv = (HupNext, ?sv)"
    and chk: "convo_DeleteCheckins ?i demo_convo_db = (Fail (ErrMissingBucket ScribeBucket), demo_convo_db)"
    using convo_hangup_stops [of ?sv ?i "''bob''" w "[]"]
    by (simp_all add: demo_convo_facts(1) convo_DeleteCheckins_def db_bind_def)
  have "ConvoBucket \<noteq> MessageBucket" by (simp add: ConvoBucket_def MessageBucket_def)
  then have "bkt_at [MessageBucket] (db_del ConvoBucket ?i demo_convo_db) = Some (Bucket 0 [(?i, Sub empty_bucket)])"
    by (simp add: bkt_at_db_del [OF has] demo_convo_facts(2))
  then have "\<exists>s'. store_Wrap [convo_Delete ?i, convo_DeleteMessages ?i] demo_convo_db = (Ret (), s')"
    by (simp add: convos.Delete_eq [OF has] convo_DeleteMessages_def on_bkt_def Bucket_DeleteBucket_def ent_def)
  then obtain s' where "store_Wrap [convo_Delete ?i, convo_DeleteMessages ?i] demo_convo_db = (Ret (), s')" by blast
  then have "\<exists>sv'. convo_remove w ?i demo_convo ?sv = (OkEmpty, sv')"
    using hup chk by (simp add: convo_remove_def sv_Update_Ret sv_Update_Fail del: store_Wrap.simps)
  then show ?thesis
    using uuid_roundtrip [OF demo_social_facts(7)] convos.Get_eq [OF demo_convo_facts(3), of ?i]
    by (simp add: rest_Convo_Delete_def demo_post_def mw_CtxGetUserID_def go_assert_def ByName_def sv_View_eq Let_def)
      (simp add: demo_convo_def)
qed

theorem Convo_Delete_complete_witness:
  "\<exists>sv'. rest_Convo_Delete demo_world (demo_post\<lparr>rq_params := [(''convo_id'', uuid_String demo_id)]\<rparr>) \<lparr>sv_db = demo_convo_db, sv_out = []\<rparr>
      = (OkEmpty, sv') \<and> table (sv_db sv') ConvoBucket (uuid_String demo_id) = None"
proof -
  have "asks ''convo_id'' ''alice'' (uuid_String demo_id) (demo_post\<lparr>rq_params := [(''convo_id'', uuid_String demo_id)]\<rparr>)"
    by (simp add: asks_def demo_post_def mw_CtxGetUserID_def go_assert_def ByName_def)
  with Convo_Delete_complete demo_convo_Delete show ?thesis by meson
qed

end
