(* ===== verification/Rest_Accounts.thy ===== *)
theory Rest_Accounts
  imports Rest_Middleware Go_Uuid
begin

text \<open>
  The handlers on accounts: logging in and out (\<^verbatim>\<open>rest/token.go\<close>), inception
  (\<^verbatim>\<open>rest/incept.go\<close>), reading one's profile (\<^verbatim>\<open>rest/profile.go\<close>) and the admin's handlers
  on tickets, profiles and logins (\<^verbatim>\<open>rest/admin.go\<close>).  Random UUIDs and the clock are
  arguments.
\<close>

section \<open>Tokens\<close>

definition rest_Token_Create :: "uuid \<Rightarrow> uuid \<Rightarrow> gtime \<Rightarrow> handler" where
  "rest_Token_Create uTok uRef now r sv =
     (case decode_body dec_Login zero_Login r of
        None \<Rightarrow> (HttpError StatusBadRequest, sv)
      | Some l \<Rightarrow>
          (case sv_View (auth_Check l) sv of
             Fail (auth_ErrInvalid _) \<Rightarrow> (HttpError StatusNotFound, sv)
           | Fail (auth_ErrMissing _) \<Rightarrow> (HttpError StatusNotFound, sv)
           | Fail (auth_ErrDisabled _) \<Rightarrow> (HttpError StatusUnauthorized, sv)
           | Fail _ \<Rightarrow> (HttpError StatusInternalServerError, sv)
           | Panic \<Rightarrow> (Panicked, sv)
           | Ret _ \<Rightarrow>
               (case sv_Update (auth_NewSession zero_Session (time_Add now auth_Expiration) auth_Expiration
                        (auth_NewToken uTok BearerType) (auth_NewToken uRef RefreshType) (login_Name l)) sv of
                  (Fail _, sv1) \<Rightarrow> (HttpError StatusInternalServerError, sv1)
                | (Panic, sv1) \<Rightarrow> (Panicked, sv1)
                | (Ret sesh, sv1) \<Rightarrow> (OkBody (enc_Session sesh), sv1))))"

definition rest_Token_Delete :: "gtime \<Rightarrow> handler" where
  "rest_Token_Delete now r sv =
     (case mw_CtxGetToken r of
        Ret token \<Rightarrow>
          (case sv_View (auth_CheckToken now token) sv of
             Fail e \<Rightarrow> (HttpError (if auth_IsMissingSession e \<or> auth_IsTokenExpired e then StatusNotFound
                                  else StatusInternalServerError), sv)
           | Panic \<Rightarrow> (Panicked, sv)
           | Ret _ \<Rightarrow>
               (case sv_Update (auth_DeleteToken token) sv of
                  (Fail e, sv1) \<Rightarrow>
                    (HttpError (if auth_IsMissingSession e then StatusNotFound else StatusInternalServerError), sv1)
                | (Panic, sv1) \<Rightarrow> (Panicked, sv1)
                | (Ret _, sv1) \<Rightarrow> (OkEmpty, sv1)))
      | _ \<Rightarrow> (Panicked, sv))"

section \<open>Inception and profile\<close>

definition rest_Incept_Incept :: "uuid \<Rightarrow> handler" where
  "rest_Incept_Incept salt r sv =
     (case decode_body dec_Login zero_Login r of
        None \<Rightarrow> (HttpError StatusBadRequest, sv)
      | Some l \<Rightarrow>
          (case auth_ValidateNew l of
             Fail _ \<Rightarrow> (HttpError StatusBadRequest, sv)
           | Panic \<Rightarrow> (Panicked, sv)
           | Ret _ \<Rightarrow>
               (case uuid_FromString (ByName r ''key'') of
                  Fail _ \<Rightarrow> (HttpError StatusBadRequest, sv)
                | Panic \<Rightarrow> (Panicked, sv)
                | Ret tkt \<Rightarrow>
                    (case incept_Incept salt tkt l (sv_db sv) of
                       (Ret _, s') \<Rightarrow> (OkBody (enc_User (login_User l)), sv\<lparr>sv_db := s'\<rparr>)
                     | (Panic, s') \<Rightarrow> (Panicked, sv\<lparr>sv_db := s'\<rparr>)
                     | (Fail e, s') \<Rightarrow>
                         (HttpError (if incept_IsTicketMissing e then StatusNotFound
                                     else if users_IsExists e \<or> auth_IsExists e then StatusConflict
                                     else StatusInternalServerError), sv\<lparr>sv_db := s'\<rparr>)))))"

definition rest_Profile_Get :: handler where
  "rest_Profile_Get r sv =
     (case mw_CtxGetUserID r of
        Ret userID \<Rightarrow>
          (case sv_View (store_Unmarshal dec_User UserBucket zero_User userID) sv of
             Ret user \<Rightarrow> (OkBody (enc_User user), sv)
           | Fail _ \<Rightarrow> (HttpError StatusInternalServerError, sv)
           | Panic \<Rightarrow> (Panicked, sv))
      | _ \<Rightarrow> (Panicked, sv))"

section \<open>Admin\<close>

definition FormValue :: "request \<Rightarrow> string \<Rightarrow> string" where
  "FormValue r k =
     (case rq_query r of
        None \<Rightarrow> []
      | Some q \<Rightarrow> (case map_of q k of Some (v # _) \<Rightarrow> v | _ \<Rightarrow> []))"

definition rest_Admin_Verify :: handler where
  "rest_Admin_Verify r sv = (OkBody (JBool True), sv)"

text \<open>The count that \<^verbatim>\<open>NewTicket\<close> reads; \<open>None\<close> stands for a bad request.\<close>

definition ticket_count :: "request \<Rightarrow> nat option" where
  "ticket_count r =
     (let countStr = FormValue r ''count''
      in if length countStr \<noteq> 0 then
           (case strconv_ParseInt countStr of
              Ret count \<Rightarrow> if sint count < 1 then None else Some (nat (sint count))
            | _ \<Rightarrow> None)
         else Some 1)"

text \<open>
  \<open>newV4\<close> numbers the UUIDs that are drawn; \<open>wfail\<close> says that writing the response failed, in
  which case the tickets are deleted again.
\<close>

definition rest_Admin_NewTicket :: "(nat \<Rightarrow> uuid) \<Rightarrow> bool \<Rightarrow> handler" where
  "rest_Admin_NewTicket newV4 wfail r sv =
     (case ticket_count r of
        None \<Rightarrow> (HttpError StatusBadRequest, sv)
      | Some count \<Rightarrow>
          (let tkts = map newV4 [0..<count]
           in case sv_Update (incept_NewTickets tkts) sv of
                (Fail _, sv1) \<Rightarrow> (HttpError StatusInternalServerError, sv1)
              | (Panic, sv1) \<Rightarrow> (Panicked, sv1)
              | (Ret _, sv1) \<Rightarrow>
                  if wfail then
                    (case sv_Update (incept_DeleteTickets tkts) sv1 of
                       (Panic, sv2) \<Rightarrow> (Panicked, sv2)
                     | (_, sv2) \<Rightarrow> (HttpError StatusInternalServerError, sv2))
                  else (OkBody (JArr (map (\<lambda>t. JStr (uuid_String t)) tkts)), sv1)))"

definition rest_Admin_GetAllProfiles :: handler where
  "rest_Admin_GetAllProfiles r sv =
     (case sv_View users_GetAll sv of
        Ret us \<Rightarrow> (OkBody (JArr (map enc_User us)), sv)
      | Fail _ \<Rightarrow> (HttpError StatusInternalServerError, sv)
      | Panic \<Rightarrow> (Panicked, sv))"

definition rest_Admin_PatchProfile :: handler where
  "rest_Admin_PatchProfile r sv =
     (let userID = ByName r ''id''
      in case sv_View (users_CheckUsersExist [userID]) sv of
           Fail _ \<Rightarrow> (HttpError StatusNotFound, sv)
         | Panic \<Rightarrow> (Panicked, sv)
         | Ret _ \<Rightarrow>
             (let coinStr = FormValue r ''addCoin''
              in if coinStr = [] then (HttpError StatusBadRequest, sv)
                 else (case strconv_ParseInt coinStr of
                         Ret coin \<Rightarrow>
                           (case sv_Update (db_bind (users_CheckUsersExist [userID]) (\<lambda>_.
                                    users_AddCoin \<lparr>user_Name = userID, user_Coin = 0\<rparr> coin)) sv of
                              (Fail e, sv1) \<Rightarrow>
                                (HttpError (if users_IsMissing e then StatusNotFound else StatusInternalServerError), sv1)
                            | (Panic, sv1) \<Rightarrow> (Panicked, sv1)
                            | (Ret u, sv1) \<Rightarrow>
                                (OkBody (enc_User u), notif_Encode ''users'' (enc_User u) (user_Name u) sv1))
                       | _ \<Rightarrow> (HttpError StatusBadRequest, sv))))"

definition rest_Admin_NewLogin :: "uuid \<Rightarrow> handler" where
  "rest_Admin_NewLogin salt r sv =
     (case decode_body dec_Login zero_Login r of
        None \<Rightarrow> (HttpError StatusBadRequest, sv)
      | Some l \<Rightarrow>
          (case incept_InceptNoTicket salt l (sv_db sv) of
             (Ret _, s') \<Rightarrow> (OkBody (enc_User (login_User l)), sv\<lparr>sv_db := s'\<rparr>)
           | (Panic, s') \<Rightarrow> (Panicked, sv\<lparr>sv_db := s'\<rparr>)
           | (Fail e, s') \<Rightarrow>
               (HttpError (if users_IsExists e \<or> auth_IsExists e then StatusConflict else StatusInternalServerError),
                sv\<lparr>sv_db := s'\<rparr>)))"

definition rest_Admin_DeleteTicket :: handler where
  "rest_Admin_DeleteTicket r sv =
     (case uuid_FromString (ByName r ''ticket'') of
        Fail _ \<Rightarrow> (HttpError StatusBadRequest, sv)
      | Panic \<Rightarrow> (Panicked, sv)
      | Ret ticket \<Rightarrow>
          (case sv_Update (incept_DeleteTickets [ticket]) sv of
             (Fail _, sv1) \<Rightarrow> (HttpError StatusInternalServerError, sv1)
           | (Panic, sv1) \<Rightarrow> (Panicked, sv1)
           | (Ret _, sv1) \<Rightarrow> (OkEmpty, sv1)))"

section \<open>Lemmas\<close>

lemma NewTickets_eq:
  "has_tbl TicketBucket s \<Longrightarrow> list_all valid_key ts \<Longrightarrow>
   incept_NewTickets ts s = (Ret (), fold (\<lambda>p. db_put TicketBucket (fst p) (snd p)) (map (\<lambda>t. (t, Raw [])) ts) s)"
  using store_Wrap_Puts [of TicketBucket s "map (\<lambda>t. (t, Raw [])) ts"]
  by (simp add: incept_NewTickets_def incept_NewTicket_def [abs_def] list_all_iff comp_def)

lemma DeleteTickets_eq:
  "has_tbl TicketBucket s \<Longrightarrow> incept_DeleteTickets ts s = (Ret (), fold (db_del TicketBucket) ts s)"
  by (simp add: incept_DeleteTickets_def store_Wrap_Deletes)

lemma demo_uuid_key [simp]: "length u = 16 \<Longrightarrow> valid_key u"
  by (auto simp: valid_key_def MaxKeySize_def)

section \<open>Properties\<close>

text \<open>
  C39 (login_then_request).  Posting the right password to \<^verbatim>\<open>/tokens\<close> answers with a session;
  for five minutes from then on, any handler behind \<^verbatim>\<open>AuthUser\<close> runs as that user for a
  request with the token of that session in its header.
\<close>

theorem login_then_request:
  assumes "auth_tables (sv_db sv)" and "length uTok = 16" and "length uRef = 16"
    and "decode_body dec_Login zero_Login r = Some l"
    and "table (sv_db sv) LoginBucket (login_Name l) = Some (Doc (enc_Login stored))"
    and "\<not> login_Disabled stored"
    and "login_PWHash stored = sha256_Sum256 (login_PWHash l @ login_Salt stored)"
  shows "\<exists>sesh sv1. rest_Token_Create uTok uRef now r sv = (OkBody (enc_Session sesh), sv1) \<and>
    sess_Token sesh = uTok \<and> sess_RefreshToken sesh = uRef \<and>
    (\<forall>h r2 clk. rq_AuthHeader r2 = token_header BearerType uTok \<and>
       t_ns (clk_check clk) \<le> t_ns now + 5 * minute_ns \<longrightarrow>
       (\<exists>r3. mw_AuthUser h [mw_CtxSetUserID] clk r2 sv1 = h r3 sv1 \<and> mw_CtxGetUserID r3 = Ret (login_Name l)))"
proof -
  define x where "x = fill_session zero_Session (time_Add now auth_Expiration) auth_Expiration uTok uRef"
  define c where "c = \<lparr>ctx_Token = uTok, ctx_RefreshToken = uRef, ctx_UserID = login_Name l\<rparr>"
  define s1 where "s1 = db_put RefreshBucket uRef (Raw [])
    (db_put ContextBucket uTok (Doc (enc_Context c)) (db_put SessionBucket uTok (Doc (enc_Session x)) (sv_db sv)))"
  have t: "has_tbl LoginBucket (sv_db sv)" "has_tbl SessionBucket (sv_db sv)" "has_tbl RefreshBucket (sv_db sv)"
    "has_tbl ContextBucket (sv_db sv)" using assms(1) by (simp_all add: auth_tables_def)
  have new: "auth_NewSession zero_Session (time_Add now auth_Expiration) auth_Expiration uTok uRef (login_Name l) (sv_db sv)
      = (Ret x, s1)"
    using assms(1-3) by (simp add: auth_NewSession_eq x_def s1_def c_def)
  have run: "rest_Token_Create uTok uRef now r sv = (OkBody (enc_Session x), sv\<lparr>sv_db := s1\<rparr>)"
    using assms t new
    by (simp add: rest_Token_Create_def sv_View_eq auth_Check_eq auth_NewToken_def BearerType_def RefreshType_def
        sv_Update_def db_Update_def)
  have exp: "t_ns (sess_Expiration x) = t_ns now + 5 * minute_ns"
    by (simp add: x_def time_Add_def auth_Expiration_def minute_ns_def)
  have s1: "auth_tables s1" "table s1 SessionBucket uTok = Some (Doc (enc_Session x))"
    "table s1 ContextBucket uTok = Some (Doc (enc_Context c))"
    using t by (simp_all add: s1_def auth_tables_def)
  have gate: "mw_AuthUser h [mw_CtxSetUserID] clk r2 (sv\<lparr>sv_db := s1\<rparr>) = h (mw_CtxSetUserID r2 c) (sv\<lparr>sv_db := s1\<rparr>)"
    if "rq_AuthHeader r2 = token_header BearerType uTok" "t_ns (clk_check clk) \<le> t_ns now + 5 * minute_ns" for h r2 clk
  proof -
    have "uTok \<noteq> []" using assms(2) by auto
    then show ?thesis
      using s1 that exp
      by (simp add: mw_AuthUser_def mw_session_gate_def GetToken_header sv_simps auth_CheckToken_eq auth_tables_def
          mw_with_context_def auth_GetContext_eq)
  qed
  have user: "mw_CtxGetUserID (mw_CtxSetUserID r2 c) = Ret (login_Name l)" for r2
    by (simp add: mw_CtxGetUserID_def mw_CtxSetUserID_def go_assert_def c_def)
  have "sess_Token x = uTok" "sess_RefreshToken x = uRef" by (simp_all add: x_def)
  with run gate user show ?thesis by blast
qed

definition demo_pw :: bytes where
  "demo_pw = replicate 32 CHR ''p''"

definition demo_new_login :: Login where
  "demo_new_login = demo_login\<lparr>login_PWHash := demo_pw\<rparr>"

definition demo_account_sv :: server where
  "demo_account_sv = \<lparr>sv_db = snd (auth_Create demo_new_login nil_uuid demo_auth), sv_out = []\<rparr>"

theorem login_then_request_witness:
  "\<exists>sesh sv1. rest_Token_Create nil_uuid nil_uuid zero_time (no_request\<lparr>rq_body := Some (enc_Login demo_new_login)\<rparr>) demo_account_sv
     = (OkBody (enc_Session sesh), sv1) \<and> sess_Token sesh = nil_uuid"
proof -
  have t: "has_tbl LoginBucket demo_auth" using demo_auth_tables by (simp add: auth_tables_def)
  have name: "login_Name demo_new_login = ''ann''" by (simp add: demo_new_login_def demo_login_def)
  then have "auth_tables (sv_db demo_account_sv)"
    "table (sv_db demo_account_sv) LoginBucket (login_Name demo_new_login) = Some (Doc (enc_Login
       (demo_new_login\<lparr>login_PWHash := sha256_Sum256 (demo_pw @ nil_uuid)\<rparr>)))"
    using t by (simp_all add: demo_account_sv_def auth_Create_def Let_def demo_new_login_def demo_login_def)
  then show ?thesis
    using login_then_request [of demo_account_sv nil_uuid nil_uuid
        "no_request\<lparr>rq_body := Some (enc_Login demo_new_login)\<rparr>" demo_new_login
        "demo_new_login\<lparr>login_PWHash := sha256_Sum256 (demo_pw @ nil_uuid)\<rparr>" zero_time]
    by (auto simp: decode_body_def nil_uuid_def demo_new_login_def demo_login_def)
qed

text \<open>
  The admin's \<^verbatim>\<open>PATCH\<close> on a profile adds the amount given as a
  decimal 64-bit integer to the user's coin, notifies that user and nobody else, and answers
  with the new profile; a missing user is 404 and a missing or malformed amount is 400, and
  neither changes anything.
\<close>

theorem PatchProfile_spec:
  assumes "wf_bucket (sv_db sv)" and "has_tbl UserBucket (sv_db sv)" and "valid_key u" and "ByName r ''id'' = u"
  shows "(table (sv_db sv) UserBucket u = None \<longrightarrow> rest_Admin_PatchProfile r sv = (HttpError StatusNotFound, sv)) \<and>
    (table (sv_db sv) UserBucket u \<noteq> None \<and> (FormValue r ''addCoin'' = [] \<or> (\<exists>e. strconv_ParseInt (FormValue r ''addCoin'') = Fail e))
       \<longrightarrow> rest_Admin_PatchProfile r sv = (HttpError StatusBadRequest, sv)) \<and>
    (\<forall>v coin. user_at (sv_db sv) u = Some v \<and> FormValue r ''addCoin'' \<noteq> [] \<and>
        strconv_ParseInt (FormValue r ''addCoin'') = Ret coin \<longrightarrow>
       (\<exists>sv'. rest_Admin_PatchProfile r sv = (OkBody (enc_User \<lparr>user_Name = u, user_Coin = user_Coin v + coin\<rparr>), sv') \<and>
          user_at (sv_db sv') u = Some (v\<lparr>user_Coin := user_Coin v + coin\<rparr>) \<and>
          total_coin (sv_db sv') = total_coin (sv_db sv) + coin \<and>
          sv_out sv' = sv_out sv @ [(u, ''users'', enc_User \<lparr>user_Name = u, user_Coin = user_Coin v + coin\<rparr>)]))"
proof -
  have chk: "users_CheckUsersExist [u] (sv_db sv) =
      (if table (sv_db sv) UserBucket u = None then Fail (users_ErrMissing u) else Ret (), sv_db sv)"
    using assms(2) by (simp add: users_CheckUsersExist_eq)
  have miss: "rest_Admin_PatchProfile r sv = (HttpError StatusNotFound, sv)" if "table (sv_db sv) UserBucket u = None"
    using that assms by (simp add: rest_Admin_PatchProfile_def Let_def sv_View_eq chk)
  have bad: "rest_Admin_PatchProfile r sv = (HttpError StatusBadRequest, sv)"
    if "table (sv_db sv) UserBucket u \<noteq> None" "FormValue r ''addCoin'' = [] \<or> (\<exists>e. strconv_ParseInt (FormValue r ''addCoin'') = Fail e)"
    using that assms by (auto simp: rest_Admin_PatchProfile_def Let_def sv_View_eq chk)
  have good: "\<exists>sv'. rest_Admin_PatchProfile r sv = (OkBody (enc_User \<lparr>user_Name = u, user_Coin = user_Coin v + coin\<rparr>), sv') \<and>
          user_at (sv_db sv') u = Some (v\<lparr>user_Coin := user_Coin v + coin\<rparr>) \<and>
          total_coin (sv_db sv') = total_coin (sv_db sv) + coin \<and>
          sv_out sv' = sv_out sv @ [(u, ''users'', enc_User \<lparr>user_Name = u, user_Coin = user_Coin v + coin\<rparr>)]"
    if v: "user_at (sv_db sv) u = Some v" and c: "FormValue r ''addCoin'' \<noteq> []" "strconv_ParseInt (FormValue r ''addCoin'') = Ret coin"
    for v coin
  proof -
    have some: "table (sv_db sv) UserBucket u \<noteq> None" using v by (auto simp: user_at_def split: option.splits)
    have add: "users_AddCoin \<lparr>user_Name = u, user_Coin = 0\<rparr> coin (sv_db sv) =
        (Ret \<lparr>user_Name = u, user_Coin = user_Coin v + coin\<rparr>,
         db_put UserBucket u (Doc (enc_User (v\<lparr>user_Coin := user_Coin v + coin\<rparr>))) (sv_db sv))"
      using users_AddCoin_eq [of "sv_db sv" "\<lparr>user_Name = u, user_Coin = 0\<rparr>" v coin] assms v by simp
    show ?thesis
      using assms some c v add
      by (simp add: rest_Admin_PatchProfile_def Let_def sv_View_eq chk sv_Update_def db_Update_def db_bind_def
          notif_Encode_def total_coin_put)
  qed
  show ?thesis using miss bad good by blast
qed

theorem PatchProfile_spec_witness:
  "\<exists>sv'. rest_Admin_PatchProfile (no_request\<lparr>rq_params := [(''id'', ''bob'')], rq_query := Some [(''addCoin'', [''-3''])]\<rparr>)
     \<lparr>sv_db = demo_users, sv_out = []\<rparr> = (OkBody (enc_User \<lparr>user_Name = ''bob'', user_Coin = 2\<rparr>), sv')"
proof -
  have "strconv_ParseInt ''-3'' = Ret (- 3)"
    by (simp add: strconv_ParseInt_def is_digit_def digits_value_def Let_def)
  then show ?thesis
    using PatchProfile_spec [of "\<lparr>sv_db = demo_users, sv_out = []\<rparr>" "''bob''"
        "no_request\<lparr>rq_params := [(''id'', ''bob'')], rq_query := Some [(''addCoin'', [''-3''])]\<rparr>"]
    by (auto simp: valid_key_def MaxKeySize_def ByName_def FormValue_def)
qed

text \<open>
  \<^verbatim>\<open>POST /admin/tickets\<close> with fresh UUIDs stores as many tickets as it
  lists in its answer, and they can all be used; when writing the answer fails, the tickets
  are taken back and the ticket bucket is what it was.
\<close>

theorem NewTicket_rollback:
  assumes "has_tbl TicketBucket (sv_db sv)" and "ticket_count r = Some n"
    and "\<forall>i < n. length (newV4 i) = 16 \<and> table (sv_db sv) TicketBucket (newV4 i) = None"
  shows "(\<exists>sv'. rest_Admin_NewTicket newV4 False r sv = (OkBody (JArr (map (\<lambda>i. JStr (uuid_String (newV4 i))) [0..<n])), sv') \<and>
      (\<forall>i < n. fst (incept_CheckTicketExist (newV4 i) (sv_db sv')) = Ret ())) \<and>
    (\<exists>sv'. rest_Admin_NewTicket newV4 True r sv = (HttpError StatusInternalServerError, sv') \<and>
      table (sv_db sv') = table (sv_db sv))"
proof -
  define ts where "ts = map newV4 [0..<n]"
  define kvs where "kvs = map (\<lambda>t. (t, Raw [])) ts"
  define s1 where "s1 = fold (\<lambda>p. db_put TicketBucket (fst p) (snd p)) kvs (sv_db sv)"
  define s2 where "s2 = fold (db_del TicketBucket) ts s1"
  have "list_all valid_key ts" using assms(3) by (auto simp: ts_def list_all_iff)
  then have new: "incept_NewTickets ts (sv_db sv) = (Ret (), s1)"
    using NewTickets_eq [OF assms(1)] by (simp add: s1_def kvs_def)
  have t1: "has_tbl TicketBucket s1" using assms(1) by (simp add: s1_def bolt.ok_fold_put)
  have v1: "table s1 = (table (sv_db sv))(TicketBucket := table (sv_db sv) TicketBucket ++ map_of (rev kvs))"
    by (simp only: s1_def bolt.view_fold_put [OF assms(1)])
  have v2: "table s2 = (table s1)(TicketBucket := table s1 TicketBucket |` (- set ts))"
    by (simp only: s2_def bolt.view_fold_del [OF t1])
  have look: "map_of (rev kvs) k = (if k \<in> set ts then Some (Raw []) else None)" for k
    unfolding kvs_def by (induction ts rule: rev_induct) auto
  have here: "table s1 TicketBucket k = Some (Raw [])" if "k \<in> set ts" for k
    using that by (simp add: v1 look map_add_def)
  have "fst (incept_CheckTicketExist (newV4 i) s1) = Ret ()" if "i < n" for i
    using t1 here [of "newV4 i"] that by (simp add: incept_CheckTicketExist_eq ts_def)
  moreover have "rest_Admin_NewTicket newV4 False r sv = (OkBody (JArr (map (\<lambda>i. JStr (uuid_String (newV4 i))) [0..<n])), sv\<lparr>sv_db := s1\<rparr>)"
    using assms(2) new by (simp add: rest_Admin_NewTicket_def ts_def [symmetric] sv_Update_def db_Update_def)
      (simp add: ts_def comp_def)
  moreover have "rest_Admin_NewTicket newV4 True r sv = (HttpError StatusInternalServerError, sv\<lparr>sv_db := s2\<rparr>)"
    using assms(2) new DeleteTickets_eq [OF t1, of ts]
    by (simp add: rest_Admin_NewTicket_def ts_def [symmetric] sv_Update_def db_Update_def s2_def)
  moreover have "table s2 = table (sv_db sv)"
    using assms(3) by (auto simp: v2 v1 look fun_eq_iff map_add_def restrict_map_def ts_def)
  ultimately show ?thesis by (metis server.select_convs(1) server.update_convs(1) server.surjective)
qed

theorem NewTicket_rollback_witness:
  "\<exists>sv'. rest_Admin_NewTicket (\<lambda>_. nil_uuid) True no_request \<lparr>sv_db = db_of [TicketBucket], sv_out = []\<rparr>
     = (HttpError StatusInternalServerError, sv') \<and> table (sv_db sv') = table (db_of [TicketBucket])"
  using NewTicket_rollback [of "\<lparr>sv_db = db_of [TicketBucket], sv_out = []\<rparr>" no_request 1 "\<lambda>_. nil_uuid"]
  by (auto simp: ticket_count_def FormValue_def no_request_def nil_uuid_def Let_def)

end
