(* ===== verification/Rest_Users.thy ===== *)
theory Rest_Users
  imports Rest_Convo Rest_Accounts
begin

text \<open>
  Deleting a user: \<^verbatim>\<open>Profile.Delete\<close> (\<^verbatim>\<open>rest/profile.go\<close>) and \<^verbatim>\<open>Admin.DeleteUser\<close>
  (\<^verbatim>\<open>rest/admin.go\<close>), which spell out the same steps.  A survey is prepared for every convo and
  stream of the user and for the user's notifications; the surveys run concurrently, and their
  results are taken as they arrive; then the user is deleted and the login disabled.
  Here is also the web socket for notifications (\<^verbatim>\<open>rest/notif.go\<close>).
\<close>

section \<open>Surveys\<close>

fun add_surveys :: "net \<Rightarrow> bytes list list \<Rightarrow> (surveyor \<times> bytes list) list dbop" where
  "add_surveys net [] = db_return []"
| "add_surveys net (bkts # rest) =
     (\<lambda>s. case river_NewSurvey net bkts s of
            (Fail e, s') \<Rightarrow> if river_IsStreamMissing e then add_surveys net rest s' else (Fail e, s')
          | (Panic, s') \<Rightarrow> (Panic, s')
          | (Ret surv, s') \<Rightarrow> db_bind (add_surveys net rest) (\<lambda>survs. db_return ((surv, bkts) # survs)) s')"

definition user_surveys :: "net \<Rightarrow> string \<Rightarrow> (surveyor \<times> bytes list) list dbop" where
  "user_surveys net userID =
     db_bind (convo_GetAll userID []) (\<lambda>convos.
     db_bind (stream_GetAll userID []) (\<lambda>strs.
       add_surveys net (map (\<lambda>c. [HangupBucket, str_ID c, userID]) convos
         @ map (\<lambda>str. [HangupBucket, str_ID str, userID]) strs
         @ [[HangupBucket, ResponderBucket, userID]])))"

lemma one_taken: "length (take (n mod length xs) xs @ drop (Suc (n mod length xs)) xs) < length xs" if "xs \<noteq> []"
proof -
  have "n mod length xs < length xs" using that by simp
  then show ?thesis by simp
qed

text \<open>
  The loop \<^verbatim>\<open>hangups\<close>.  \<open>pend\<close> holds the surveys whose results have not been taken;
  \<open>picks k\<close> tells which of them arrives as the \<open>k\<close>-th one, or that the wait timed out.  A survey that panics does so in a
  goroutine of its own, which ends the process.  \<open>None\<close> means that all were hung up.
\<close>

function await_hangups ::
    "world \<Rightarrow> (nat \<Rightarrow> nat option) \<Rightarrow> nat \<Rightarrow> (surveyor \<times> bytes list) list \<Rightarrow> server \<Rightarrow> response option \<times> server" where
  "await_hangups w picks k pend sv =
     (if pend = [] then (None, sv)
      else (case picks k of
              None \<Rightarrow> (Some (HttpError StatusInternalServerError), sv)
            | Some n \<Rightarrow>
                (let j = n mod length pend;
                     (surv, bkts) = pend ! j;
                     pend' = take j pend @ drop (Suc j) pend
                 in case hup_survey w bkts surv sv of
                      (Panic, sv1) \<Rightarrow> (Some Exited, sv1)
                    | (Ret _, sv1) \<Rightarrow> await_hangups w picks (Suc k) pend' sv1
                    | (Fail e, sv1) \<Rightarrow>
                        if river_IsMissing e then
                          (case sv_View (river_CheckMissing bkts) sv1 of
                             Ret _ \<Rightarrow> await_hangups w picks (Suc k) pend' sv1
                           | Panic \<Rightarrow> (Some Panicked, sv1)
                           | Fail _ \<Rightarrow> (Some (HttpError StatusInternalServerError), sv1))
                        else (Some (HttpError StatusInternalServerError), sv1))))"
  by pat_completeness auto
termination
  by (relation "measure (\<lambda>(w, picks, k, pend, sv). length pend)") (simp_all add: one_taken del: length_append)

declare await_hangups.simps [simp del]

definition user_removal :: "string \<Rightarrow> unit dbop" where
  "user_removal userID = store_Wrap [users_Delete userID, auth_Disable userID]"

text \<open>What both handlers do once they know the user.\<close>

definition delete_user :: "world \<Rightarrow> (nat \<Rightarrow> nat option) \<Rightarrow> string \<Rightarrow> server \<Rightarrow> response \<times> server" where
  "delete_user w picks userID sv =
     (case sv_View (user_surveys (w_net w) userID) sv of
        Fail _ \<Rightarrow> (HttpError StatusInternalServerError, sv)
      | Panic \<Rightarrow> (Panicked, sv)
      | Ret survs \<Rightarrow>
          (case await_hangups w picks 0 survs sv of
             (Some rsp, sv1) \<Rightarrow> (rsp, sv1)
           | (None, sv1) \<Rightarrow>
               (case sv_Update (user_removal userID) sv1 of
                  (Fail _, sv2) \<Rightarrow> (HttpError StatusInternalServerError, sv2)
                | (Panic, sv2) \<Rightarrow> (Panicked, sv2)
                | (Ret _, sv2) \<Rightarrow> (OkEmpty, sv2))))"

definition rest_Profile_Delete :: "world \<Rightarrow> (nat \<Rightarrow> nat option) \<Rightarrow> handler" where
  "rest_Profile_Delete w picks r sv =
     (case mw_CtxGetUserID r of
        Ret userID \<Rightarrow> delete_user w picks userID sv
      | _ \<Rightarrow> (Panicked, sv))"

definition rest_Admin_DeleteUser :: "world \<Rightarrow> (nat \<Rightarrow> nat option) \<Rightarrow> handler" where
  "rest_Admin_DeleteUser w picks r sv =
     (let userID = ByName r ''user_id''
      in case sv_View (users_CheckUsersExist [userID]) sv of
           Fail e \<Rightarrow> (HttpError (if users_IsMissing e then StatusNotFound else StatusInternalServerError), sv)
         | Panic \<Rightarrow> (Panicked, sv)
         | Ret _ \<Rightarrow> delete_user w picks userID sv)"

section \<open>Notifications\<close>

definition rest_Notif_Connect :: "world \<Rightarrow> handler" where
  "rest_Notif_Connect w r sv =
     (case mw_CtxGetUserID r of
        Ret userID \<Rightarrow>
          (let bkts = [HangupBucket, ResponderBucket, userID]
           in case sv_Update (river_NewResponder (w_net w) bkts) sv of
                (Fail _, sv1) \<Rightarrow> (HttpError StatusInternalServerError, sv1)
              | (Panic, sv1) \<Rightarrow> (Panicked, sv1)
              | (Ret rsp, sv1) \<Rightarrow>
                  (case sv_Update (river_NewSub (w_net w) notif_River (notif_Topics userID)) sv1 of
                     (Fail e, sv2) \<Rightarrow>
                       (HttpError (if river_IsStreamMissing e then StatusNotFound else StatusInternalServerError), sv2)
                   | (Panic, sv2) \<Rightarrow> (Panicked, sv2)
                   | (Ret _, sv2) \<Rightarrow>
                       (let sv3 = sv2\<lparr>sv_db := w_session w (sv_db sv2)\<rparr>
                        in case sv_Update (river_DeleteResp (rsp_id rsp) bkts) sv3 of
                             (Fail _, sv4) \<Rightarrow> (HttpError StatusInternalServerError, sv4)
                           | (Panic, sv4) \<Rightarrow> (Panicked, sv4)
                           | (Ret _, sv4) \<Rightarrow> (WsServed, sv4))))
      | _ \<Rightarrow> (Panicked, sv))"

section \<open>Lemmas\<close>

text \<open>The account tables, as deleting a user needs them.\<close>

definition accounts_ok :: "string \<Rightarrow> db \<Rightarrow> bool" where
  "accounts_ok u s \<longleftrightarrow> wf_bucket s \<and> auth_tables s \<and> has_tbl UserBucket s \<and>
     (\<exists>t ol. holds_tbl enc_Context (\<lambda>_. True) ContextBucket t s \<and> contexts_keyed t \<and>
        table s LoginBucket u = map_option (\<lambda>l. Doc (enc_Login l)) ol)"

lemma Disable_keeps_users: "keeps (same_bkt UserBucket) (auth_Disable u)"
proof -
  have ne: "UserBucket \<noteq> LoginBucket" "UserBucket \<noteq> RefreshBucket" "UserBucket \<noteq> SessionBucket" "UserBucket \<noteq> ContextBucket"
    by (simp_all add: UserBucket_def auth_bucket_defs)
  have "same_bkt UserBucket s (snd (auth_disableLogin u s))" for s
  proof -
    obtain r s1 where m: "store_Unmarshal dec_Login LoginBucket zero_Login u s = (r, s1)" by force
    then have "s1 = s" using store_read_state by (metis snd_conv)
    then show ?thesis
      using same_Marshal [OF ne(1), unfolded keeps_def, rule_format] same.refl
      by (cases r) (auto simp: auth_disableLogin_def m)
  qed
  then have "keeps (same_bkt UserBucket) (auth_disableLogin u)" by (simp add: keeps_def)
  moreover have "keeps (same_bkt UserBucket) (auth_Find c u)" for c
    by (simp add: auth_Find_def keeps_def same_bkt_def)
  ultimately show ?thesis
    unfolding auth_Disable_def auth_DeleteRefresh_def auth_DeleteSessions_def auth_DeleteContexts_def
    by (intro same.keeps_bind same.keeps_Wrap ballI) (auto intro!: same.keeps_Wrap same_Delete simp: ne)
qed

text \<open>Nobody can act as \<open>u\<close> any more.\<close>

definition locked_out :: "string \<Rightarrow> db \<Rightarrow> bool" where
  "locked_out u s \<longleftrightarrow>
     fst (users_CheckUsersExist [u] s) = Fail (users_ErrMissing u) \<and>
     (\<forall>l. login_Name l = u \<longrightarrow> fst (auth_Check l s) \<noteq> Ret ()) \<and>
     (\<forall>k c. fst (auth_GetContext zero_Context k s) = Ret c \<longrightarrow> ctx_UserID c \<noteq> u)"

lemma user_removal_locks:
  assumes "accounts_ok u s" and "valid_key u"
  shows "\<exists>s'. user_removal u s = (Ret (), s') \<and> locked_out u s' \<and> auth_tables s' \<and> has_tbl UserBucket s'"
proof -
  obtain t ol where ok: "wf_bucket s" "auth_tables s" "has_tbl UserBucket s"
    and t: "holds_tbl enc_Context (\<lambda>_. True) ContextBucket t s" "contexts_keyed t"
    and ol: "table s LoginBucket u = map_option (\<lambda>l. Doc (enc_Login l)) ol"
    using assms(1) by (auto simp: accounts_ok_def)
  let ?s1 = "db_del UserBucket u s"
  have ne: "UserBucket \<noteq> ContextBucket" "UserBucket \<noteq> LoginBucket"
    by (simp_all add: UserBucket_def auth_bucket_defs)
  have s1: "wf_bucket ?s1" "auth_tables ?s1" "table ?s1 UserBucket u = None"
    "holds_tbl enc_Context (\<lambda>_. True) ContextBucket t ?s1" "table ?s1 LoginBucket u = map_option (\<lambda>l. Doc (enc_Login l)) ol"
    using ok t(1) ol ne by (auto simp: wf_db_del holds_tbl_def fun_eq_iff)
  obtain s' where run: "auth_Disable u ?s1 = (Ret (), s')" and tbl: "auth_tables s'"
    and login: "table s' LoginBucket =
      (table ?s1 LoginBucket)(u := map_option (\<lambda>l. Doc (enc_Login (l\<lparr>login_Disabled := True\<rparr>))) ol)"
    and ctx: "table s' ContextBucket = table ?s1 ContextBucket |` (- user_tokens t u)"
    by (rule auth_Disable_spec [OF s1(1,2) assms(2) s1(4) t(2) s1(5)])
  have "user_removal u s = (Ret (), s')"
    using ok(3) run by (simp add: user_removal_def users_Delete_def)
  moreover have same: "bkt_at [UserBucket] s' = bkt_at [UserBucket] ?s1"
    using keepsD [OF Disable_keeps_users run] by (simp add: same_bkt_def)
  moreover have "has_tbl UserBucket s'" using holds_same(2) [OF same] ok(3) by simp
  moreover have "locked_out u s'"
  proof -
    have has: "has_tbl LoginBucket s'" "has_tbl ContextBucket s'" using tbl by (simp_all add: auth_tables_def)
    from same have "fst (users_CheckUsersExist [u] s') = Fail (users_ErrMissing u)"
      using holds_same(2) [OF same] ok(3) s1(3) same_table [of UserBucket ?s1 s']
      by (simp add: users_CheckUsersExist_eq same_bkt_def del: bkt_at.simps)
    moreover have "fst (auth_Check l s') \<noteq> Ret ()" if "login_Name l = u" for l
      using that has(1) by (cases ol) (simp_all add: auth_Check_eq login)
    moreover have "ctx_UserID c \<noteq> u" if c: "fst (auth_GetContext zero_Context k s') = Ret c" for k c
    proof -
      obtain v where v: "table s' ContextBucket k = Some v" "json_Unmarshal dec_Context v zero_Context = Ret c"
        using c by (auto simp: auth_GetContext_eq [OF has(2)] split: option.splits)
      then have "k \<notin> user_tokens t u" "table ?s1 ContextBucket k = Some v"
        by (auto simp: ctx restrict_map_def split: if_splits)
      moreover then obtain c' where "t k = Some c'" "v = Doc (enc_Context c')"
        using s1(4) by (auto simp: holds_tbl_def)
      ultimately show ?thesis using v(2) by (auto simp: user_tokens_def)
    qed
    ultimately show ?thesis by (simp add: locked_out_def)
  qed
  ultimately show ?thesis using tbl by blast
qed

text \<open>Whatever is an invariant of the other handlers' commits is one of the wait.\<close>

lemma await_keeps:
  assumes "\<And>bks s. P s \<Longrightarrow> P (w_env w bks s)"
  shows "P (sv_db sv) \<Longrightarrow> P (sv_db (snd (await_hangups w picks k pend sv))) \<and>
    fst (await_hangups w picks k pend sv) \<noteq> Some OkEmpty"
proof (induction "length pend" arbitrary: k pend sv rule: less_induct)
  case less
  show ?case
  proof (cases "pend = [] \<or> picks k = None")
    case True
    then show ?thesis using less.prems by (auto simp: await_hangups.simps [of w picks k] split: option.splits)
  next
    case False
    then obtain n where n: "pend \<noteq> []" "picks k = Some n" by auto
    let ?j = "n mod length pend"
    obtain surv bks where at: "pend ! ?j = (surv, bks)" by force
    define sv1 where "sv1 = sv\<lparr>sv_db := w_env w bks (sv_db sv)\<rparr>"
    have P1: "P (sv_db sv1)" using assms less.prems by (simp add: sv1_def)
    note IH = less.hyps [OF one_taken [OF n(1)] P1]
    show ?thesis
      using P1 IH n unfolding await_hangups.simps [of w picks k pend sv]
      by (auto simp: Let_def at hup_survey_def sv1_def [symmetric] split: go.splits)
  qed
qed

text \<open>When every survey is answered in time, the wait ends well.\<close>

definition answered :: "world \<Rightarrow> surveyor \<times> bytes list \<Rightarrow> bool" where
  "answered w p \<longleftrightarrow> river_MakeSurvey (w_send w (snd p)) (w_recv w (snd p)) (fst p) HUP OK = Ret ()"

lemma await_answered:
  assumes "\<And>k. picks k \<noteq> None"
  shows "\<forall>p \<in> set pend. answered w p \<Longrightarrow> fst (await_hangups w picks k pend sv) = None"
proof (induction "length pend" arbitrary: k pend sv rule: less_induct)
  case less
  obtain n where n: "picks k = Some n" using assms by auto
  show ?case
  proof (cases "pend = []")
    case False
    let ?j = "n mod length pend"
    have "pend ! ?j \<in> set pend" using False by simp
    then have "answered w (pend ! ?j)" using less.prems by blast
    moreover have "\<forall>p \<in> set (take ?j pend @ drop (Suc ?j) pend). answered w p"
      using less.prems by (auto dest: in_set_takeD in_set_dropD)
    note IH = less.hyps [OF one_taken [OF False] this]
    ultimately show ?thesis
      using IH False n by (subst await_hangups.simps) (auto simp: Let_def hup_survey_def answered_def split: prod.splits)
  qed (simp add: await_hangups.simps)
qed

lemma delete_user_spec:
  assumes u: "valid_key u" and ok: "accounts_ok u (sv_db sv)" and env: "\<And>bks s. accounts_ok u s \<Longrightarrow> accounts_ok u (w_env w bks s)"
  shows "delete_user w picks u sv = (OkEmpty, sv') \<Longrightarrow> locked_out u (sv_db sv')"
    and "sv_View (user_surveys (w_net w) u) sv = Ret survs \<Longrightarrow> \<forall>p \<in> set survs. answered w p \<Longrightarrow> (\<And>k. picks k \<noteq> None) \<Longrightarrow>
      \<exists>sv'. delete_user w picks u sv = (OkEmpty, sv')"
proof -
  have rem: "\<exists>s'. user_removal u (sv_db sv1) = (Ret (), s') \<and> locked_out u s'"
    if "await_hangups w picks 0 survs sv = (r, sv1)" for survs r sv1
  proof -
    have "accounts_ok u (sv_db sv1)" using await_keeps [where P = "accounts_ok u" and w = w, OF env, of sv picks 0 survs] ok that by simp
    then show ?thesis using user_removal_locks u by blast
  qed
  show "locked_out u (sv_db sv')" if del: "delete_user w picks u sv = (OkEmpty, sv')"
  proof -
    obtain survs sv1 where wait: "await_hangups w picks 0 survs sv = (None, sv1)"
      and upd: "sv_Update (user_removal u) sv1 = (Ret (), sv')"
    proof -
      obtain survs r sv1 where r: "sv_View (user_surveys (w_net w) u) sv = Ret survs" "await_hangups w picks 0 survs sv = (r, sv1)"
        using del by (cases "sv_View (user_surveys (w_net w) u) sv"; force simp: delete_user_def)
      then have "r \<noteq> Some OkEmpty"
        using await_keeps [where P = "\<lambda>_. True" and w = w and sv = sv and picks = picks and k = 0 and pend = survs] by simp
      then show thesis using that r del
        by (auto simp: delete_user_def split: option.splits prod.splits go.splits)
    qed
    show ?thesis using rem [OF wait] upd by (auto simp: sv_Update_Ret)
  qed
  show "\<exists>sv'. delete_user w picks u sv = (OkEmpty, sv')"
    if survs: "sv_View (user_surveys (w_net w) u) sv = Ret survs" and ans: "\<forall>p \<in> set survs. answered w p"
      and picks: "\<And>k. picks k \<noteq> None"
  proof -
    obtain sv1 where wait: "await_hangups w picks 0 survs sv = (None, sv1)"
      using await_answered [where picks = picks and k = 0 and sv = sv, OF picks ans] by (cases "await_hangups w picks 0 survs sv") simp
    then show ?thesis using rem [OF wait] survs by (auto simp: delete_user_def sv_Update_Ret)
  qed
qed

section \<open>Properties\<close>

text \<open>
  C9 (DeleteUser_ends_access).  Deleting a user, by the user or by an admin: when the request
  succeeds, the user is gone, no password of the user is accepted any more, and no session
  names the user.  It does succeed when every connection of the user answers its survey in
  time, in whatever order the answers come in.
\<close>

theorem DeleteUser_ends_access:
  assumes "valid_key u" and "accounts_ok u (sv_db sv)"
    and "\<And>bks s. accounts_ok u s \<Longrightarrow> accounts_ok u (w_env w bks s)"
    and "mw_CtxGetUserID r = Ret u" and "ByName q ''user_id'' = u" and "users_exist (sv_db sv) [u]"
    and "h = rest_Profile_Delete w picks r \<or> h = rest_Admin_DeleteUser w picks q"
  shows "(\<forall>sv'. h sv = (OkEmpty, sv') \<longrightarrow> locked_out u (sv_db sv')) \<and>
    (\<forall>survs. sv_View (user_surveys (w_net w) u) sv = Ret survs \<and> (\<forall>p \<in> set survs. answered w p) \<and> (\<forall>k. picks k \<noteq> None) \<longrightarrow>
       (\<exists>sv'. h sv = (OkEmpty, sv')))"
proof -
  have "h sv = delete_user w picks u sv"
    using assms(4,5,7) CheckUsersExist_ok [OF assms(6)]
    by (auto simp: rest_Profile_Delete_def rest_Admin_DeleteUser_def sv_View_eq)
  then show ?thesis using delete_user_spec [OF assms(1-3)] by auto
qed

definition demo_accounts :: db where
  "demo_accounts =
     db_put LoginBucket ''ann'' (Doc (enc_Login demo_login))
       (db_put UserBucket ''ann'' (Doc (enc_User \<lparr>user_Name = ''ann'', user_Coin = 0\<rparr>))
         (db_of [ContextBucket, ConvoBucket, LoginBucket, RefreshBucket, RiverBucket, SessionBucket, StreamBucket, UserBucket]))"

lemma demo_accounts_ok: "accounts_ok ''ann'' demo_accounts" "users_exist demo_accounts [''ann'']"
  "streams_in StreamBucket Map.empty demo_accounts" "streams_in ConvoBucket Map.empty demo_accounts"
  "bkt_at [RiverBucket] demo_accounts = Some empty_bucket"
proof -
  have ne: "LoginBucket \<noteq> UserBucket" "LoginBucket \<noteq> ContextBucket" "UserBucket \<noteq> ContextBucket"
    "RiverBucket \<noteq> UserBucket" "RiverBucket \<noteq> LoginBucket" "StreamBucket \<noteq> UserBucket" "StreamBucket \<noteq> LoginBucket"
    "ConvoBucket \<noteq> UserBucket" "ConvoBucket \<noteq> LoginBucket"
    by (simp_all add: UserBucket_def auth_bucket_defs RiverBucket_def StreamBucket_def ConvoBucket_def)
  have wf: "wf_bucket demo_accounts"
    unfolding demo_accounts_def
    by (intro wf_db_put wf_db_of)
      (simp add: auth_bucket_defs ConvoBucket_def RiverBucket_def StreamBucket_def UserBucket_def less_char_def)
  have tabs: "table demo_accounts ContextBucket = Map.empty" "table demo_accounts LoginBucket ''ann'' = Some (Doc (enc_Login demo_login))"
    "table demo_accounts StreamBucket = Map.empty" "table demo_accounts ConvoBucket = Map.empty"
    "table demo_accounts UserBucket ''ann'' \<noteq> None"
    "\<And>b. has_tbl b demo_accounts \<longleftrightarrow> b \<in> {ContextBucket, ConvoBucket, LoginBucket, RefreshBucket, RiverBucket, SessionBucket, StreamBucket, UserBucket}"
    using ne by (auto simp: demo_accounts_def fun_eq_iff)
  have "table demo_accounts LoginBucket ''ann'' = map_option (\<lambda>l. Doc (enc_Login l)) (Some demo_login)" using tabs by simp
  moreover have "holds_tbl enc_Context (\<lambda>_. True) ContextBucket Map.empty demo_accounts" "contexts_keyed Map.empty"
    using tabs by (simp_all add: holds_tbl_def contexts_keyed_def fun_eq_iff)
  ultimately show "accounts_ok ''ann'' demo_accounts"
    using wf tabs unfolding accounts_ok_def auth_tables_def by blast
  show "users_exist demo_accounts [''ann'']" using tabs by (simp add: users_exist_def)
  show "streams_in StreamBucket Map.empty demo_accounts" "streams_in ConvoBucket Map.empty demo_accounts"
    using tabs by (simp_all add: holds_tbl_def fun_eq_iff)
  show "bkt_at [RiverBucket] demo_accounts = Some empty_bucket"
    using ne by (simp add: demo_accounts_def bkt_at_db_put del: bkt_at.simps) (simp add: ent_db_of)
qed

lemma demo_accounts_surveys: "user_surveys net ''ann'' demo_accounts = (Ret [], demo_accounts)"
proof -
  have wf: "wf_bucket demo_accounts" using demo_accounts_ok(1) by (simp add: accounts_ok_def)
  have "convo_GetAll ''ann'' [] demo_accounts = (Ret [], demo_accounts)" "stream_GetAll ''ann'' [] demo_accounts = (Ret [], demo_accounts)"
    using convos.GetAll_eq [OF wf demo_accounts_ok(4), of "''ann''" "[]"] streams.GetAll_eq [OF wf demo_accounts_ok(3), of "''ann''" "[]"]
    by auto
  moreover have "bkt_at [RiverBucket, HangupBucket, ResponderBucket, ''ann''] demo_accounts = None"
    using bkt_at_append [of "[RiverBucket]" "[HangupBucket, ResponderBucket, ''ann'']" demo_accounts]
    by (simp add: demo_accounts_ok(5) del: bkt_at.simps) simp
  then obtain k where "river_NewSurvey net [HangupBucket, ResponderBucket, ''ann''] demo_accounts = (Fail (river_errStreamMissing k), demo_accounts)"
    using NewSurvey_missing [of demo_accounts "[HangupBucket, ResponderBucket, ''ann'']" net] demo_accounts_ok(5)
    by (auto simp del: bkt_at.simps)
  ultimately show ?thesis by (simp add: user_surveys_def db_bind_def db_return_def)
qed

theorem DeleteUser_ends_access_witness:
  "\<exists>sv'. rest_Profile_Delete demo_world (\<lambda>_. Some 0) (demo_post\<lparr>rq_ctx := [CtxUserID \<mapsto> ''ann'']\<rparr>) \<lparr>sv_db = demo_accounts, sv_out = []\<rparr>
      = (OkEmpty, sv') \<and> locked_out ''ann'' (sv_db sv')"
proof -
  let ?r = "demo_post\<lparr>rq_ctx := [CtxUserID \<mapsto> ''ann'']\<rparr>" and ?sv = "\<lparr>sv_db = demo_accounts, sv_out = []\<rparr>"
  have "(\<forall>sv'. rest_Profile_Delete demo_world (\<lambda>_. Some 0) ?r ?sv = (OkEmpty, sv') \<longrightarrow> locked_out ''ann'' (sv_db sv')) \<and>
    (\<forall>survs. sv_View (user_surveys (w_net demo_world) ''ann'') ?sv = Ret survs \<and> (\<forall>p \<in> set survs. answered demo_world p) \<and>
        (\<forall>k :: nat. Some (0 :: nat) \<noteq> None) \<longrightarrow> (\<exists>sv'. rest_Profile_Delete demo_world (\<lambda>_. Some 0) ?r ?sv = (OkEmpty, sv')))"
    by (rule DeleteUser_ends_access [where h = "rest_Profile_Delete demo_world (\<lambda>_. Some 0) ?r" and r = ?r
          and picks = "\<lambda>_. Some 0" and q = "demo_post\<lparr>rq_params := [(''user_id'', ''ann'')]\<rparr>"])
      (simp_all add: demo_accounts_ok demo_world_def demo_post_def mw_CtxGetUserID_def go_assert_def ByName_def)
  then show ?thesis by (auto simp: sv_View_eq demo_accounts_surveys)
qed

end
