(* ===== verification/Tasks.thy ===== *)
theory Tasks
  imports Users Go_Uuid
begin

text \<open>
  Packages \<^verbatim>\<open>text\<close> and \<^verbatim>\<open>task\<close>: texts stored under the hash of their contents
  (\<^verbatim>\<open>text/text.go\<close>), and tasks with a bounty whose notes live in the text bucket
  (\<^verbatim>\<open>task/task.go\<close>), their filters (\<^verbatim>\<open>task/filter.go\<close>) and their order (\<^verbatim>\<open>task/sort.go\<close>).
\<close>

section \<open>Texts\<close>

definition TextBucket :: bytes where
  "TextBucket = ''text''"

definition text_MakeID :: "uuid \<Rightarrow> string \<Rightarrow> uuid" where
  "text_MakeID i from = store_HashWith i from"

definition text_Store :: "uuid \<Rightarrow> string \<Rightarrow> unit dbop" where
  "text_Store i what = store_Marshal JStr TextBucket what i"

definition text_Load :: "uuid \<Rightarrow> string \<Rightarrow> string dbop" where
  "text_Load i into = store_Unmarshal (\<lambda>j d. dec_str (Some j) d) TextBucket into i"

definition text_Delete :: "uuid \<Rightarrow> unit dbop" where
  "text_Delete i = on_bkt [TextBucket] (Bucket_Delete i)"

section \<open>Tasks\<close>

definition TaskBucket :: bytes where
  "TaskBucket = ''tasks''"

record Task =
  task_Group :: Group
  task_ID :: uuid
  task_Name :: string
  task_Bounty :: int64
  task_Completed :: bool
  task_CompletedBy :: string
  task_CompletedAt :: "gtime option"
  task_Due :: "gtime option"
  task_Resources :: "uuid list"
  task_Notes :: "string list"

definition zero_Task :: Task where
  "zero_Task = \<lparr>task_Group = zero_Group, task_ID = replicate 16 CHR 0x00, task_Name = [], task_Bounty = 0,
                task_Completed = False, task_CompletedBy = [], task_CompletedAt = None, task_Due = None,
                task_Resources = [], task_Notes = []\<rparr>"

definition enc_time_ptr :: "gtime option \<Rightarrow> json" where
  "enc_time_ptr t = (case t of None \<Rightarrow> JNull | Some x \<Rightarrow> JTime x)"

text \<open>\<^verbatim>\<open>ID.UnmarshalJSON\<close>: unlike a plain UUID it is called for \<^verbatim>\<open>null\<close> too, and then parses the
  empty string, which fails.\<close>

fun dec_ID :: "json option \<Rightarrow> uuid \<Rightarrow> uuid option" where
  "dec_ID None d = Some d"
| "dec_ID (Some (JUUID u)) d = Some u"
| "dec_ID (Some _) d = None"

definition enc_Task :: "Task \<Rightarrow> json" where
  "enc_Task t =
     JObj (enc_Group (task_Group t)
       @ (''id'', JUUID (task_ID t)) # (''name'', JStr (task_Name t))
       # omitempty (task_Bounty t = 0) ''bounty'' (JNum (sint (task_Bounty t)))
       @ (''completed'', JBool (task_Completed t))
       # omitempty (task_CompletedBy t = []) ''completedBy'' (JStr (task_CompletedBy t))
       @ omitempty (task_CompletedAt t = None) ''completedAt'' (enc_time_ptr (task_CompletedAt t))
       @ omitempty (task_Due t = None) ''due'' (enc_time_ptr (task_Due t))
       @ omitempty (task_Resources t = []) ''resources'' (JArr (map JBytes (task_Resources t)))
       @ omitempty (task_Notes t = []) ''notes'' (JArr (map JStr (task_Notes t))))"

definition dec_Task :: "json \<Rightarrow> Task \<Rightarrow> Task option" where
  "dec_Task j t =
     (if is_obj j then do {
        g \<leftarrow> dec_Group j (task_Group t);
        i \<leftarrow> dec_ID (jfield ''id'' j) (task_ID t);
        n \<leftarrow> dec_str (jfield ''name'' j) (task_Name t);
        b \<leftarrow> dec_int64 (jfield ''bounty'' j) (task_Bounty t);
        c \<leftarrow> dec_bool (jfield ''completed'' j) (task_Completed t);
        cb \<leftarrow> dec_str (jfield ''completedBy'' j) (task_CompletedBy t);
        ca \<leftarrow> dec_time_ptr (jfield ''completedAt'' j) (task_CompletedAt t);
        d \<leftarrow> dec_time_ptr (jfield ''due'' j) (task_Due t);
        rs \<leftarrow> dec_slice bytes_of (jfield ''resources'' j) (task_Resources t);
        ns \<leftarrow> dec_slice text_of (jfield ''notes'' j) (task_Notes t);
        Some \<lparr>task_Group = g, task_ID = i, task_Name = n, task_Bounty = b, task_Completed = c,
              task_CompletedBy = cb, task_CompletedAt = ca, task_Due = d, task_Resources = rs, task_Notes = ns\<rparr>
      } else None)"

section \<open>Filters and order\<close>

datatype task_Filter =
    task_Completion int64
  | task_Overdue gtime
  | task_NotYetDue gtime
  | task_DueWithin gtime gtime
  | task_Not task_Filter
  | task_ByOwner string
  | task_ByReader string
  | task_ByWriter string
  | task_MultiAnd "task_Filter list"
  | task_MultiOr "task_Filter list"

definition Incomplete :: int64 where "Incomplete = 0"
definition Complete :: int64 where "Complete = 1"

text \<open>\<^verbatim>\<open>Not\<close> does not negate.\<close>

fun task_Member :: "task_Filter \<Rightarrow> Task \<Rightarrow> bool" where
  "task_Member (task_Completion c) tsk =
     (if c = Incomplete then \<not> task_Completed tsk else if c = Complete then task_Completed tsk else False)"
| "task_Member (task_Overdue ov) tsk =
     (case task_Due tsk of None \<Rightarrow> False | Some d \<Rightarrow> \<not> task_Completed tsk \<and> t_ns d < t_ns ov)"
| "task_Member (task_NotYetDue n) tsk = (case task_Due tsk of None \<Rightarrow> True | Some d \<Rightarrow> t_ns n < t_ns d)"
| "task_Member (task_DueWithin from til) tsk =
     (case task_Due tsk of None \<Rightarrow> False | Some d \<Rightarrow> t_ns from < t_ns d \<and> t_ns d < t_ns til)"
| "task_Member (task_Not f) tsk = task_Member f tsk"
| "task_Member (task_ByOwner b) tsk = users_Member (users_ByOwner b) (task_Group tsk)"
| "task_Member (task_ByReader b) tsk = users_Member (users_ByReader b) (task_Group tsk)"
| "task_Member (task_ByWriter b) tsk = users_Member (users_ByWriter b) (task_Group tsk)"
| "task_Member (task_MultiAnd fs) tsk = list_all (\<lambda>f. task_Member f tsk) fs"
| "task_Member (task_MultiOr fs) tsk = list_ex (\<lambda>f. task_Member f tsk) fs"

definition task_Less :: "Task \<Rightarrow> Task \<Rightarrow> bool" where
  "task_Less a b =
     (case (task_Due a, task_Due b) of
        (None, None) \<Rightarrow> False
      | (None, Some _) \<Rightarrow> False
      | (Some _, None) \<Rightarrow> True
      | (Some x, Some y) \<Rightarrow> t_ns x < t_ns y)"

section \<open>Storing tasks\<close>

text \<open>
  \<^verbatim>\<open>StoreResources\<close> sets the task's resources when it is called and returns the function that
  writes the texts.
\<close>

definition task_StoreResources :: "Task \<Rightarrow> uuid \<Rightarrow> string list \<Rightarrow> uuid list \<Rightarrow> Task \<times> unit dbop" where
  "task_StoreResources t hasher what old =
     (let hashed = map (\<lambda>note. (text_MakeID hasher note, note)) what;
          storers = filter (\<lambda>p. fst p \<notin> set old) hashed;
          toDelete = filter (\<lambda>p. fst p \<in> set old) hashed
      in (t\<lparr>task_Resources := map fst storers\<rparr>,
          store_Wrap [store_StoreAll (map (\<lambda>p. text_Store (fst p)) storers) (map snd storers),
                      store_DeleteAll (map (\<lambda>p. text_Delete (fst p)) toDelete)]))"

definition task_DeleteResources :: "uuid list \<Rightarrow> unit dbop" where
  "task_DeleteResources rs = store_DeleteAll (map text_Delete rs)"

text \<open>
  \<^verbatim>\<open>Store\<close> and \<^verbatim>\<open>Delete\<close> build their list of functions before any of them runs, so the
  resources they pass on are those of the new, empty task variable.
\<close>

definition task_Store :: "uuid \<Rightarrow> Task \<Rightarrow> Task dbop" where
  "task_Store i tsk =
     (let notes = task_Notes tsk;
          tsk1 = tsk\<lparr>task_ID := i, task_Notes := []\<rparr>;
          old = zero_Task;
          (tsk2, storeRes) = task_StoreResources tsk1 i notes (task_Resources old)
      in db_bind
           (store_Wrap
              [store_OrMissing () (db_bind (store_Unmarshal dec_Task TaskBucket old i) (\<lambda>_. db_return ())),
               storeRes,
               store_Marshal enc_Task TaskBucket tsk2 i])
           (\<lambda>_. db_return tsk2))"

definition task_Load :: "uuid \<Rightarrow> Task \<Rightarrow> Task dbop" where
  "task_Load i tsk =
     db_bind (store_Unmarshal dec_Task TaskBucket tsk i) (\<lambda>t.
       if length (task_Resources t) = 0 then db_return t
       else db_bind (store_LoadAll (map text_Load (task_Resources t)) (replicate (length (task_Resources t)) []))
              (\<lambda>notes. db_return (t\<lparr>task_Notes := notes, task_Resources := []\<rparr>)))"

definition task_Delete :: "uuid \<Rightarrow> unit dbop" where
  "task_Delete i =
     (let tsk = zero_Task
      in store_Wrap
           [store_OrMissing () (db_bind (store_Unmarshal dec_Task TaskBucket tsk i) (\<lambda>_. db_return ())),
            task_DeleteResources (task_Resources tsk),
            store_Delete TaskBucket i])"

section \<open>All tasks of a user\<close>

definition task_defaultFilter :: "string \<Rightarrow> task_Filter" where
  "task_defaultFilter user = task_MultiOr [task_ByOwner user, task_ByReader user, task_ByWriter user]"

definition task_GetAll_step ::
    "string \<Rightarrow> task_Filter list \<Rightarrow> db \<Rightarrow> bytes \<times> val option \<Rightarrow> Task list \<Rightarrow> Task list go" where
  "task_GetAll_step user filters s kv result =
     go_bind (json_Unmarshal_item dec_Task (snd kv) zero_Task) (\<lambda>next.
       if \<not> task_Member (task_defaultFilter user) next then Ret result
       else if \<not> task_Member (task_MultiAnd filters) next then Ret result
       else go_bind (fst (task_Load (task_ID next) next s)) (\<lambda>next'. Ret (result @ [next'])))"

definition task_GetAll :: "string \<Rightarrow> task_Filter list \<Rightarrow> Task list dbop" where
  "task_GetAll user filters s =
     rd_bkt [TaskBucket] (\<lambda>B. go_foreach (task_GetAll_step user filters s) (Bucket_items B) []) s"

section \<open>Lemmas\<close>

definition task_ok :: "Task \<Rightarrow> bool" where
  "task_ok t \<longleftrightarrow> group_ok (task_Group t)"

lemma dec_slice_enc [simp]:
  "dec_slice bytes_of (Some (JArr (map JBytes rs))) d = Some rs"
  "dec_slice text_of (Some (JArr (map JStr ns))) d = Some ns"
  by simp_all

lemma dec_omitted_time [simp]:
  "dec_time_ptr (if t = None then None else Some (enc_time_ptr t)) None = Some t"
  by (cases t) (simp_all add: enc_time_ptr_def)

lemma dec_omitted_slice [simp]:
  "dec_slice bytes_of (if rs = [] then None else Some (JArr (map JBytes rs))) [] = Some rs"
  "dec_slice text_of (if ns = [] then None else Some (JArr (map JStr ns))) [] = Some ns"
  by simp_all

lemma jfield_enc_Task:
  "jfield ''owner'' (enc_Task t) = Some (JStr (g_Owner (task_Group t)))"
  "jfield ''readers'' (enc_Task t) = Some (enc_smap (g_Readers (task_Group t)))"
  "jfield ''writers'' (enc_Task t) = Some (enc_smap (g_Writers (task_Group t)))"
  "jfield ''id'' (enc_Task t) = Some (JUUID (task_ID t))"
  "jfield ''name'' (enc_Task t) = Some (JStr (task_Name t))"
  "jfield ''bounty'' (enc_Task t) = (if task_Bounty t = 0 then None else Some (JNum (sint (task_Bounty t))))"
  "jfield ''completed'' (enc_Task t) = Some (JBool (task_Completed t))"
  "jfield ''completedBy'' (enc_Task t) = (if task_CompletedBy t = [] then None else Some (JStr (task_CompletedBy t)))"
  "jfield ''completedAt'' (enc_Task t) = (if task_CompletedAt t = None then None else Some (enc_time_ptr (task_CompletedAt t)))"
  "jfield ''due'' (enc_Task t) = (if task_Due t = None then None else Some (enc_time_ptr (task_Due t)))"
  "jfield ''resources'' (enc_Task t) = (if task_Resources t = [] then None else Some (JArr (map JBytes (task_Resources t))))"
  "jfield ''notes'' (enc_Task t) = (if task_Notes t = [] then None else Some (JArr (map JStr (task_Notes t))))"
  by (simp_all add: enc_Task_def enc_Group_def)

lemma dec_enc_Task: "task_ok t \<Longrightarrow> dec_Task (enc_Task t) zero_Task = Some t"
proof -
  assume "task_ok t"
  moreover have "is_obj (enc_Task t)" by (simp add: enc_Task_def)
  ultimately show ?thesis
    by (simp add: dec_Task_def dec_Group_def jfield_enc_Task zero_Task_def zero_Group_def task_ok_def group_ok_def
        del: dec_int64.simps dec_time_ptr.simps dec_slice.simps dec_smap.simps)
qed

interpretation task_codec: json_codec enc_Task dec_Task zero_Task task_ok
  by unfold_locales (rule dec_enc_Task)

interpretation text_codec: json_codec JStr "\<lambda>j d. dec_str (Some j) d" "[]" "\<lambda>_. True"
  by unfold_locales simp

lemma task_buckets_distinct [simp]: "TextBucket \<noteq> TaskBucket" "TaskBucket \<noteq> TextBucket"
  by (simp_all add: TextBucket_def TaskBucket_def)

definition task_tables :: "db \<Rightarrow> bool" where
  "task_tables s \<longleftrightarrow> has_tbl TextBucket s \<and> has_tbl TaskBucket s"

definition uuid_ok :: "uuid \<Rightarrow> bool" where
  "uuid_ok u \<longleftrightarrow> length u = 16"

lemma uuid_valid_key [simp]: "uuid_ok u \<Longrightarrow> valid_key u"
  by (auto simp: uuid_ok_def valid_key_def MaxKeySize_def)

lemma uuid_ok_MakeID [simp]: "uuid_ok (text_MakeID i n)"
  by (simp add: text_MakeID_def uuid_ok_def)

text \<open>What is stored under a task's ID can be read as a task, if there is anything.\<close>

definition task_readable :: "db \<Rightarrow> uuid \<Rightarrow> bool" where
  "task_readable s i \<longleftrightarrow>
     (case table s TaskBucket i of None \<Rightarrow> True
      | Some v \<Rightarrow> (case json_Unmarshal dec_Task v zero_Task of Ret _ \<Rightarrow> True | _ \<Rightarrow> False))"

lemma task_readable_ok: "task_ok t \<Longrightarrow> table s TaskBucket i = Some (Doc (enc_Task t)) \<Longrightarrow> task_readable s i"
  by (simp add: task_readable_def dec_enc_Task)

lemma read_old:
  "has_tbl TaskBucket s \<Longrightarrow> task_readable s i \<Longrightarrow>
   store_OrMissing () (db_bind (store_Unmarshal dec_Task TaskBucket zero_Task i) (\<lambda>_. db_return ())) s = (Ret (), s)"
  by (auto simp: store_OrMissing_def db_catch_def db_bind_def db_return_def store_Unmarshal_eq task_readable_def
      split: option.splits go.splits)

definition text_kvs :: "uuid \<Rightarrow> string list \<Rightarrow> (bytes \<times> val) list" where
  "text_kvs i ns = map (\<lambda>n. (text_MakeID i n, Doc (JStr n))) ns"

definition put_texts :: "uuid \<Rightarrow> string list \<Rightarrow> db \<Rightarrow> db" where
  "put_texts i ns s = fold (\<lambda>p. db_put TextBucket (fst p) (snd p)) (text_kvs i ns) s"

lemma has_tbl_put_texts [simp]: "has_tbl TextBucket s \<Longrightarrow> has_tbl b (put_texts i ns s) = has_tbl b s"
  by (simp add: put_texts_def bolt.ok_fold_put)

lemma table_put_texts:
  "has_tbl TextBucket s \<Longrightarrow>
   table (put_texts i ns s) = (table s)(TextBucket := table s TextBucket ++ map_of (rev (text_kvs i ns)))"
  by (simp only: put_texts_def bolt.view_fold_put)

lemma StoreResources_run:
  assumes "has_tbl TextBucket s"
  shows "fst (task_StoreResources t i ns []) = t\<lparr>task_Resources := map (text_MakeID i) ns\<rparr>"
    and "snd (task_StoreResources t i ns []) s = (Ret (), put_texts i ns s)"
proof -
  have "map2 (\<lambda>st w. st w) (map (\<lambda>p. text_Store (fst p)) ps) (map snd ps) = map (\<lambda>p. text_Store (fst p) (snd p)) ps" for ps
    by (induction ps) auto
  then have all: "store_StoreAll (map (\<lambda>p. text_Store (fst p)) ps) (map snd ps) s = store_Wrap (map (\<lambda>p. text_Store (fst p) (snd p)) ps) s" for ps
    by (simp add: store_StoreAll_def)
  have put: "map (\<lambda>p. text_Store (fst p) (snd p)) (map (\<lambda>n. (text_MakeID i n, n)) ns)
      = map (\<lambda>p. store_Put TextBucket (fst p) (snd p)) (text_kvs i ns)"
    by (simp add: text_kvs_def text_Store_def store_Marshal_def fun_eq_iff)
  have keys: "list_all (\<lambda>p. valid_key (fst p)) (text_kvs i ns)"
    by (simp add: text_kvs_def list_all_iff)
  show "fst (task_StoreResources t i ns []) = t\<lparr>task_Resources := map (text_MakeID i) ns\<rparr>"
    by (simp add: task_StoreResources_def Let_def comp_def)
  show "snd (task_StoreResources t i ns []) s = (Ret (), put_texts i ns s)"
    using store_Wrap_Puts [OF assms keys]
    by (simp add: task_StoreResources_def Let_def store_DeleteAll_def all put put_texts_def del: map_map)
qed

text \<open>The task as it is written: the notes have become resources.\<close>

definition stored_form :: "uuid \<Rightarrow> Task \<Rightarrow> Task" where
  "stored_form i t = t\<lparr>task_ID := i, task_Notes := [], task_Resources := map (text_MakeID i) (task_Notes t)\<rparr>"

lemma stored_form_ok [simp]: "task_ok (stored_form i t) = task_ok t"
  by (simp add: stored_form_def task_ok_def)

lemma task_Store_eq:
  assumes "task_tables s" and "uuid_ok i" and "task_readable s i"
  shows "task_Store i t s =
    (Ret (stored_form i t),
     db_put TaskBucket i (Doc (enc_Task (stored_form i t))) (put_texts i (task_Notes t) s))"
proof -
  have hx: "has_tbl TextBucket s" and ht: "has_tbl TaskBucket s"
    using assms(1) by (simp_all add: task_tables_def)
  obtain t2 op where res: "task_StoreResources (t\<lparr>task_ID := i, task_Notes := []\<rparr>) i (task_Notes t) [] = (t2, op)"
    by (cases "task_StoreResources (t\<lparr>task_ID := i, task_Notes := []\<rparr>) i (task_Notes t) []")
  have "t2 = stored_form i t" "op s = (Ret (), put_texts i (task_Notes t) s)"
    using StoreResources_run [OF hx, of "t\<lparr>task_ID := i, task_Notes := []\<rparr>" i "task_Notes t"] res
    by (simp_all add: stored_form_def)
  moreover have "task_Resources zero_Task = []" by (simp add: zero_Task_def)
  ultimately show ?thesis
    using hx ht read_old [OF ht assms(3)] assms(2)
    by (simp add: task_Store_def Let_def res db_bind_def db_return_def)
qed

text \<open>Reading texts back.\<close>

lemma load_texts:
  assumes "has_tbl TextBucket s"
    and "\<And>n. n \<in> set ns \<Longrightarrow> table s TextBucket (text_MakeID i n) = Some (Doc (JStr n))"
  shows "store_LoadAll (map text_Load (map (text_MakeID i) ns)) (replicate (length ns) []) s = (Ret ns, s)"
proof -
  have "load_each (map text_Load (map (text_MakeID i) ns)) (replicate (length ns) []) s = (Ret ns, s)"
    using assms(2)
  proof (induction ns)
    case (Cons n ns)
    then show ?case
      using assms(1) by (simp add: db_bind_def db_return_def text_Load_def store_Unmarshal_eq)
  qed simp
  then show ?thesis by (simp add: store_LoadAll_def)
qed

lemma task_Load_eq:
  assumes "task_tables s" and "task_ok t" and "table s TaskBucket i = Some (Doc (enc_Task (stored_form i t)))"
    and "\<And>n. n \<in> set (task_Notes t) \<Longrightarrow> table s TextBucket (text_MakeID i n) = Some (Doc (JStr n))"
  shows "task_Load i zero_Task s = (Ret (t\<lparr>task_ID := i, task_Resources := []\<rparr>), s)"
proof -
  have hx: "has_tbl TextBucket s" and ht: "has_tbl TaskBucket s"
    using assms(1) by (simp_all add: task_tables_def)
  have un: "store_Unmarshal dec_Task TaskBucket zero_Task i s = (Ret (stored_form i t), s)"
    using ht assms(2,3) by (simp add: store_Unmarshal_eq dec_enc_Task)
  show ?thesis
    using load_texts [OF hx assms(4)]
    by (auto simp: task_Load_def db_bind_def un db_return_def stored_form_def)
qed

text \<open>Texts with different hashes are all still there after the last one is written.\<close>

lemma text_kvs_lookup:
  "inj_on (text_MakeID i) (set ns) \<Longrightarrow> n \<in> set ns \<Longrightarrow>
   map_of (rev (text_kvs i ns)) (text_MakeID i n) = Some (Doc (JStr n))"
proof (induction ns rule: rev_induct)
  case (snoc m ns)
  then show ?case
    by (auto simp: text_kvs_def inj_on_def)
qed simp

text \<open>\<^verbatim>\<open>Delete\<close> removes the task and no text.\<close>

lemma task_Delete_eq:
  assumes "task_tables s" and "task_readable s i"
  shows "task_Delete i s = (Ret (), db_del TaskBucket i s)"
proof -
  have ht: "has_tbl TaskBucket s" using assms(1) by (simp add: task_tables_def)
  have "task_Resources zero_Task = []" by (simp add: zero_Task_def)
  then show ?thesis
    using ht read_old [OF ht assms(2)]
    by (simp add: task_Delete_def Let_def task_DeleteResources_def store_DeleteAll_def)
qed

section \<open>Properties\<close>

definition demo_tasks :: db where
  "demo_tasks = db_of [TaskBucket, TextBucket]"

definition demo_id :: uuid where
  "demo_id = replicate 16 CHR ''i''"

definition demo_task :: Task where
  "demo_task = zero_Task\<lparr>task_Name := ''water the plants'', task_Notes := [''twice'']\<rparr>"

lemma demo_task_facts [simp]:
  "task_tables demo_tasks" "uuid_ok demo_id" "task_readable demo_tasks demo_id" "task_ok demo_task"
  by (simp_all add: task_tables_def demo_tasks_def uuid_ok_def demo_id_def task_readable_def task_ok_def
      demo_task_def group_ok_def zero_Task_def zero_Group_def smap_ok_def)

text \<open>
  C21 (task_Store_Load).  What \<^verbatim>\<open>ID.Store\<close> writes, \<^verbatim>\<open>ID.Load\<close> reads back: the same task under
  the ID, with its notes, whatever was stored under that ID before, as long as different
  notes have different hashes.
\<close>

theorem task_Store_Load:
  assumes "task_tables s" and "uuid_ok i" and "task_readable s i" and "task_ok t"
    and "inj_on (text_MakeID i) (set (task_Notes t))"
  shows "\<exists>t' s'. task_Store i t s = (Ret t', s') \<and>
    task_Load i zero_Task s' = (Ret (t\<lparr>task_ID := i, task_Resources := []\<rparr>), s')"
proof -
  have hx: "has_tbl TextBucket s" and ht: "has_tbl TaskBucket s"
    using assms(1) by (simp_all add: task_tables_def)
  define s' where "s' = db_put TaskBucket i (Doc (enc_Task (stored_form i t))) (put_texts i (task_Notes t) s)"
  have "task_tables s'" "table s' TaskBucket i = Some (Doc (enc_Task (stored_form i t)))"
    using hx ht by (simp_all add: s'_def task_tables_def)
  moreover have "table s' TextBucket (text_MakeID i n) = Some (Doc (JStr n))" if "n \<in> set (task_Notes t)" for n
    using hx ht that text_kvs_lookup [OF assms(5) that]
    by (simp add: s'_def table_put_texts map_add_def)
  ultimately show ?thesis
    using task_Store_eq [OF assms(1-3)] task_Load_eq [OF _ assms(4)] by (auto simp: s'_def)
qed

theorem task_Store_Load_witness:
  "\<exists>t' s'. task_Store demo_id demo_task demo_tasks = (Ret t', s') \<and>
     task_Load demo_id zero_Task s' = (Ret (demo_task\<lparr>task_ID := demo_id, task_Resources := []\<rparr>), s')"
  by (rule task_Store_Load [OF demo_task_facts]) (simp add: demo_task_def)

text \<open>
  \<^verbatim>\<open>ID.Delete\<close> removes the task but leaves every text in the text
  bucket, the task's own notes included; and \<^verbatim>\<open>ID.Store\<close> over an existing task leaves the
  texts of its old notes.
\<close>

theorem task_texts_leak:
  assumes "task_tables s" and "uuid_ok i" and "task_readable s i"
  shows "(\<exists>s'. task_Delete i s = (Ret (), s') \<and> table s' TaskBucket i = None \<and>
      table s' TextBucket = table s TextBucket) \<and>
    (\<exists>t' s'. task_Store i t s = (Ret t', s') \<and>
      (\<forall>k. table s TextBucket k \<noteq> None \<longrightarrow> table s' TextBucket k \<noteq> None))"
proof -
  have hx: "has_tbl TextBucket s" and ht: "has_tbl TaskBucket s"
    using assms(1) by (simp_all add: task_tables_def)
  show ?thesis
    using hx ht task_Delete_eq [OF assms(1,3)] task_Store_eq [OF assms]
    by (simp add: table_put_texts map_add_def split: option.splits)
qed

theorem task_texts_leak_witness:
  "(\<exists>s'. task_Delete demo_id demo_tasks = (Ret (), s') \<and> table s' TextBucket = table demo_tasks TextBucket) \<and>
   (\<exists>t' s'. task_Store demo_id demo_task demo_tasks = (Ret t', s'))"
  using task_texts_leak [of demo_tasks demo_id demo_task] by auto

text \<open>
  \<^verbatim>\<open>ByOldest.Less\<close> is a strict weak order, as \<^verbatim>\<open>sort.Interface\<close> requires:
  irreflexive, transitive, and with a transitive relation of being unordered; a task with a
  due date comes before every task without one.
\<close>

theorem ByOldest_order:
  "\<not> task_Less a a \<and> (task_Less a b \<longrightarrow> task_Less b c \<longrightarrow> task_Less a c) \<and>
   (\<not> task_Less a b \<and> \<not> task_Less b a \<and> \<not> task_Less b c \<and> \<not> task_Less c b \<longrightarrow> \<not> task_Less a c \<and> \<not> task_Less c a) \<and>
   (task_Due a \<noteq> None \<and> task_Due b = None \<longrightarrow> task_Less a b)"
  by (auto simp: task_Less_def split: option.splits)

theorem ByOldest_order_witness:
  "task_Less (zero_Task\<lparr>task_Due := Some \<lparr>t_ns = 5, t_zone = ZUTC\<rparr>\<rparr>) zero_Task"
  using ByOldest_order [of "zero_Task\<lparr>task_Due := Some \<lparr>t_ns = 5, t_zone = ZUTC\<rparr>\<rparr>" zero_Task zero_Task]
  by (simp add: zero_Task_def)

end
