(* ===== verification/Rest_Task.thy ===== *)
theory Rest_Task
  imports Rest_Middleware Tasks Frames
begin

text \<open>
  The handlers on tasks (\<^verbatim>\<open>rest/task.go\<close>): listing, creating, reading, deleting and updating.
  An update by \<^verbatim>\<open>PUT\<close> is decided by who sends it and by what it changes, and moves the bounty
  between the owner and the user who completes the task.  The timer of the \<^verbatim>\<open>Task\<close> API is an
  argument: \<open>None\<close> is the nil interface, on which a call panics.
\<close>

section \<open>Helpers\<close>

text \<open>\<^verbatim>\<open>*a != *b\<close> on two times compares the location pointers too; a location that is neither
  UTC nor local is made anew for every decoded time.\<close>

fun own_zone :: "zone \<Rightarrow> bool" where
  "own_zone (ZFixed _) = True"
| "own_zone _ = False"

definition time_ne :: "gtime \<Rightarrow> gtime \<Rightarrow> bool" where
  "time_ne a b \<longleftrightarrow> t_ns a \<noteq> t_ns b \<or> t_zone a \<noteq> t_zone b \<or> own_zone (t_zone a)"

definition time_ptr_ne :: "gtime option \<Rightarrow> gtime option \<Rightarrow> bool" where
  "time_ptr_ne a b =
     (case (a, b) of (Some x, Some y) \<Rightarrow> time_ne x y | (None, None) \<Rightarrow> False | _ \<Rightarrow> True)"

text \<open>\<^verbatim>\<open>Readers[u] = true; Writers[u] = true\<close>.\<close>

definition add_member :: "string \<Rightarrow> Group \<Rightarrow> Group go" where
  "add_member u g =
     go_bind (smap_set u True (g_Readers g)) (\<lambda>rs.
     go_bind (smap_set u True (g_Writers g)) (\<lambda>ws.
       Ret (g\<lparr>g_Readers := rs, g_Writers := ws\<rparr>)))"

text \<open>The keys of a set filled in the given order.\<close>

definition as_set :: "string list \<Rightarrow> string list" where
  "as_set us = map fst (fold (\<lambda>u. assoc_set u ()) us [])"

text \<open>A nil slice is written as \<^verbatim>\<open>null\<close>.\<close>

definition enc_Tasks :: "Task list \<Rightarrow> json" where
  "enc_Tasks ts = (if ts = [] then JNull else JArr (map enc_Task ts))"

section \<open>Listing, creating, reading, deleting\<close>

fun task_filters :: "gtime \<Rightarrow> (string \<times> string list) list \<Rightarrow> task_Filter list option" where
  "task_filters now [] = Some []"
| "task_filters now ((k, v) # vals) =
     (if k = ''overdue'' \<and> v \<noteq> [] then
        (if hd v = ''true'' then map_option ((#) (task_Overdue now)) (task_filters now vals)
         else if hd v = ''false'' then map_option ((#) (task_NotYetDue now)) (task_filters now vals)
         else None)
      else if k = ''complete'' \<and> v \<noteq> [] then
        (if hd v = ''true'' then map_option ((#) (task_Completion Complete)) (task_filters now vals)
         else if hd v = ''false'' then map_option ((#) (task_Completion Incomplete)) (task_filters now vals)
         else None)
      else None)"

text \<open>\<open>srt\<close> is \<^verbatim>\<open>sort.Sort\<close> on \<^verbatim>\<open>ByOldest\<close>, which is not a stable sort.\<close>

definition rest_Task_GetAll :: "(Task list \<Rightarrow> Task list) \<Rightarrow> gtime \<Rightarrow> handler" where
  "rest_Task_GetAll srt now r sv =
     (case rq_query r of
        None \<Rightarrow> (HttpError StatusBadRequest, sv)
      | Some vals \<Rightarrow>
          (case task_filters now vals of
             None \<Rightarrow> (HttpError StatusBadRequest, sv)
           | Some filters \<Rightarrow>
               (case mw_CtxGetUserID r of
                  Ret userID \<Rightarrow>
                    (case sv_View (task_GetAll userID filters) sv of
                       Ret ts \<Rightarrow> (OkBody (enc_Tasks (srt ts)), sv)
                     | Fail _ \<Rightarrow> (HttpError StatusInternalServerError, sv)
                     | Panic \<Rightarrow> (Panicked, sv))
                | _ \<Rightarrow> (Panicked, sv))))"

text \<open>The status for an error of a transaction that checks users.\<close>

definition check_status :: "err \<Rightarrow> response" where
  "check_status e = HttpError (if users_IsMissing e then StatusNotFound else StatusInternalServerError)"

definition rest_Task_Create :: "uuid \<Rightarrow> handler" where
  "rest_Task_Create newV4 r sv =
     (case mw_CtxGetUserID r of
        Ret userID \<Rightarrow>
          (case decode_body dec_Task zero_Task r of
             None \<Rightarrow> (HttpError StatusBadRequest, sv)
           | Some sent \<Rightarrow>
               if g_Owner (task_Group sent) \<noteq> userID then (HttpError StatusBadRequest, sv)
               else (case add_member userID (task_Group sent) of
                       Ret g \<Rightarrow>
                         (let tsk = sent\<lparr>task_Group := g\<rparr>; allUsers = all_users userID g
                          in case sv_View (users_CheckUsersExist allUsers) sv of
                               Fail e \<Rightarrow> (check_status e, sv)
                             | Panic \<Rightarrow> (Panicked, sv)
                             | Ret _ \<Rightarrow>
                                 (case sv_Update (db_bind (users_CheckUsersExist allUsers) (\<lambda>_. task_Store newV4 tsk)) sv of
                                    (Fail e, sv1) \<Rightarrow> (check_status e, sv1)
                                  | (Panic, sv1) \<Rightarrow> (Panicked, sv1)
                                  | (Ret tsk1, sv1) \<Rightarrow>
                                      (let tsk2 = tsk1\<lparr>task_Notes := task_Notes tsk, task_Resources := []\<rparr>
                                       in (OkBody (enc_Task tsk2),
                                           notify_all ''tasks'' (enc_Task tsk2) (as_set (g_Owner g # allUsers)) sv1))))
                     | _ \<Rightarrow> (Panicked, sv)))
      | _ \<Rightarrow> (Panicked, sv))"

definition rest_Task_Get :: handler where
  "rest_Task_Get r sv =
     (case mw_CtxGetUserID r of
        Ret userID \<Rightarrow>
          (case uuid_FromString (ByName r ''id'') of
             Fail _ \<Rightarrow> (HttpError StatusBadRequest, sv)
           | Panic \<Rightarrow> (Panicked, sv)
           | Ret tID \<Rightarrow>
               (case sv_View (task_Load tID zero_Task) sv of
                  Fail e \<Rightarrow> (HttpError (if store_IsMissing e then StatusNotFound else StatusInternalServerError), sv)
                | Panic \<Rightarrow> (Panicked, sv)
                | Ret tsk \<Rightarrow>
                    if \<not> smap_get (g_Readers (task_Group tsk)) userID \<and> \<not> smap_get (g_Writers (task_Group tsk)) userID
                    then (HttpError StatusUnauthorized, sv)
                    else (OkBody (enc_Task tsk), sv)))
      | _ \<Rightarrow> (Panicked, sv))"

definition rest_Task_Delete :: handler where
  "rest_Task_Delete r sv =
     (case mw_CtxGetUserID r of
        Ret userID \<Rightarrow>
          (case uuid_FromString (ByName r ''id'') of
             Fail _ \<Rightarrow> (HttpError StatusBadRequest, sv)
           | Panic \<Rightarrow> (Panicked, sv)
           | Ret tID \<Rightarrow>
               (case sv_View (task_Load tID zero_Task) sv of
                  Fail e \<Rightarrow> (HttpError (if store_IsMissing e then StatusNotFound else StatusInternalServerError), sv)
                | Panic \<Rightarrow> (Panicked, sv)
                | Ret tsk \<Rightarrow>
                    if userID \<noteq> g_Owner (task_Group tsk) then (HttpError StatusUnauthorized, sv)
                    else (case sv_Update (task_Delete tID) sv of
                            (Fail _, sv1) \<Rightarrow> (HttpError StatusInternalServerError, sv1)
                          | (Panic, sv1) \<Rightarrow> (Panicked, sv1)
                          | (Ret _, sv1) \<Rightarrow>
                              (OkEmpty,
                               notify_all ''task-deleted'' (JStr (ByName r ''id''))
                                 (map fst (users_AllUsers (task_Group tsk))) sv1))))
      | _ \<Rightarrow> (Panicked, sv))"

section \<open>Updating\<close>

text \<open>Which branch of the switch in \<^verbatim>\<open>Put\<close> is taken.\<close>

datatype put_case =
    PutBad
  | PutUncompleteAsOwner
  | PutUpdateAsOwner
  | PutUnauthorized
  | PutCompleteAsWriter
  | PutUncompleteAsWriter
  | PutUpdateAsWriter

definition put_decide :: "string \<Rightarrow> Task \<Rightarrow> Task \<Rightarrow> put_case" where
  "put_decide userID old sent =
     (let isOwner = (g_Owner (task_Group old) = userID);
          isWriter = smap_get (g_Writers (task_Group old)) userID;
          isModifyBounty = (task_Bounty old \<noteq> task_Bounty sent);
          isModifyCompletedBy = (task_CompletedBy old \<noteq> task_CompletedBy sent);
          isModifyCompletedAt = time_ptr_ne (task_CompletedAt old) (task_CompletedAt sent);
          isModifyDueDate = time_ptr_ne (task_Due old) (task_Due sent);
          isModifyGroup = (\<not> group_deep_equal (task_Group old) (task_Group sent));
          isModifyCompletion = (task_Completed old \<noteq> task_Completed sent)
      in if isModifyCompletedBy \<and> task_Completed sent then PutBad
         else if isModifyCompletedAt \<and> task_Completed sent then PutBad
         else if isOwner \<and> isModifyBounty \<and> task_Completed old then PutBad
         else if isOwner \<and> isModifyDueDate \<and> task_Completed old then PutBad
         else if isOwner \<and> isModifyCompletion \<and> \<not> task_Completed sent then PutUncompleteAsOwner
         else if isOwner then PutUpdateAsOwner
         else if isModifyBounty \<or> isModifyDueDate \<or> isModifyGroup then PutUnauthorized
         else if isWriter \<and> isModifyCompletion \<and> task_Completed sent then PutCompleteAsWriter
         else if isWriter \<and> isModifyCompletion \<and> \<not> task_Completed sent \<and> task_CompletedBy old = userID
         then PutUncompleteAsWriter
         else if isWriter then PutUpdateAsWriter
         else PutUnauthorized)"

text \<open>The task as it goes out after \<^verbatim>\<open>Store\<close>: its ID, its notes, no resources.\<close>

definition sent_back :: "Task \<Rightarrow> Task \<Rightarrow> Task" where
  "sent_back old new = new\<lparr>task_ID := task_ID old, task_Resources := []\<rparr>"

text \<open>\<^verbatim>\<open>Removed\<close> is a plain array of 16 bytes, written as an array of numbers.\<close>

definition enc_Removed :: "uuid \<Rightarrow> json" where
  "enc_Removed i = JArr (map (\<lambda>c. JNum (of_char c)) i)"

definition notify_diff :: "Task \<Rightarrow> Task \<Rightarrow> server \<Rightarrow> server" where
  "notify_diff old new sv =
     fold (\<lambda>(u, ok). if ok then notif_Encode ''tasks'' (enc_Task new) u
                     else notif_Encode ''task-removed'' (enc_Removed (task_ID new)) u)
       (users_DiffGroups (task_Group old) (task_Group new)) sv"

definition notify_group :: "Task \<Rightarrow> server \<Rightarrow> server" where
  "notify_group new sv = notify_all ''tasks'' (enc_Task new) (map fst (users_AllUsers (task_Group new))) sv"

definition notify_user :: "User \<Rightarrow> server \<Rightarrow> server" where
  "notify_user u sv = notif_Encode ''users'' (enc_User u) (user_Name u) sv"

abbreviation named :: "string \<Rightarrow> User" where
  "named n \<equiv> \<lparr>user_Name = n, user_Coin = 0\<rparr>"

text \<open>The transactions of the five branches.\<close>

definition tx_uncompleteAsOwner :: "string list \<Rightarrow> Task \<Rightarrow> Task \<Rightarrow> (User \<times> User) dbop" where
  "tx_uncompleteAsOwner allUsers old new =
     db_bind (task_Store (task_ID old) new) (\<lambda>_.
     db_bind (users_AddCoin (named (g_Owner (task_Group old))) (task_Bounty old)) (\<lambda>own.
     db_bind (users_AddCoin (named (task_CompletedBy old)) (- task_Bounty old)) (\<lambda>cmpl.
     db_bind (users_CheckUsersExist allUsers) (\<lambda>_. db_return (own, cmpl)))))"

definition tx_updateAsOwner :: "string list \<Rightarrow> Task \<Rightarrow> Task \<Rightarrow> unit dbop" where
  "tx_updateAsOwner allUsers old new =
     db_bind (task_Store (task_ID old) new) (\<lambda>_. users_CheckUsersExist allUsers)"

definition tx_completeAsWriter :: "string list \<Rightarrow> string \<Rightarrow> Task \<Rightarrow> Task \<Rightarrow> (User \<times> User) dbop" where
  "tx_completeAsWriter allUsers u old new =
     db_bind (users_CheckUsersExist allUsers) (\<lambda>_.
     db_bind (users_AddCoin (named (g_Owner (task_Group old))) (- task_Bounty new)) (\<lambda>own.
     db_bind (users_AddCoin (named u) (task_Bounty new)) (\<lambda>cmpl.
     db_bind (task_Store (task_ID old) new) (\<lambda>_. db_return (own, cmpl)))))"

definition tx_uncompleteAsWriter :: "string list \<Rightarrow> string \<Rightarrow> Task \<Rightarrow> Task \<Rightarrow> (User \<times> User) dbop" where
  "tx_uncompleteAsWriter allUsers u old new =
     db_bind (users_CheckUsersExist allUsers) (\<lambda>_.
     db_bind (users_AddCoin (named (g_Owner (task_Group old))) (task_Bounty new)) (\<lambda>own.
     db_bind (users_AddCoin (named u) (- task_Bounty new)) (\<lambda>cmpl.
     db_bind (task_Store (task_ID old) new) (\<lambda>_. db_return (own, cmpl)))))"

definition tx_updateAsWriter :: "string list \<Rightarrow> Task \<Rightarrow> Task \<Rightarrow> unit dbop" where
  "tx_updateAsWriter allUsers old new =
     db_bind (users_CheckUsersExist allUsers) (\<lambda>_.
     db_bind (task_Store (task_ID old) new) (\<lambda>_. db_return ()))"

text \<open>What each branch does with the outcome of its transaction.\<close>

definition put_answer :: "('a \<Rightarrow> server \<Rightarrow> server) \<Rightarrow> Task \<Rightarrow> 'a go \<times> server \<Rightarrow> response \<times> server" where
  "put_answer notify new' x =
     (case x of
        (Fail e, sv1) \<Rightarrow> (check_status e, sv1)
      | (Panic, sv1) \<Rightarrow> (Panicked, sv1)
      | (Ret a, sv1) \<Rightarrow> (OkBody (enc_Task new'), notify a sv1))"

definition rest_uncompleteAsOwner :: "string list \<Rightarrow> Task \<Rightarrow> Task \<Rightarrow> server \<Rightarrow> response \<times> server" where
  "rest_uncompleteAsOwner allUsers old new sv =
     (let new' = sent_back old new
      in put_answer (\<lambda>(own, cmpl) sv1. notify_user cmpl (notify_user own (notify_diff old new' sv1))) new'
           (sv_Update (tx_uncompleteAsOwner allUsers old new) sv))"

definition rest_updateAsOwner :: "gtime option \<Rightarrow> string list \<Rightarrow> Task \<Rightarrow> Task \<Rightarrow> server \<Rightarrow> response \<times> server" where
  "rest_updateAsOwner timer allUsers old new0 sv =
     (if task_Completed new0 \<and> \<not> task_Completed old \<and> timer = None then (Panicked, sv)
      else
        (let new = (if task_Completed new0 \<and> \<not> task_Completed old
                    then new0\<lparr>task_CompletedBy := g_Owner (task_Group new0), task_CompletedAt := timer\<rparr>
                    else new0);
             new' = sent_back old new
         in put_answer (\<lambda>_ sv1. notify_diff old new' sv1) new' (sv_Update (tx_updateAsOwner allUsers old new) sv)))"

definition rest_completeAsWriter ::
    "string list \<Rightarrow> string \<Rightarrow> Task \<Rightarrow> Task \<Rightarrow> gtime \<Rightarrow> server \<Rightarrow> response \<times> server" where
  "rest_completeAsWriter allUsers u old new0 now sv =
     (let new = new0\<lparr>task_CompletedBy := u, task_CompletedAt := Some now\<rparr>; new' = sent_back old new
      in put_answer (\<lambda>(own, cmpl) sv1. notify_user cmpl (notify_user own (notify_group new' sv1))) new'
           (sv_Update (tx_completeAsWriter allUsers u old new) sv))"

definition rest_uncompleteAsWriter ::
    "string list \<Rightarrow> string \<Rightarrow> Task \<Rightarrow> Task \<Rightarrow> server \<Rightarrow> response \<times> server" where
  "rest_uncompleteAsWriter allUsers u old new0 sv =
     (let new = new0\<lparr>task_CompletedBy := [], task_CompletedAt := None\<rparr>; new' = sent_back old new
      in put_answer (\<lambda>(own, cmpl) sv1. notify_user own (notify_user cmpl (notify_group new' sv1))) new'
           (sv_Update (tx_uncompleteAsWriter allUsers u old new) sv))"

definition rest_updateAsWriter :: "string list \<Rightarrow> Task \<Rightarrow> Task \<Rightarrow> server \<Rightarrow> response \<times> server" where
  "rest_updateAsWriter allUsers old new sv =
     (let new' = sent_back old new
      in put_answer (\<lambda>_ sv1. notify_group new' sv1) new' (sv_Update (tx_updateAsWriter allUsers old new) sv))"

text \<open>The loop that puts every writer among the readers.\<close>

definition writers_read :: "Group \<Rightarrow> Group" where
  "writers_read g =
     g\<lparr>g_Readers := map_option (\<lambda>rs. fold (\<lambda>w. assoc_set w True) (smap_keys (g_Writers g)) rs) (g_Readers g)\<rparr>"

definition put_dispatch :: "gtime option \<Rightarrow> string \<Rightarrow> string list \<Rightarrow> Task \<Rightarrow> Task \<Rightarrow> server \<Rightarrow> response \<times> server" where
  "put_dispatch timer userID allUsers old sent sv =
     (case put_decide userID old sent of
        PutBad \<Rightarrow> (HttpError StatusBadRequest, sv)
      | PutUncompleteAsOwner \<Rightarrow> rest_uncompleteAsOwner allUsers old sent sv
      | PutUpdateAsOwner \<Rightarrow> rest_updateAsOwner timer allUsers old sent sv
      | PutUnauthorized \<Rightarrow> (HttpError StatusUnauthorized, sv)
      | PutCompleteAsWriter \<Rightarrow>
          (case timer of
             None \<Rightarrow> (Panicked, sv)
           | Some now \<Rightarrow> rest_completeAsWriter allUsers userID old sent (now\<lparr>t_zone := ZUTC\<rparr>) sv)
      | PutUncompleteAsWriter \<Rightarrow> rest_uncompleteAsWriter allUsers userID old sent sv
      | PutUpdateAsWriter \<Rightarrow> rest_updateAsWriter allUsers old sent sv)"

text \<open>
  Everything before the switch: an answer, or the user, all users of the sent task, the stored
  task and the sent task.
\<close>

definition put_parse :: "request \<Rightarrow> server \<Rightarrow> response + string \<times> string list \<times> Task \<times> Task" where
  "put_parse r sv =
     (case mw_CtxGetUserID r of
        Ret userID \<Rightarrow>
          (case uuid_FromString (ByName r ''id'') of
             Fail _ \<Rightarrow> Inl (HttpError StatusBadRequest)
           | Panic \<Rightarrow> Inl Panicked
           | Ret tID \<Rightarrow>
               (case decode_body dec_Task zero_Task r of
                  None \<Rightarrow> Inl (HttpError StatusBadRequest)
                | Some sent0 \<Rightarrow>
                    if g_Owner (task_Group sent0) \<noteq> userID \<and> \<not> smap_get (g_Writers (task_Group sent0)) userID
                    then Inl (HttpError StatusBadRequest)
                    else (case add_member userID (task_Group sent0) of
                            Ret g \<Rightarrow>
                              (let allUsers = all_users userID g; sent = sent0\<lparr>task_Group := writers_read g\<rparr>
                               in case sv_View (users_CheckUsersExist allUsers) sv of
                                    Fail e \<Rightarrow> Inl (check_status e)
                                  | Panic \<Rightarrow> Inl Panicked
                                  | Ret _ \<Rightarrow>
                                      (case sv_View (task_Load tID zero_Task) sv of
                                         Fail e \<Rightarrow> Inl (HttpError (if store_IsMissing e then StatusNotFound
                                                                   else StatusInternalServerError))
                                       | Panic \<Rightarrow> Inl Panicked
                                       | Ret old \<Rightarrow> Inr (userID, allUsers, old, sent)))
                          | _ \<Rightarrow> Inl Panicked)))
      | _ \<Rightarrow> Inl Panicked)"

definition rest_Task_Put :: "gtime option \<Rightarrow> handler" where
  "rest_Task_Put timer r sv =
     (case put_parse r sv of
        Inl resp \<Rightarrow> (resp, sv)
      | Inr (userID, allUsers, old, sent) \<Rightarrow> put_dispatch timer userID allUsers old sent sv)"

section \<open>What storing a task leaves alone\<close>

text \<open>
  The relations on databases that writes to the task and text buckets respect are respected
  by \<^verbatim>\<open>ID.Store\<close> and \<^verbatim>\<open>ID.Delete\<close>.
\<close>

locale task_frame = db_relation +
  assumes put_text: "keeps R (store_Put TextBucket k v)"
    and del_text: "keeps R (store_Delete TextBucket k)"
    and put_task: "keeps R (store_Put TaskBucket k v)"
    and del_task: "keeps R (store_Delete TaskBucket k)"
begin

lemma keeps_StoreAll: "(\<And>st w. st \<in> set ss \<Longrightarrow> keeps R (st w)) \<Longrightarrow> keeps R (store_StoreAll ss what)"
proof -
  assume a: "\<And>st w. st \<in> set ss \<Longrightarrow> keeps R (st w)"
  have "keeps R (store_Wrap (map2 (\<lambda>st w. st w) ss what))"
    using a by (intro keeps_Wrap) (auto dest: set_zip_leftD)
  then show ?thesis by (auto simp: keeps_def store_StoreAll_def refl)
qed

lemma keeps_StoreResources: "keeps R (snd (task_StoreResources t i ns old))"
proof -
  have "keeps R (text_Store k w)" for k w
    by (simp add: text_Store_def store_Marshal_def put_text)
  moreover have "keeps R (text_Delete k)" for k
    using del_text [of k] by (simp add: text_Delete_def store_Delete_def)
  ultimately show ?thesis
    by (auto simp: task_StoreResources_def Let_def store_DeleteAll_def intro!: keeps_Wrap keeps_StoreAll)
qed

lemma keeps_task_Store: "keeps R (task_Store i t)"
proof -
  have "keeps R (store_Marshal enc_Task TaskBucket u i)" for u
    by (simp add: store_Marshal_def put_task)
  then show ?thesis
    using keeps_StoreResources
    by (auto simp: task_Store_def Let_def split: prod.splits) (metis snd_conv)
qed

lemma keeps_task_Delete: "keeps R (task_Delete i)"
  by (auto simp: task_Delete_def Let_def task_DeleteResources_def store_DeleteAll_def zero_Task_def del_task)

end

lemma task_user_buckets [simp]:
  "UserBucket \<noteq> TextBucket" "UserBucket \<noteq> TaskBucket" "TextBucket \<noteq> UserBucket" "TaskBucket \<noteq> UserBucket"
  by (simp_all add: UserBucket_def TextBucket_def TaskBucket_def)

interpretation task_users: task_frame "same_bkt UserBucket"
  by unfold_locales auto

interpretation task_wf: task_frame stays_wf
  by unfold_locales auto

interpretation task_tbl: task_frame stays_tbl
  by unfold_locales auto

section \<open>The coin in circulation\<close>

definition coin_ok :: "db \<Rightarrow> bool" where
  "coin_ok s \<longleftrightarrow> wf_bucket s \<and> has_tbl UserBucket s"

lemma task_Store_coin:
  assumes "task_Store i t s = (r, s')" and "coin_ok s"
  shows "coin_ok s' \<and> total_coin s' = total_coin s"
proof -
  have "same_bkt UserBucket s s'" by (rule keepsD [OF task_users.keeps_task_Store assms(1)])
  moreover have "stays_wf s s'" by (rule keepsD [OF task_wf.keeps_task_Store assms(1)])
  moreover have "stays_tbl s s'" by (rule keepsD [OF task_tbl.keeps_task_Store assms(1)])
  ultimately show ?thesis
    using assms(2)
    by (simp add: coin_ok_def same_bkt_def stays_tbl_def stays_wf_def total_coin_def del: bkt_at.simps)
qed

lemma users_AddCoin_Ret:
  assumes "has_tbl UserBucket s" and "users_AddCoin u c s = (Ret u', s')"
  shows "\<exists>v. user_at s (user_Name u) = Some v \<and> valid_key (user_Name u) \<and> u' = u\<lparr>user_Coin := user_Coin v + c\<rparr> \<and>
    s' = db_put UserBucket (user_Name u) (Doc (enc_User (v\<lparr>user_Coin := user_Coin v + c\<rparr>))) s"
proof -
  obtain v s1 where un: "store_Unmarshal dec_User UserBucket zero_User (user_Name u) s = (Ret v, s1)"
    using assms(2) by (auto simp: users_AddCoin_def db_bind_Ret)
  then have v: "user_at s (user_Name u) = Some v" and "s1 = s"
    using assms(1) by (auto simp: store_Unmarshal_eq user_at_def json_Unmarshal_Ret split: option.splits)
  moreover have "valid_key (user_Name u)"
  proof (rule ccontr)
    assume "\<not> valid_key (user_Name u)"
    from store_Put_invalid [OF assms(1) this] obtain e where
      "store_Put UserBucket (user_Name u) (Doc (enc_User (v\<lparr>user_Coin := user_Coin v + c\<rparr>))) s = (Fail (BoltErr e), s)"
      by blast
    then show False
      using assms(2) un \<open>s1 = s\<close> by (simp add: users_AddCoin_def db_bind_def store_Marshal_def Let_def)
  qed
  ultimately show ?thesis
    using assms users_AddCoin_eq [OF assms(1)] by auto
qed

lemma users_AddCoin_coin:
  assumes "users_AddCoin u c s = (Ret u', s')" and "coin_ok s"
  shows "coin_ok s' \<and> total_coin s' = total_coin s + c"
  using users_AddCoin_Ret [OF _ assms(1)] assms(2)
  by (auto simp: coin_ok_def wf_db_put total_coin_put)

lemma fold_db: "(\<And>x sv. sv_db (f x sv) = sv_db sv) \<Longrightarrow> sv_db (fold f xs sv) = sv_db sv"
  by (induction xs arbitrary: sv) simp_all

lemma notify_db [simp]:
  "sv_db (notif_Encode res j u sv) = sv_db sv" "sv_db (notify_all res j us sv) = sv_db sv"
  "sv_db (notify_diff old new sv) = sv_db sv" "sv_db (notify_group new sv) = sv_db sv"
  "sv_db (notify_user usr sv) = sv_db sv"
  by (auto simp: notify_all_def notify_diff_def notify_group_def notify_user_def notif_Encode_def intro!: fold_db
      split: prod.splits)

lemma notify_all_out: "sv_out (notify_all res j us sv) = sv_out sv @ map (\<lambda>u. (u, res, j)) us"
  unfolding notify_all_def by (induction us arbitrary: sv) (simp_all add: notif_Encode_def)

lemma group_told:
  assumes "v \<in> group_members (task_Group new)"
  shows "(v, ''tasks'', enc_Task new) \<in> set (sv_out (notify_group new sv))"
  using assms [folded AllUsers_keys] by (force simp: notify_group_def notify_all_out)

lemma users_Check_Ret: "users_CheckUsersExist us s = (r, s') \<Longrightarrow> s' = s"
  by (metis snd_conv users_CheckUsersExist_state)

text \<open>A transaction is neutral when a run that returns leaves the coin in circulation as it was.\<close>

definition coin_neutral :: "'a dbop \<Rightarrow> bool" where
  "coin_neutral m \<longleftrightarrow> (\<forall>s a s'. coin_ok s \<longrightarrow> m s = (Ret a, s') \<longrightarrow> total_coin s' = total_coin s)"

lemma neutral_owner: "coin_neutral (tx_uncompleteAsOwner us old new)"
  unfolding coin_neutral_def
proof (intro allI impI)
  fix s x s'
  assume s: "coin_ok s" and "tx_uncompleteAsOwner us old new s = (Ret x, s')"
  then obtain t' s1 own s2 cmpl where st: "task_Store (task_ID old) new s = (Ret t', s1)"
    and a1: "users_AddCoin (named (g_Owner (task_Group old))) (task_Bounty old) s1 = (Ret own, s2)"
    and a2: "users_AddCoin (named (task_CompletedBy old)) (- task_Bounty old) s2 = (Ret cmpl, s')"
    by (auto simp: tx_uncompleteAsOwner_def db_bind_Ret db_return_def dest!: users_Check_Ret)
  show "total_coin s' = total_coin s"
    using task_Store_coin [OF st s] users_AddCoin_coin [OF a1] users_AddCoin_coin [OF a2] by simp
qed

lemma neutral_complete: "coin_neutral (tx_completeAsWriter us u old new)"
  unfolding coin_neutral_def
proof (intro allI impI)
  fix s x s'
  assume s: "coin_ok s" and "tx_completeAsWriter us u old new s = (Ret x, s')"
  then obtain t' own s2 cmpl s3 where a1: "users_AddCoin (named (g_Owner (task_Group old))) (- task_Bounty new) s = (Ret own, s2)"
    and a2: "users_AddCoin (named u) (task_Bounty new) s2 = (Ret cmpl, s3)"
    and st: "task_Store (task_ID old) new s3 = (Ret t', s')"
    by (auto simp: tx_completeAsWriter_def db_bind_Ret db_return_def dest!: users_Check_Ret)
  show "total_coin s' = total_coin s"
    using users_AddCoin_coin [OF a1 s] users_AddCoin_coin [OF a2] task_Store_coin [OF st] by simp
qed

lemma neutral_uncomplete: "coin_neutral (tx_uncompleteAsWriter us u old new)"
  unfolding coin_neutral_def
proof (intro allI impI)
  fix s x s'
  assume s: "coin_ok s" and "tx_uncompleteAsWriter us u old new s = (Ret x, s')"
  then obtain t' own s2 cmpl s3 where a1: "users_AddCoin (named (g_Owner (task_Group old))) (task_Bounty new) s = (Ret own, s2)"
    and a2: "users_AddCoin (named u) (- task_Bounty new) s2 = (Ret cmpl, s3)"
    and st: "task_Store (task_ID old) new s3 = (Ret t', s')"
    by (auto simp: tx_uncompleteAsWriter_def db_bind_Ret db_return_def dest!: users_Check_Ret)
  show "total_coin s' = total_coin s"
    using users_AddCoin_coin [OF a1 s] users_AddCoin_coin [OF a2] task_Store_coin [OF st] by simp
qed

lemma neutral_updates: "coin_neutral (tx_updateAsOwner us old new)" "coin_neutral (tx_updateAsWriter us old new)"
  using task_Store_coin
  by (auto simp: coin_neutral_def tx_updateAsOwner_def tx_updateAsWriter_def db_bind_Ret db_return_def dest!: users_Check_Ret)

lemma put_answer_coin:
  assumes "coin_neutral m" and "coin_ok (sv_db sv)" and "\<And>a sv1. sv_db (notify a sv1) = sv_db sv1"
  shows "total_coin (sv_db (snd (put_answer notify new' (sv_Update m sv)))) = total_coin (sv_db sv)"
proof -
  obtain r s' where m: "m (sv_db sv) = (r, s')" by force
  show ?thesis
    using assms m by (cases r) (auto simp: put_answer_def sv_Update_def db_Update_def coin_neutral_def)
qed

lemma put_dispatch_coin:
  assumes "coin_ok (sv_db sv)"
  shows "total_coin (sv_db (snd (put_dispatch timer u us old sent sv))) = total_coin (sv_db sv)"
proof -
  note ans = put_answer_coin [OF _ assms]
  have "total_coin (sv_db (snd (rest_uncompleteAsOwner us old sent sv))) = total_coin (sv_db sv)"
    "total_coin (sv_db (snd (rest_updateAsOwner timer us old sent sv))) = total_coin (sv_db sv)"
    "total_coin (sv_db (snd (rest_completeAsWriter us u old sent now sv))) = total_coin (sv_db sv)"
    "total_coin (sv_db (snd (rest_uncompleteAsWriter us u old sent sv))) = total_coin (sv_db sv)"
    "total_coin (sv_db (snd (rest_updateAsWriter us old sent sv))) = total_coin (sv_db sv)" for now
    by (simp_all add: rest_uncompleteAsOwner_def rest_updateAsOwner_def rest_completeAsWriter_def
        rest_uncompleteAsWriter_def rest_updateAsWriter_def Let_def ans neutral_owner neutral_complete
        neutral_uncomplete neutral_updates split: prod.splits)
  then show ?thesis
    by (simp add: put_dispatch_def split: put_case.splits option.splits)
qed

text \<open>The answers that are no success.\<close>

fun refused :: "response \<Rightarrow> bool" where
  "refused (HttpError _) = True"
| "refused Panicked = True"
| "refused _ = False"

lemma put_parse_refused: "put_parse r sv = Inl resp \<Longrightarrow> refused resp"
  by (auto simp: put_parse_def check_status_def Let_def split: go.splits option.splits if_splits)

text \<open>What is known once the switch is reached.\<close>

lemma put_parse_Inr:
  assumes "put_parse r sv = Inr x"
  shows "case x of (u, us, old, sent) \<Rightarrow> mw_CtxGetUserID r = Ret u \<and>
    (\<exists>tID. uuid_FromString (ByName r ''id'') = Ret tID \<and> sv_View (task_Load tID zero_Task) sv = Ret old) \<and>
    sv_View (users_CheckUsersExist us) sv = Ret () \<and> u \<in> set us"
  using assms by (auto simp: put_parse_def Let_def all_users_def split: go.splits option.splits if_splits)

section \<open>Properties\<close>

text \<open>
  No request to \<^verbatim>\<open>PUT /tasks/:id\<close>, whoever sends it, whatever it
  contains and whatever the outcome, changes the coin in circulation: what one user gains the
  other loses.
\<close>

theorem Task_Put_conserves_coin:
  assumes "wf_bucket (sv_db sv)" and "has_tbl UserBucket (sv_db sv)"
  shows "total_coin (sv_db (snd (rest_Task_Put timer r sv))) = total_coin (sv_db sv)"
proof -
  have "coin_ok (sv_db sv)" using assms by (simp add: coin_ok_def)
  note put_dispatch_coin [OF this]
  then show ?thesis
    by (simp add: rest_Task_Put_def split: sum.splits prod.splits)
qed

theorem Task_Put_conserves_coin_witness:
  "total_coin (sv_db (snd (rest_Task_Put None no_request \<lparr>sv_db = demo_users, sv_out = []\<rparr>))) = total_coin demo_users"
  using Task_Put_conserves_coin [of "\<lparr>sv_db = demo_users, sv_out = []\<rparr>" None no_request] by simp

text \<open>
  C22 (Task_Put_authorized).  A user who neither owns the stored task nor is one of its writers
  cannot change anything by \<^verbatim>\<open>PUT\<close>: the server is as before and the answer is no success.
\<close>

theorem Task_Put_authorized:
  assumes "mw_CtxGetUserID r = Ret u"
    and "\<forall>tID old. uuid_FromString (ByName r ''id'') = Ret tID \<and> sv_View (task_Load tID zero_Task) sv = Ret old \<longrightarrow>
      g_Owner (task_Group old) \<noteq> u \<and> \<not> smap_get (g_Writers (task_Group old)) u"
  shows "snd (rest_Task_Put timer r sv) = sv \<and> refused (fst (rest_Task_Put timer r sv))"
proof (cases "put_parse r sv")
  case (Inl resp)
  then show ?thesis using put_parse_refused by (simp add: rest_Task_Put_def)
next
  case (Inr x)
  obtain us old sent where x: "x = (u, us, old, sent)" and
    "g_Owner (task_Group old) \<noteq> u" "\<not> smap_get (g_Writers (task_Group old)) u"
    using put_parse_Inr [OF Inr] assms by (cases x) auto
  then have "put_decide u old sent = PutBad \<or> put_decide u old sent = PutUnauthorized"
    by (simp add: put_decide_def Let_def)
  then show ?thesis by (auto simp: rest_Task_Put_def Inr x put_dispatch_def)
qed

definition demo_stored :: Task where
  "demo_stored = zero_Task\<lparr>
     task_Group := \<lparr>g_Owner = ''ann'', g_Readers = Some [(''ann'', True), (''bob'', True)],
                    g_Writers = Some [(''ann'', True), (''bob'', True)]\<rparr>,
     task_ID := demo_id, task_Name := ''water'', task_Bounty := 3\<rparr>"

definition demo_base_db :: db where
  "demo_base_db =
     db_put UserBucket ''bob'' (Doc (enc_User \<lparr>user_Name = ''bob'', user_Coin = 5\<rparr>))
       (db_put UserBucket ''ann'' (Doc (enc_User \<lparr>user_Name = ''ann'', user_Coin = 7\<rparr>))
         (db_of [TaskBucket, TextBucket, UserBucket]))"

text \<open>A server with the users ann and bob and one stored task.\<close>

definition demo_at :: "Task \<Rightarrow> server" where
  "demo_at t = \<lparr>sv_db = db_put TaskBucket demo_id (Doc (enc_Task t)) demo_base_db, sv_out = []\<rparr>"

definition demo_put_by :: "string \<Rightarrow> Task \<Rightarrow> request" where
  "demo_put_by u t = no_request\<lparr>rq_params := [(''id'', uuid_String demo_id)], rq_ctx := [CtxUserID \<mapsto> u],
                               rq_body := Some (enc_Task t)\<rparr>"

definition demo_form :: "Task \<Rightarrow> bool" where
  "demo_form t \<longleftrightarrow> task_Group t = task_Group demo_stored \<and> task_ID t = demo_id \<and> task_Notes t = [] \<and> task_Resources t = []"

lemma demo_form_ok: "demo_form t \<Longrightarrow> task_ok t"
  by (simp add: demo_form_def demo_stored_def task_ok_def group_ok_def smap_ok_def)

lemma demo_forms [simp]:
  "demo_form demo_stored" "demo_form (demo_stored\<lparr>task_Completed := b\<rparr>)"
  "demo_form (demo_stored\<lparr>task_Completed := b, task_CompletedBy := c\<rparr>)"
  by (simp_all add: demo_form_def demo_stored_def zero_Task_def)

lemma demo_base_tbl [simp]:
  "has_tbl UserBucket demo_base_db" "has_tbl TextBucket demo_base_db" "has_tbl TaskBucket demo_base_db" "wf_bucket demo_base_db"
  by (simp_all add: demo_base_db_def wf_db_put TaskBucket_def TextBucket_def UserBucket_def less_char_def)

lemma demo_at_facts [simp]:
  "has_tbl UserBucket (sv_db (demo_at t))" "task_tables (sv_db (demo_at t))" "coin_ok (sv_db (demo_at t))"
  "table (sv_db (demo_at t)) TaskBucket demo_id = Some (Doc (enc_Task t))"
  "user_at (sv_db (demo_at t)) ''ann'' = Some \<lparr>user_Name = ''ann'', user_Coin = 7\<rparr>"
  "user_at (sv_db (demo_at t)) ''bob'' = Some \<lparr>user_Name = ''bob'', user_Coin = 5\<rparr>"
  "table (sv_db (demo_at t)) UserBucket ''ann'' = Some (Doc (enc_User \<lparr>user_Name = ''ann'', user_Coin = 7\<rparr>))"
  "table (sv_db (demo_at t)) UserBucket ''bob'' = Some (Doc (enc_User \<lparr>user_Name = ''bob'', user_Coin = 5\<rparr>))"
  by (simp_all add: demo_at_def task_tables_def coin_ok_def wf_db_put) (simp_all add: demo_base_db_def)

lemma demo_at_readable: "demo_form t \<Longrightarrow> task_readable (sv_db (demo_at t)) demo_id"
  by (rule task_readable_ok) (simp_all add: demo_form_ok)

lemma demo_at_load: "demo_form t \<Longrightarrow> sv_View (task_Load demo_id zero_Task) (demo_at t) = Ret t"
proof -
  assume t: "demo_form t"
  then have "stored_form demo_id t = t" "t\<lparr>task_ID := demo_id, task_Resources := []\<rparr> = t" "task_Notes t = []"
    by (auto simp: demo_form_def stored_form_def)
  then show ?thesis
    using task_Load_eq [of "sv_db (demo_at t)" t demo_id] demo_form_ok [OF t] by (simp add: sv_View_eq)
qed

lemma demo_id_roundtrip [simp]: "uuid_FromString (uuid_String demo_id) = Ret demo_id"
  by (rule uuid_roundtrip) (simp add: demo_id_def)

lemma demo_parse:
  assumes "u \<in> {''ann'', ''bob''}" and "demo_form old" and "demo_form sent"
  shows "put_parse (demo_put_by u sent) (demo_at old) = Inr (u, [u, ''ann'', ''bob'', ''ann'', ''bob''], old, sent)"
proof -
  define g where "g = task_Group demo_stored"
  have g: "add_member u g = Ret g" "writers_read g = g" "all_users u g = [u, ''ann'', ''bob'', ''ann'', ''bob'']"
    "smap_get (g_Writers g) u"
    using assms(1) by (auto simp: g_def demo_stored_def add_member_def writers_read_def all_users_def smap_keys_def smap_get_def)
  have sent: "task_Group sent = g" "sent\<lparr>task_Group := g\<rparr> = sent"
    using assms(3) by (auto simp: demo_form_def g_def)
  have "sv_View (users_CheckUsersExist [u, ''ann'', ''bob'', ''ann'', ''bob'']) (demo_at old) = Ret ()"
    using assms(1) by (auto simp: sv_View_eq users_CheckUsersExist_eq)
  then show ?thesis
    by (simp add: put_parse_def demo_put_by_def mw_CtxGetUserID_def go_assert_def ByName_def decode_body_def
        dec_enc_Task demo_form_ok [OF assms(3)] sent g demo_at_load [OF assms(2)] Let_def)
qed

lemma demo_keys2 [simp]: "valid_key ''ann''" "valid_key ''bob''"
  by (simp_all add: valid_key_def MaxKeySize_def)

lemma demo_stored_simps [simp]:
  "g_Owner (task_Group demo_stored) = ''ann''" "task_ID demo_stored = demo_id" "task_Bounty demo_stored = 3"
  "smap_get (g_Writers (task_Group demo_stored)) ''bob''" "\<not> smap_get (g_Writers (task_Group demo_stored)) ''eve''"
  "\<not> task_Completed demo_stored" "task_CompletedBy demo_stored = []" "task_CompletedAt demo_stored = None" "task_Due demo_stored = None"
  by (simp_all add: demo_stored_def smap_get_def zero_Task_def)

theorem Task_Put_authorized_witness:
  "snd (rest_Task_Put None (demo_put_by ''eve'' demo_stored) (demo_at demo_stored)) = demo_at demo_stored"
  using Task_Put_authorized [of "demo_put_by ''eve'' demo_stored" "''eve''" "demo_at demo_stored" None]
  by (simp add: demo_put_by_def mw_CtxGetUserID_def go_assert_def ByName_def demo_at_load)

text \<open>A payment between two different users, and the storing of the task after it.\<close>

lemma pay_and_store:
  assumes "coin_ok s" and "task_tables s" and "uuid_ok i" and "task_readable s i"
    and "user_at s a = Some va" and "valid_key a" and "user_at s b = Some vb" and "valid_key b" and "b \<noteq> a"
  obtains s1 s2 s3 where "users_AddCoin (named a) (- c) s = (Ret \<lparr>user_Name = a, user_Coin = user_Coin va - c\<rparr>, s1)"
    and "users_AddCoin (named b) c s1 = (Ret \<lparr>user_Name = b, user_Coin = user_Coin vb + c\<rparr>, s2)"
    and "task_Store i t s2 = (Ret (stored_form i t), s3)"
    and "\<And>n. user_at s3 n = (if n = b then Some (vb\<lparr>user_Coin := user_Coin vb + c\<rparr>)
           else if n = a then Some (va\<lparr>user_Coin := user_Coin va - c\<rparr>) else user_at s n)"
    and "table s3 TaskBucket i = Some (Doc (enc_Task (stored_form i t)))"
    and "task_tables s3" and "coin_ok s3" and "\<And>n. table s3 UserBucket n = None \<longleftrightarrow> table s UserBucket n = None"
proof -
  have u: "has_tbl UserBucket s" using assms(1) by (simp add: coin_ok_def)
  define s1 where "s1 = db_put UserBucket a (Doc (enc_User (va\<lparr>user_Coin := user_Coin va - c\<rparr>))) s"
  define s2 where "s2 = db_put UserBucket b (Doc (enc_User (vb\<lparr>user_Coin := user_Coin vb + c\<rparr>))) s1"
  define s3 where "s3 = db_put TaskBucket i (Doc (enc_Task (stored_form i t))) (put_texts i (task_Notes t) s2)"
  have a1: "users_AddCoin (named a) (- c) s = (Ret \<lparr>user_Name = a, user_Coin = user_Coin va - c\<rparr>, s1)"
    using users_AddCoin_eq [of s "named a" va "- c"] assms u by (simp add: s1_def)
  have a2: "users_AddCoin (named b) c s1 = (Ret \<lparr>user_Name = b, user_Coin = user_Coin vb + c\<rparr>, s2)"
    using users_AddCoin_eq [of s1 "named b" vb c] assms u by (simp add: s1_def s2_def)
  have t2: "task_tables s2" "has_tbl UserBucket s2" "has_tbl TextBucket s2" "has_tbl TaskBucket s2"
    using assms(2) u by (simp_all add: s2_def s1_def task_tables_def)
  have "task_readable s2 i"
    using assms(4) u by (simp add: task_readable_def s2_def s1_def)
  then have st: "task_Store i t s2 = (Ret (stored_form i t), s3)"
    using task_Store_eq [OF t2(1) assms(3)] by (simp add: s3_def)
  have "user_at s3 n = user_at s2 n" for n
    using t2 by (simp add: user_at_def s3_def table_put_texts)
  then have "user_at s3 n = (if n = b then Some (vb\<lparr>user_Coin := user_Coin vb + c\<rparr>)
           else if n = a then Some (va\<lparr>user_Coin := user_Coin va - c\<rparr>) else user_at s n)" for n
    using u by (simp add: s2_def s1_def)
  moreover have "table s3 TaskBucket i = Some (Doc (enc_Task (stored_form i t)))"
    using t2 by (simp add: s3_def)
  moreover have "task_tables s3" using t2 by (simp add: s3_def task_tables_def)
  moreover have "coin_ok s3"
    using task_Store_coin [OF st] users_AddCoin_coin [OF a2] users_AddCoin_coin [OF a1 assms(1)] by blast
  moreover have "table s3 UserBucket n = None \<longleftrightarrow> table s UserBucket n = None" for n
    using u t2 assms(5,7) by (auto simp: s3_def s2_def s1_def table_put_texts user_at_def split: option.splits)
  ultimately show thesis using that a1 a2 st by blast
qed

text \<open>The branch of \<^verbatim>\<open>Put\<close> in which a writer completes the task, once the old task is known.\<close>

lemma complete_dispatch:
  assumes "put_decide u old sent = PutCompleteAsWriter" and chk: "users_CheckUsersExist us (sv_db sv) = (Ret (), sv_db sv)"
    and "coin_ok (sv_db sv)" and "task_tables (sv_db sv)"
    and "uuid_ok (task_ID old)" and "task_readable (sv_db sv) (task_ID old)"
    and "user_at (sv_db sv) (g_Owner (task_Group old)) = Some vo" and "valid_key (g_Owner (task_Group old))"
    and "user_at (sv_db sv) u = Some vu" and "valid_key u"
  shows "\<exists>sv'. put_dispatch (Some now) u us old sent sv =
      (OkBody (enc_Task (sent_back old (sent\<lparr>task_CompletedBy := u, task_CompletedAt := Some (now\<lparr>t_zone := ZUTC\<rparr>)\<rparr>))), sv') \<and>
    (\<forall>n. user_at (sv_db sv') n =
       (if n = u then Some (vu\<lparr>user_Coin := user_Coin vu + task_Bounty sent\<rparr>)
        else if n = g_Owner (task_Group old) then Some (vo\<lparr>user_Coin := user_Coin vo - task_Bounty sent\<rparr>)
        else user_at (sv_db sv) n)) \<and>
    table (sv_db sv') TaskBucket (task_ID old) = Some (Doc (enc_Task (stored_form (task_ID old)
       (sent\<lparr>task_CompletedBy := u, task_CompletedAt := Some (now\<lparr>t_zone := ZUTC\<rparr>)\<rparr>)))) \<and>
    {(u, ''users'', enc_User \<lparr>user_Name = u, user_Coin = user_Coin vu + task_Bounty sent\<rparr>),
     (g_Owner (task_Group old), ''users'',
      enc_User \<lparr>user_Name = g_Owner (task_Group old), user_Coin = user_Coin vo - task_Bounty sent\<rparr>)} \<subseteq> set (sv_out sv') \<and>
    (\<forall>v \<in> group_members (task_Group sent). (v, ''tasks'',
       enc_Task (sent_back old (sent\<lparr>task_CompletedBy := u, task_CompletedAt := Some (now\<lparr>t_zone := ZUTC\<rparr>)\<rparr>))) \<in> set (sv_out sv')) \<and>
    task_tables (sv_db sv') \<and> coin_ok (sv_db sv') \<and>
    (\<forall>n. table (sv_db sv') UserBucket n = None \<longleftrightarrow> table (sv_db sv) UserBucket n = None)"
proof -
  define ow b where "ow = g_Owner (task_Group old)" and "b = task_Bounty sent"
  define new where "new = sent\<lparr>task_CompletedBy := u, task_CompletedAt := Some (now\<lparr>t_zone := ZUTC\<rparr>)\<rparr>"
  note defs = ow_def b_def new_def
  have ne: "u \<noteq> ow" using assms(1) by (auto simp: ow_def put_decide_def Let_def split: if_splits)
  obtain s1 s2 s3 where run: "users_AddCoin (named ow) (- b) (sv_db sv) = (Ret \<lparr>user_Name = ow, user_Coin = user_Coin vo - b\<rparr>, s1)"
      "users_AddCoin (named u) b s1 = (Ret \<lparr>user_Name = u, user_Coin = user_Coin vu + b\<rparr>, s2)"
      "task_Store (task_ID old) new s2 = (Ret (stored_form (task_ID old) new), s3)"
    and at: "\<And>n. user_at s3 n = (if n = u then Some (vu\<lparr>user_Coin := user_Coin vu + b\<rparr>)
           else if n = ow then Some (vo\<lparr>user_Coin := user_Coin vo - b\<rparr>) else user_at (sv_db sv) n)"
    and tsk: "table s3 TaskBucket (task_ID old) = Some (Doc (enc_Task (stored_form (task_ID old) new)))"
    and ok: "task_tables s3" "coin_ok s3" "\<And>n. table s3 UserBucket n = None \<longleftrightarrow> table (sv_db sv) UserBucket n = None"
    using pay_and_store [OF assms(3-6) assms(7,8) [folded ow_def] assms(9,10) ne, of b new] by blast
  have "sv_Update (tx_completeAsWriter us u old new) sv =
      (Ret (\<lparr>user_Name = ow, user_Coin = user_Coin vo - b\<rparr>, \<lparr>user_Name = u, user_Coin = user_Coin vu + b\<rparr>), sv\<lparr>sv_db := s3\<rparr>)"
    using run chk by (simp add: sv_Update_def db_Update_def tx_completeAsWriter_def db_bind_def db_return_def defs)
  then have "put_dispatch (Some now) u us old sent sv = (OkBody (enc_Task (sent_back old new)),
      notify_user \<lparr>user_Name = u, user_Coin = user_Coin vu + b\<rparr>
        (notify_user \<lparr>user_Name = ow, user_Coin = user_Coin vo - b\<rparr> (notify_group (sent_back old new) (sv\<lparr>sv_db := s3\<rparr>))))"
    using assms(1) by (simp add: put_dispatch_def rest_completeAsWriter_def Let_def put_answer_def new_def)
  moreover have "\<forall>v \<in> group_members (task_Group sent). (v, ''tasks'', enc_Task (sent_back old new)) \<in>
      set (sv_out (notify_group (sent_back old new) (sv\<lparr>sv_db := s3\<rparr>)))"
    using group_told [of _ "sent_back old new"] by (simp add: sent_back_def new_def)
  ultimately show ?thesis
    using at tsk ok by (simp add: notify_user_def notif_Encode_def defs)
qed

text \<open>
  C25 (complete_pays_bounty).  When a writer completes a task by \<^verbatim>\<open>PUT\<close>, the bounty moves from the
  owner to the writer, no other user's coin changes, the stored task is completed by the
  writer at the time of the timer, both are told their new coin, and every member of the task's
  group is told of the task.
\<close>

theorem complete_pays_bounty:
  assumes "put_parse r sv = Inr (u, us, old, sent)" and "put_decide u old sent = PutCompleteAsWriter"
    and "coin_ok (sv_db sv)" and "task_tables (sv_db sv)"
    and "uuid_ok (task_ID old)" and "task_readable (sv_db sv) (task_ID old)"
    and "user_at (sv_db sv) (g_Owner (task_Group old)) = Some vo" and "valid_key (g_Owner (task_Group old))"
    and "user_at (sv_db sv) u = Some vu" and "valid_key u"
  shows "\<exists>sv'. rest_Task_Put (Some now) r sv =
      (OkBody (enc_Task (sent_back old (sent\<lparr>task_CompletedBy := u, task_CompletedAt := Some (now\<lparr>t_zone := ZUTC\<rparr>)\<rparr>))), sv') \<and>
    (\<forall>n. user_at (sv_db sv') n =
       (if n = u then Some (vu\<lparr>user_Coin := user_Coin vu + task_Bounty sent\<rparr>)
        else if n = g_Owner (task_Group old) then Some (vo\<lparr>user_Coin := user_Coin vo - task_Bounty sent\<rparr>)
        else user_at (sv_db sv) n)) \<and>
    table (sv_db sv') TaskBucket (task_ID old) = Some (Doc (enc_Task (stored_form (task_ID old)
       (sent\<lparr>task_CompletedBy := u, task_CompletedAt := Some (now\<lparr>t_zone := ZUTC\<rparr>)\<rparr>)))) \<and>
    {(u, ''users'', enc_User \<lparr>user_Name = u, user_Coin = user_Coin vu + task_Bounty sent\<rparr>),
     (g_Owner (task_Group old), ''users'',
      enc_User \<lparr>user_Name = g_Owner (task_Group old), user_Coin = user_Coin vo - task_Bounty sent\<rparr>)} \<subseteq> set (sv_out sv') \<and>
    (\<forall>v \<in> group_members (task_Group sent). (v, ''tasks'',
       enc_Task (sent_back old (sent\<lparr>task_CompletedBy := u, task_CompletedAt := Some (now\<lparr>t_zone := ZUTC\<rparr>)\<rparr>))) \<in> set (sv_out sv'))"
proof -
  have "users_CheckUsersExist us (sv_db sv) = (Ret (), sv_db sv)"
    using put_parse_Inr [OF assms(1)] by (simp add: sv_View_eq prod_eq_iff)
  from complete_dispatch [OF assms(2) this assms(3-10), of now] show ?thesis
    unfolding rest_Task_Put_def assms(1) by auto
qed

lemma demo_decide: "put_decide ''bob'' demo_stored (demo_stored\<lparr>task_Completed := True\<rparr>) = PutCompleteAsWriter"
  by (simp add: put_decide_def time_ptr_ne_def group_deep_equal_def Let_def)

theorem complete_pays_bounty_witness:
  "\<exists>j sv'. rest_Task_Put (Some \<lparr>t_ns = 9, t_zone = ZUTC\<rparr>) (demo_put_by ''bob'' (demo_stored\<lparr>task_Completed := True\<rparr>)) (demo_at demo_stored)
       = (OkBody j, sv') \<and>
     user_at (sv_db sv') ''ann'' = Some \<lparr>user_Name = ''ann'', user_Coin = 4\<rparr> \<and>
     user_at (sv_db sv') ''bob'' = Some \<lparr>user_Name = ''bob'', user_Coin = 8\<rparr>"
  using complete_pays_bounty [OF demo_parse [of "''bob''" demo_stored "demo_stored\<lparr>task_Completed := True\<rparr>"] demo_decide,
      of "\<lparr>user_Name = ''ann'', user_Coin = 7\<rparr>" "\<lparr>user_Name = ''bob'', user_Coin = 5\<rparr>" "\<lparr>t_ns = 9, t_zone = ZUTC\<rparr>"]
    demo_at_readable [of demo_stored]
  by force

text \<open>
  A writer who is not the one who completed a task can still
  send it back as not completed: the task is stored as open again, and no coin moves, so the
  bounty that was paid stays paid and will be paid again to whoever completes the task next.
\<close>

theorem other_writer_uncompletes:
  assumes "put_parse r sv = Inr (u, us, old, sent)"
    and "g_Owner (task_Group old) \<noteq> u" and "smap_get (g_Writers (task_Group old)) u"
    and "task_Completed old" and "\<not> task_Completed sent" and "task_CompletedBy old \<noteq> u"
    and "task_Bounty sent = task_Bounty old" and "\<not> time_ptr_ne (task_Due old) (task_Due sent)"
    and "group_deep_equal (task_Group old) (task_Group sent)"
    and "task_tables (sv_db sv)" and "uuid_ok (task_ID old)" and "task_readable (sv_db sv) (task_ID old)"
  shows "\<exists>sv'. rest_Task_Put timer r sv = (OkBody (enc_Task (sent_back old sent)), sv') \<and>
    table (sv_db sv') TaskBucket (task_ID old) = Some (Doc (enc_Task (stored_form (task_ID old) sent))) \<and>
    (\<forall>n. user_at (sv_db sv') n = user_at (sv_db sv) n)"
proof -
  have dec: "put_decide u old sent = PutUpdateAsWriter"
    using assms(2-9) by (simp add: put_decide_def Let_def)
  have t: "has_tbl TextBucket (sv_db sv)" "has_tbl TaskBucket (sv_db sv)"
    using assms(10) by (simp_all add: task_tables_def)
  have chk: "users_CheckUsersExist us (sv_db sv) = (Ret (), sv_db sv)"
    using put_parse_Inr [OF assms(1)] by (simp add: sv_View_eq prod_eq_iff)
  have "rest_Task_Put timer r sv = (OkBody (enc_Task (sent_back old sent)), notify_group (sent_back old sent)
     (sv\<lparr>sv_db := db_put TaskBucket (task_ID old) (Doc (enc_Task (stored_form (task_ID old) sent)))
                    (put_texts (task_ID old) (task_Notes sent) (sv_db sv))\<rparr>))"
    using assms(1) dec chk task_Store_eq [OF assms(10-12)]
    by (simp add: rest_Task_Put_def put_dispatch_def rest_updateAsWriter_def Let_def put_answer_def sv_Update_def
        db_Update_def tx_updateAsWriter_def db_bind_def db_return_def)
  then show ?thesis
    using t by (simp add: user_at_def table_put_texts)
qed

theorem other_writer_uncompletes_witness:
  "\<exists>j sv'. rest_Task_Put None (demo_put_by ''bob'' demo_stored)
       (demo_at (demo_stored\<lparr>task_Completed := True, task_CompletedBy := ''cal''\<rparr>)) = (OkBody j, sv') \<and>
     user_at (sv_db sv') ''ann'' = Some \<lparr>user_Name = ''ann'', user_Coin = 7\<rparr>"
  using other_writer_uncompletes [OF demo_parse [of "''bob''" "demo_stored\<lparr>task_Completed := True, task_CompletedBy := ''cal''\<rparr>" demo_stored], of None]
    demo_at_readable [of "demo_stored\<lparr>task_Completed := True, task_CompletedBy := ''cal''\<rparr>"]
  by (auto simp: time_ptr_ne_def group_deep_equal_def)

text \<open>
  With the nil timer that \<^verbatim>\<open>rest.Bind\<close> leaves in the \<^verbatim>\<open>Task\<close> API, every
  \<^verbatim>\<open>PUT\<close> that completes a task, as its owner or as a writer, panics, and the server is left as
  it was.
\<close>

theorem nil_timer_panics:
  assumes "put_parse r sv = Inr (u, us, old, sent)"
    and "put_decide u old sent = PutCompleteAsWriter \<or>
         put_decide u old sent = PutUpdateAsOwner \<and> task_Completed sent \<and> \<not> task_Completed old"
  shows "rest_Task_Put None r sv = (Panicked, sv)"
  using assms by (auto simp: rest_Task_Put_def put_dispatch_def rest_updateAsOwner_def)

theorem nil_timer_panics_witness:
  "rest_Task_Put None (demo_put_by ''bob'' (demo_stored\<lparr>task_Completed := True\<rparr>)) (demo_at demo_stored) = (Panicked, demo_at demo_stored)"
  using nil_timer_panics [OF demo_parse [of "''bob''" demo_stored "demo_stored\<lparr>task_Completed := True\<rparr>"]] demo_decide by simp

text \<open>
  \<^verbatim>\<open>DELETE /tasks/:id\<close> on a stored task removes it when its owner asks,
  and tells everyone in its group; for anybody else it answers 401 and changes nothing.
\<close>

theorem Task_Delete_owner_only:
  assumes "mw_CtxGetUserID r = Ret u" and "uuid_FromString (ByName r ''id'') = Ret tID"
    and "sv_View (task_Load tID zero_Task) sv = Ret tsk"
    and "task_tables (sv_db sv)" and "task_readable (sv_db sv) tID"
  shows "(u \<noteq> g_Owner (task_Group tsk) \<longrightarrow> rest_Task_Delete r sv = (HttpError StatusUnauthorized, sv)) \<and>
    (u = g_Owner (task_Group tsk) \<longrightarrow>
      (\<exists>sv'. rest_Task_Delete r sv = (OkEmpty, sv') \<and>
         table (sv_db sv') = (table (sv_db sv))(TaskBucket := (table (sv_db sv) TaskBucket)(tID := None)) \<and>
         set (sv_out sv') = set (sv_out sv) \<union> {(w, ''task-deleted'', JStr (ByName r ''id'')) |w. w \<in> group_members (task_Group tsk)}))"
proof -
  have mem: "(\<lambda>p. (fst p, x, y)) ` set (users_AllUsers g) = {(w, x, y) |w. w \<in> group_members g}" for x :: string and y :: json and g
    using AllUsers_keys [of g] by (force simp: set_eq_iff)
  have t: "has_tbl TaskBucket (sv_db sv)" using assms(4) by (simp add: task_tables_def)
  show ?thesis
    using assms t task_Delete_eq [OF assms(4,5)]
    by (simp add: rest_Task_Delete_def sv_Update_def db_Update_def notify_all_out mem)
qed

theorem Task_Delete_owner_only_witness:
  "rest_Task_Delete (demo_put_by ''bob'' demo_stored) (demo_at demo_stored) = (HttpError StatusUnauthorized, demo_at demo_stored) \<and>
   (\<exists>sv'. rest_Task_Delete (demo_put_by ''ann'' demo_stored) (demo_at demo_stored) = (OkEmpty, sv') \<and>
      table (sv_db sv') TaskBucket demo_id = None)"
  using Task_Delete_owner_only [of "demo_put_by ''bob'' demo_stored" "''bob''" demo_id "demo_at demo_stored" demo_stored]
    Task_Delete_owner_only [of "demo_put_by ''ann'' demo_stored" "''ann''" demo_id "demo_at demo_stored" demo_stored]
    demo_at_load [of demo_stored] demo_at_readable [of demo_stored]
  by (auto simp: demo_put_by_def mw_CtxGetUserID_def go_assert_def ByName_def)

text \<open>
  \<^verbatim>\<open>POST /tasks\<close> by the owner of the sent task, with all its users
  known, stores the task exactly as sent, with the owner among readers and writers: also a
  completion by some user is stored as sent, although no coin was moved.
\<close>

theorem Create_trusts_completion:
  assumes "mw_CtxGetUserID r = Ret u" and "decode_body dec_Task zero_Task r = Some sent"
    and "g_Owner (task_Group sent) = u" and "add_member u (task_Group sent) = Ret g"
    and "has_tbl UserBucket (sv_db sv)" and "\<forall>n \<in> set (all_users u g). table (sv_db sv) UserBucket n \<noteq> None"
    and "task_tables (sv_db sv)" and "uuid_ok i" and "table (sv_db sv) TaskBucket i = None"
  shows "\<exists>sv'. rest_Task_Create i r sv = (OkBody (enc_Task (sent\<lparr>task_Group := g, task_ID := i, task_Resources := []\<rparr>)), sv') \<and>
    table (sv_db sv') TaskBucket = (table (sv_db sv) TaskBucket)(i \<mapsto> Doc (enc_Task (stored_form i (sent\<lparr>task_Group := g\<rparr>)))) \<and>
    task_Completed (stored_form i (sent\<lparr>task_Group := g\<rparr>)) = task_Completed sent \<and>
    task_CompletedBy (stored_form i (sent\<lparr>task_Group := g\<rparr>)) = task_CompletedBy sent \<and>
    (\<forall>n. user_at (sv_db sv') n = user_at (sv_db sv) n)"
proof -
  have t: "has_tbl TextBucket (sv_db sv)" "has_tbl TaskBucket (sv_db sv)"
    using assms(7) by (simp_all add: task_tables_def)
  have "find (\<lambda>n. table (sv_db sv) UserBucket n = None) (all_users u g) = None"
    using assms(6) by (auto simp: find_None_iff)
  then have chk: "users_CheckUsersExist (all_users u g) (sv_db sv) = (Ret (), sv_db sv)"
    by (simp add: users_CheckUsersExist_eq [OF assms(5)])
  have "task_readable (sv_db sv) i" using assms(9) by (simp add: task_readable_def)
  note st = task_Store_eq [OF assms(7,8) this]
  have "\<exists>us. rest_Task_Create i r sv = (OkBody (enc_Task (sent\<lparr>task_Group := g, task_ID := i, task_Resources := []\<rparr>)),
      notify_all ''tasks'' (enc_Task (sent\<lparr>task_Group := g, task_ID := i, task_Resources := []\<rparr>)) us
       (sv\<lparr>sv_db := db_put TaskBucket i (Doc (enc_Task (stored_form i (sent\<lparr>task_Group := g\<rparr>)))) (put_texts i (task_Notes sent) (sv_db sv))\<rparr>))"
    using assms(1-4) chk st
    by (simp add: rest_Task_Create_def Let_def sv_View_eq sv_Update_def db_Update_def db_bind_def stored_form_def)
      (rule exI, rule refl)
  then show ?thesis
    using t by (auto simp: user_at_def table_put_texts stored_form_def)
qed

definition demo_new_sv :: server where
  "demo_new_sv = \<lparr>sv_db = db_put UserBucket ''ann'' (Doc (enc_User \<lparr>user_Name = ''ann'', user_Coin = 7\<rparr>))
      (db_of [TaskBucket, TextBucket, UserBucket]), sv_out = []\<rparr>"

definition demo_claimed :: Task where
  "demo_claimed = zero_Task\<lparr>
     task_Group := \<lparr>g_Owner = ''ann'', g_Readers = Some [(''ann'', True)], g_Writers = Some [(''ann'', True)]\<rparr>,
     task_Bounty := 1000, task_Completed := True, task_CompletedBy := ''bob''\<rparr>"

theorem Create_trusts_completion_witness:
  "\<exists>j sv'. rest_Task_Create demo_id (demo_put_by ''ann'' demo_claimed) demo_new_sv = (OkBody j, sv') \<and>
     table (sv_db sv') TaskBucket demo_id = Some (Doc (enc_Task (stored_form demo_id demo_claimed)))"
proof -
  have ok: "task_ok demo_claimed" by (simp add: demo_claimed_def task_ok_def group_ok_def smap_ok_def)
  have g: "g_Owner (task_Group demo_claimed) = ''ann''" "add_member ''ann'' (task_Group demo_claimed) = Ret (task_Group demo_claimed)"
    "all_users ''ann'' (task_Group demo_claimed) = [''ann'', ''ann'', ''ann'']"
    by (simp_all add: demo_claimed_def add_member_def all_users_def smap_keys_def)
  have s: "has_tbl UserBucket (sv_db demo_new_sv)" "task_tables (sv_db demo_new_sv)"
    "table (sv_db demo_new_sv) TaskBucket demo_id = None" "table (sv_db demo_new_sv) UserBucket ''ann'' \<noteq> None"
    by (simp_all add: demo_new_sv_def task_tables_def)
  show ?thesis
    using Create_trusts_completion [of "demo_put_by ''ann'' demo_claimed" "''ann''" demo_claimed "task_Group demo_claimed"
        demo_new_sv demo_id] g s ok
    by (auto simp: demo_put_by_def mw_CtxGetUserID_def go_assert_def decode_body_def dec_enc_Task)
qed

text \<open>
  When the owner sends a completed task back as not completed,
  the bounty goes from the user named as completer to the owner, whoever that is; nobody
  else's coin changes, and the completion data is stored as sent.
\<close>

theorem uncompleteAsOwner_refunds:
  assumes "put_parse r sv = Inr (u, us, old, sent)" and "put_decide u old sent = PutUncompleteAsOwner"
    and "has_tbl UserBucket (sv_db sv)" and "task_tables (sv_db sv)"
    and "uuid_ok (task_ID old)" and "task_readable (sv_db sv) (task_ID old)"
    and "user_at (sv_db sv) u = Some vo" and "valid_key u"
    and "user_at (sv_db sv) (task_CompletedBy old) = Some vc" and "valid_key (task_CompletedBy old)"
    and "task_CompletedBy old \<noteq> u"
  shows "\<exists>sv'. rest_Task_Put timer r sv = (OkBody (enc_Task (sent_back old sent)), sv') \<and>
    table (sv_db sv') TaskBucket (task_ID old) = Some (Doc (enc_Task (stored_form (task_ID old) sent))) \<and>
    (\<forall>n. user_at (sv_db sv') n =
       (if n = task_CompletedBy old then Some (vc\<lparr>user_Coin := user_Coin vc - task_Bounty old\<rparr>)
        else if n = u then Some (vo\<lparr>user_Coin := user_Coin vo + task_Bounty old\<rparr>)
        else user_at (sv_db sv) n))"
proof -
  define c b where "c = task_CompletedBy old" and "b = task_Bounty old"
  have ow: "g_Owner (task_Group old) = u" using assms(2) by (auto simp: put_decide_def Let_def split: if_splits)
  have t: "has_tbl TextBucket (sv_db sv)" "has_tbl TaskBucket (sv_db sv)"
    using assms(4) by (simp_all add: task_tables_def)
  define s1 where "s1 = db_put TaskBucket (task_ID old) (Doc (enc_Task (stored_form (task_ID old) sent)))
      (put_texts (task_ID old) (task_Notes sent) (sv_db sv))"
  have h1: "has_tbl UserBucket s1" and at1: "\<And>n. user_at s1 n = user_at (sv_db sv) n"
    and tb1: "table s1 UserBucket = table (sv_db sv) UserBucket"
    using t assms(3) by (simp_all add: s1_def user_at_def table_put_texts)
  define s2 where "s2 = db_put UserBucket u (Doc (enc_User (vo\<lparr>user_Coin := user_Coin vo + b\<rparr>))) s1"
  define s3 where "s3 = db_put UserBucket c (Doc (enc_User (vc\<lparr>user_Coin := user_Coin vc - b\<rparr>))) s2"
  have a1: "users_AddCoin (named u) b s1 = (Ret \<lparr>user_Name = u, user_Coin = user_Coin vo + b\<rparr>, s2)"
    using users_AddCoin_eq [of s1 "named u" vo b] assms h1 at1 by (simp add: s2_def)
  have a2: "users_AddCoin (named c) (- b) s2 = (Ret \<lparr>user_Name = c, user_Coin = user_Coin vc - b\<rparr>, s3)"
    using users_AddCoin_eq [of s2 "named c" vc "- b"] assms h1 at1 by (simp add: s2_def s3_def c_def)
  have all: "\<forall>n \<in> set us. table (sv_db sv) UserBucket n \<noteq> None"
    using put_parse_Inr [OF assms(1)]
    by (auto simp: sv_View_eq users_CheckUsersExist_eq [OF assms(3)] find_None_iff split: option.splits)
  have chk: "users_CheckUsersExist us s3 = (Ret (), s3)"
    using all h1 tb1 by (auto simp: users_CheckUsersExist_eq s3_def s2_def find_None_iff find_Some_iff split: option.splits)
  have "sv_Update (tx_uncompleteAsOwner us old sent) sv =
      (Ret (\<lparr>user_Name = u, user_Coin = user_Coin vo + b\<rparr>, \<lparr>user_Name = c, user_Coin = user_Coin vc - b\<rparr>), sv\<lparr>sv_db := s3\<rparr>)"
    using task_Store_eq [OF assms(4-6), of sent] a1 a2 chk
    by (simp add: sv_Update_def db_Update_def tx_uncompleteAsOwner_def db_bind_def db_return_def ow c_def b_def s1_def)
  then show ?thesis
    using assms(1,2) h1 at1 t
    by (simp add: rest_Task_Put_def put_dispatch_def rest_uncompleteAsOwner_def Let_def put_answer_def
        s3_def s2_def c_def b_def) (simp add: s1_def)
qed

theorem uncompleteAsOwner_refunds_witness:
  "\<exists>j sv'. rest_Task_Put None (demo_put_by ''ann'' demo_stored)
       (demo_at (demo_stored\<lparr>task_Completed := True, task_CompletedBy := ''bob''\<rparr>)) = (OkBody j, sv') \<and>
     user_at (sv_db sv') ''ann'' = Some \<lparr>user_Name = ''ann'', user_Coin = 10\<rparr> \<and>
     user_at (sv_db sv') ''bob'' = Some \<lparr>user_Name = ''bob'', user_Coin = 2\<rparr>"
proof -
  define old where "old = demo_stored\<lparr>task_Completed := True, task_CompletedBy := ''bob''\<rparr>"
  have "put_decide ''ann'' old demo_stored = PutUncompleteAsOwner"
    by (simp add: old_def put_decide_def time_ptr_ne_def group_deep_equal_def Let_def)
  from uncompleteAsOwner_refunds [OF demo_parse this, of "\<lparr>user_Name = ''ann'', user_Coin = 7\<rparr>" "\<lparr>user_Name = ''bob'', user_Coin = 5\<rparr>" None]
  show ?thesis
    using demo_at_readable [of old] by (force simp: old_def)
qed

end
