(* ===== verification/Rest_Api.thy ===== *)
theory Rest_Api
  imports Rest_Users Rest_Task
begin

text \<open>
  Putting the server together (\<^verbatim>\<open>rest/rest.go\<close>, the \<^verbatim>\<open>Bind\<close> methods of the APIs,
  \<^verbatim>\<open>rest/source.go\<close>): the transaction that prepares the database, the publishers of the
  notifying APIs, the admin token, and the table of routes with their gates.  Everything a
  handler takes from outside (clock, random UUIDs, sockets) is one record of inputs.
\<close>

section \<open>Routes\<close>

record inputs =
  in_clock :: clock
  in_now :: gtime
  in_uuid :: uuid
  in_uuid2 :: uuid
  in_uuids :: "nat \<Rightarrow> uuid"
  in_wfail :: bool
  in_sort :: "Task list \<Rightarrow> Task list"
  in_local :: "int \<Rightarrow> int"
  in_world :: world
  in_picks :: "nat \<Rightarrow> nat option"

text \<open>Method, path, and the handle that was registered for them.\<close>

type_synonym route = "(string \<times> string) \<times> (inputs \<Rightarrow> handler)"

abbreviation gated :: "(inputs \<Rightarrow> handler) \<Rightarrow> Contexter list \<Rightarrow> inputs \<Rightarrow> handler" where
  "gated h ctrs \<equiv> (\<lambda>x. mw_AuthUser (h x) ctrs (in_clock x))"

abbreviation ws_gated :: "(inputs \<Rightarrow> handler) \<Rightarrow> Contexter list \<Rightarrow> inputs \<Rightarrow> handler" where
  "ws_gated h ctrs \<equiv> (\<lambda>x. mw_AuthWSUser (h x) ctrs (in_clock x))"

abbreviation admin_gated :: "(inputs \<Rightarrow> handler) \<Rightarrow> inputs \<Rightarrow> handler" where
  "admin_gated h \<equiv> (\<lambda>x. mw_AuthAdmin (h x))"

record SourceInfo =
  src_Version :: string
  src_License :: string
  src_LicensedTo :: string
  src_Location :: string

definition enc_SourceInfo :: "SourceInfo \<Rightarrow> json" where
  "enc_SourceInfo i =
     JObj [(''version'', JStr (src_Version i)), (''license'', JStr (src_License i)),
           (''licensedTo'', JStr (src_LicensedTo i)), (''location'', JStr (src_Location i))]"

text \<open>The handle writes the text that was marshalled at \<^verbatim>\<open>Bind\<close>; here it is the JSON value.\<close>

definition rest_SourceInfo_Bind :: "SourceInfo \<Rightarrow> route list" where
  "rest_SourceInfo_Bind i = [((''GET'', ''/source''), \<lambda>_ r sv. (OkBody (enc_SourceInfo i), sv))]"

definition rest_Incept_Bind :: "route list" where
  "rest_Incept_Bind = [((''POST'', ''/incept/:key''), \<lambda>x. rest_Incept_Incept (in_uuid x))]"

definition rest_Token_Bind :: "route list" where
  "rest_Token_Bind =
     [((''POST'', ''/tokens''), \<lambda>x. rest_Token_Create (in_uuid x) (in_uuid2 x) (in_now x)),
      ((''DELETE'', ''/tokens''), gated (\<lambda>x. rest_Token_Delete (in_now x)) [mw_CtxSetToken])]"

definition rest_Profile_Bind :: "route list" where
  "rest_Profile_Bind =
     [((''GET'', ''/profile''), gated (\<lambda>_. rest_Profile_Get) [mw_CtxSetUserID]),
      ((''DELETE'', ''/profile''), gated (\<lambda>x. rest_Profile_Delete (in_world x) (in_picks x)) [mw_CtxSetUserID])]"

definition stream_routes :: "route list" where
  "stream_routes =
     [((''GET'', ''/streams/:stream_id/start''), ws_gated (\<lambda>x. rest_Stream_Connect (in_world x)) [mw_CtxSetUserID]),
      ((''POST'', ''/streams''), gated (\<lambda>x. rest_Stream_Create (in_uuid x)) [mw_CtxSetUserID]),
      ((''GET'', ''/streams''), gated (\<lambda>_. rest_Stream_GetAll) [mw_CtxSetUserID]),
      ((''GET'', ''/streams/:stream_id''), gated (\<lambda>_. rest_Stream_Get) [mw_CtxSetUserID]),
      ((''PUT'', ''/streams/:stream_id''), gated (\<lambda>_. rest_Stream_Put) [mw_CtxSetUserID]),
      ((''DELETE'', ''/streams/:stream_id''), gated (\<lambda>x. rest_Stream_Delete (in_world x)) [mw_CtxSetUserID])]"

definition convo_routes :: "route list" where
  "convo_routes =
     [((''GET'', ''/convos/:convo_id/start''), ws_gated (\<lambda>x. rest_Convo_Connect (in_world x)) [mw_CtxSetUserID]),
      ((''GET'', ''/convos/:convo_id/messages''),
         gated (\<lambda>x. rest_Convo_GetMessages (in_local x) (in_now x)) [mw_CtxSetUserID]),
      ((''POST'', ''/convos''), gated (\<lambda>x. rest_Convo_Create (in_uuid x)) [mw_CtxSetUserID]),
      ((''GET'', ''/convos''), gated (\<lambda>_. rest_Convo_GetAll) [mw_CtxSetUserID]),
      ((''GET'', ''/convos/:convo_id''), gated (\<lambda>_. rest_Convo_Get) [mw_CtxSetUserID]),
      ((''PUT'', ''/convos/:convo_id''), gated (\<lambda>x. rest_Convo_Put (in_world x)) [mw_CtxSetUserID]),
      ((''DELETE'', ''/convos/:convo_id''), gated (\<lambda>x. rest_Convo_Delete (in_world x)) [mw_CtxSetUserID])]"

text \<open>\<^verbatim>\<open>rest.Bind\<close> gives the \<^verbatim>\<open>Task\<close> API no timer.\<close>

definition task_routes :: "route list" where
  "task_routes =
     [((''GET'', ''/tasks''), gated (\<lambda>x. rest_Task_GetAll (in_sort x) (in_now x)) [mw_CtxSetUserID]),
      ((''POST'', ''/tasks''), gated (\<lambda>x. rest_Task_Create (in_uuid x)) [mw_CtxSetUserID]),
      ((''GET'', ''/tasks/:id''), gated (\<lambda>_. rest_Task_Get) [mw_CtxSetUserID]),
      ((''DELETE'', ''/tasks/:id''), gated (\<lambda>_. rest_Task_Delete) [mw_CtxSetUserID]),
      ((''PUT'', ''/tasks/:id''), gated (\<lambda>_. rest_Task_Put None) [mw_CtxSetUserID])]"

definition admin_routes :: "route list" where
  "admin_routes =
     [((''GET'', ''/admin/verify''), admin_gated (\<lambda>_. rest_Admin_Verify)),
      ((''POST'', ''/admin/tickets''), admin_gated (\<lambda>x. rest_Admin_NewTicket (in_uuids x) (in_wfail x))),
      ((''GET'', ''/admin/profiles''), admin_gated (\<lambda>_. rest_Admin_GetAllProfiles)),
      ((''PATCH'', ''/admin/profiles/:id''), admin_gated (\<lambda>_. rest_Admin_PatchProfile)),
      ((''POST'', ''/admin/logins''), admin_gated (\<lambda>x. rest_Admin_NewLogin (in_uuid x))),
      ((''DELETE'', ''/admin/tickets/:ticket''), admin_gated (\<lambda>_. rest_Admin_DeleteTicket)),
      ((''DELETE'', ''/admin/users/:user_id''), admin_gated (\<lambda>x. rest_Admin_DeleteUser (in_world x) (in_picks x)))]"

definition rest_Notif_Bind :: "route list" where
  "rest_Notif_Bind = [((''GET'', ''/notifs''), ws_gated (\<lambda>x. rest_Notif_Connect (in_world x)) [mw_CtxSetUserID])]"

section \<open>Binding\<close>

definition NotifStream :: string where "NotifStream = ''notifs''"
definition StreamNotifs :: string where "StreamNotifs = ''streams''"
definition ConvoNotifs :: string where "ConvoNotifs = ''convos''"
definition TaskNotifs :: string where "TaskNotifs = ''tasks''"
definition AdminNotifs :: string where "AdminNotifs = ''admin''"

text \<open>Registering the publisher of an API, in a transaction of its own.\<close>

definition bind_pub :: "net \<Rightarrow> string \<Rightarrow> unit dbop" where
  "bind_pub net name = db_Update (db_bind (river_NewPub net name NotifStream) (\<lambda>_. db_return ()))"

definition rest_Stream_Bind :: "net \<Rightarrow> route list dbop" where
  "rest_Stream_Bind net = db_bind (bind_pub net StreamNotifs) (\<lambda>_. db_return stream_routes)"

definition rest_Convo_Bind :: "net \<Rightarrow> route list dbop" where
  "rest_Convo_Bind net = db_bind (bind_pub net ConvoNotifs) (\<lambda>_. db_return convo_routes)"

definition rest_Task_Bind :: "net \<Rightarrow> route list dbop" where
  "rest_Task_Bind net = db_bind (bind_pub net TaskNotifs) (\<lambda>_. db_return task_routes)"

text \<open>
  What binding writes to the log.  A line is its text, but for the one of a migration, which
  quotes the two versions.  Base64 has nothing in it that the format of a key's line would
  have to escape.
\<close>

datatype log_line = Line string | Migrating bytes bytes

definition key_line :: "Token \<Rightarrow> log_line" where
  "key_line key = Line (''new admin key generated: `'' @ base64_Std_Encode key @ ''`'')"

definition store_Migrate_log :: "bytes \<Rightarrow> db \<Rightarrow> log_line list" where
  "store_Migrate_log v s =
     (case bkt_at [VersionBucket] s of
        Some B \<Rightarrow>
          (let oldVer = raw_bytes (Bucket_Get ''version'' B)
           in if v \<noteq> oldVer then [Migrating oldVer v] else [])
      | None \<Rightarrow> [])"

text \<open>Operations on the database that also write to the log; what is written stays when they fail.\<close>

type_synonym 'a logop = "db \<Rightarrow> 'a go \<times> log_line list \<times> db"

definition quiet :: "'a dbop \<Rightarrow> 'a logop" where
  "quiet m s = (case m s of (r, s') \<Rightarrow> (r, [], s'))"

definition log_Print :: "log_line list \<Rightarrow> 'a logop \<Rightarrow> 'a logop" where
  "log_Print ls m s = (case m s of (r, ls', s') \<Rightarrow> (r, ls @ ls', s'))"

definition log_bind :: "'a logop \<Rightarrow> ('a \<Rightarrow> 'b logop) \<Rightarrow> 'b logop" where
  "log_bind m f s =
     (case m s of
        (Ret x, ls, s') \<Rightarrow> log_Print ls (f x) s'
      | (Fail e, ls, s') \<Rightarrow> (Fail e, ls, s')
      | (Panic, ls, s') \<Rightarrow> (Panic, ls, s'))"

text \<open>\<open>newToken\<close> and \<open>salt\<close> are the UUIDs that are drawn when a token has to be made up.\<close>

definition admin_setup :: "Token option \<Rightarrow> uuid \<Rightarrow> uuid \<Rightarrow> unit logop" where
  "admin_setup apiKey newToken salt s =
     (case apiKey of
        Some token \<Rightarrow> quiet (db_Update (admin_NewToken salt token)) s
      | None \<Rightarrow>
          (case db_View admin_CheckExists s of
             (Ret _, s') \<Rightarrow> (Ret (), [], s')
           | (Panic, s') \<Rightarrow> (Panic, [], s')
           | (Fail e, s') \<Rightarrow>
               if admin_IsNotFound e then
                 log_Print [key_line newToken] (quiet (db_Update (admin_NewToken salt newToken))) s'
               else (Fail (Wrapped ''failed to check for existing admin key'' e), [], s')))"

definition rest_Admin_Bind :: "net \<Rightarrow> Token option \<Rightarrow> uuid \<Rightarrow> uuid \<Rightarrow> route list logop" where
  "rest_Admin_Bind net apiKey newToken salt =
     log_bind (quiet (bind_pub net AdminNotifs)) (\<lambda>_.
     log_bind (admin_setup apiKey newToken salt) (\<lambda>_. quiet (db_return admin_routes)))"

definition server_buckets :: "bytes list" where
  "server_buckets =
     [AdminBucket, TicketBucket, UserBucket, LoginBucket, SessionBucket, RefreshBucket, ContextBucket,
      StreamBucket, RiverBucket, ConvoBucket, MessageBucket, TextBucket, TaskBucket]"

text \<open>The migration is the first thing the transaction does, so that its line shows the database as found.\<close>

definition startup :: "unit logop" where
  "startup s =
     log_Print (store_Migrate_log VerCurrent s)
       (quiet (db_Update (store_Wrap [store_Prep server_buckets, auth_ClearSessions, river_ClearRivers]))) s"

definition rest_Bind :: "net \<Rightarrow> SourceInfo \<Rightarrow> Token option \<Rightarrow> uuid \<Rightarrow> uuid \<Rightarrow> route list logop" where
  "rest_Bind net source apiKey newToken salt =
     log_bind startup (\<lambda>_.
     log_bind (quiet (rest_Stream_Bind net)) (\<lambda>r1.
     log_bind (quiet (rest_Convo_Bind net)) (\<lambda>r2.
     log_bind (quiet (rest_Task_Bind net)) (\<lambda>r3.
     log_bind (rest_Admin_Bind net apiKey newToken salt) (\<lambda>r4.
       quiet (db_return (rest_SourceInfo_Bind source @ rest_Incept_Bind @ rest_Token_Bind @ rest_Profile_Bind
         @ r1 @ r2 @ r3 @ r4 @ rest_Notif_Bind)))))))"

lemmas log_defs = quiet_def log_Print_def log_bind_def

section \<open>The gates\<close>

text \<open>No route but these is open to everybody.\<close>

definition public_routes :: "(string \<times> string) list" where
  "public_routes = [(''GET'', ''/source''), (''POST'', ''/incept/:key''), (''POST'', ''/tokens'')]"

text \<open>A request that carries no token of a stored session and no admin token.\<close>

definition no_session :: "Token go \<Rightarrow> db \<Rightarrow> bool" where
  "no_session t s \<longleftrightarrow> (case t of Ret k \<Rightarrow> table s SessionBucket k = None | Fail _ \<Rightarrow> True | Panic \<Rightarrow> False)"

definition unauthenticated :: "request \<Rightarrow> server \<Rightarrow> bool" where
  "unauthenticated r sv \<longleftrightarrow>
     no_session (mw_GetToken BearerType (rq_AuthHeader r)) (sv_db sv) \<and>
     no_session (mw_GetWSToken (rq_WSProtocolsHeader r) BearerType) (sv_db sv) \<and>
     (\<forall>t. mw_GetToken AdminType (rq_AuthHeader r) = Ret t \<longrightarrow> (\<exists>e. admin_CheckToken t (sv_db sv) = (Fail (admin_ErrNotFound e), sv_db sv)))"

definition refused :: "response \<Rightarrow> bool" where
  "refused rsp \<longleftrightarrow> rsp = HttpError StatusBadRequest \<or> rsp = HttpError StatusUnauthorized"

lemma session_gate_refuses:
  assumes "has_tbl SessionBucket (sv_db sv)" and "no_session tok (sv_db sv)"
  shows "\<exists>rsp. mw_session_gate tok ref h ctrs clk r sv = (rsp, sv) \<and> refused rsp"
  using assms by (cases tok) (auto simp: mw_session_gate_def no_session_def refused_def sv_View_eq auth_CheckToken_eq)

lemma gates_refuse:
  assumes "has_tbl SessionBucket (sv_db sv)" and "unauthenticated r sv"
  shows "\<exists>rsp. mw_AuthUser h ctrs clk r sv = (rsp, sv) \<and> refused rsp"
    and "\<exists>rsp. mw_AuthWSUser h ctrs clk r sv = (rsp, sv) \<and> refused rsp"
    and "\<exists>rsp. mw_AuthAdmin h r sv = (rsp, sv) \<and> refused rsp"
proof -
  show "\<exists>rsp. mw_AuthUser h ctrs clk r sv = (rsp, sv) \<and> refused rsp"
    unfolding mw_AuthUser_def by (rule session_gate_refuses) (use assms in \<open>simp_all add: unauthenticated_def\<close>)
  show "\<exists>rsp. mw_AuthWSUser h ctrs clk r sv = (rsp, sv) \<and> refused rsp"
    unfolding mw_AuthWSUser_def by (rule session_gate_refuses) (use assms in \<open>simp_all add: unauthenticated_def\<close>)
  have "mw_GetToken AdminType (rq_AuthHeader r) \<noteq> Panic"
    by (auto simp: mw_GetToken_def auth_DecodeToken_def split: list.splits option.splits)
  then show "\<exists>rsp. mw_AuthAdmin h r sv = (rsp, sv) \<and> refused rsp"
    using assms(2) by (cases "mw_GetToken AdminType (rq_AuthHeader r)")
      (auto simp: mw_AuthAdmin_def unauthenticated_def refused_def sv_View_eq)
qed

end
