(* ===== verification/Rest_Startup.thy ===== *)
theory Rest_Startup
  imports Rest_Api
begin

text \<open>
  What \<^verbatim>\<open>rest.Bind\<close> makes of the database it is started on, be it empty or left behind by an
  earlier run: all buckets are there, sessions and rivers of the earlier run are gone, the
  publishers are registered, and the admin token is set.
\<close>

section \<open>The steps\<close>

lemma ent_bkt_set: "c \<noteq> b \<Longrightarrow> ent c (bkt_set (b # q) X s) = ent c s"
  by (simp split: option.splits entry.splits)

lemma bkt_at_top: "ent b s = Some (Sub B) \<Longrightarrow> bkt_at [b] s = Some B"
  by simp

text \<open>The version is missing or the current one.\<close>

definition version_ok :: "db \<Rightarrow> bool" where
  "version_ok s \<longleftrightarrow> ent VersionBucket s = None \<or>
     (\<exists>B. ent VersionBucket s = Some (Sub B) \<and> Bucket_Get ''version'' B = Some (Raw VerCurrent))"

lemma Migrate_ok:
  assumes "version_ok s"
  shows "\<exists>s'. store_Migrate VerCurrent s = (Ret (), s') \<and> (wf_bucket s \<longrightarrow> wf_bucket s') \<and> version_ok s' \<and>
    (\<forall>b. b \<noteq> VersionBucket \<longrightarrow> ent b s' = ent b s)"
proof (cases "ent VersionBucket s")
  case None
  let ?s1 = "with_child VersionBucket s"
  let ?s2 = "db_put VersionBucket ''version'' (Raw VerCurrent) ?s1"
  have nl: "no_leaf VersionBucket s" using None by (simp add: no_leaf_def)
  have ent1: "ent b ?s1 = (if b = VersionBucket then Some (Sub empty_bucket) else ent b s)" for b
    using ent_with_child [OF nl, of b] None by (simp add: child_def)
  have has: "has_tbl VersionBucket ?s1" by (simp add: has_tbl_def ent1 flat_bucket_def empty_bucket_def)
  have create: "on_bkt [] (Bucket_CreateBucketIfNotExists VersionBucket) s = (Ret (), ?s1)"
    using on_bkt_create [of "[]" s s VersionBucket] nl by (simp add: VersionBucket_def)
  have key: "valid_key ''version''" by (simp add: valid_key_def MaxKeySize_def)
  have "store_PutV VerCurrent s = (Ret (), ?s2)"
    using create store_Put_ok [OF has key] by (simp add: store_PutV_def)
  moreover have "store_Migrate VerCurrent s = store_PutV VerCurrent s"
    using None by (simp add: store_Migrate_def store_MigrateFrom_def store_migrations_def VerNone_def VerCurrent_def Ver001_def VerAlpha001_2_def)
  moreover have "wf_bucket ?s2" if "wf_bucket s"
    using that None by (intro wf_db_put) (simp add: with_child_def wf_set_ent)
  moreover have "ent b ?s2 = ent b s" if "b \<noteq> VersionBucket" for b
    using that by (simp add: db_put_def ent_bkt_set ent1 split: option.splits del: bkt_set.simps)
  moreover have "version_ok ?s2"
    by (simp add: version_ok_def db_put_def ent1 Bucket_Get_def)
  ultimately show ?thesis by auto
next
  case (Some e)
  then obtain B where "bkt_at [VersionBucket] s = Some B" "Bucket_Get ''version'' B = Some (Raw VerCurrent)"
    using assms by (auto simp: version_ok_def)
  then show ?thesis using assms by (auto simp: store_Migrate_def simp del: bkt_at.simps)
qed

lemma Migrate_quiet: "version_ok s \<Longrightarrow> store_Migrate_log VerCurrent s = []"
  by (auto simp: version_ok_def store_Migrate_log_def)

lemma Setup_ok:
  assumes "\<forall>b \<in> set bs. no_leaf b s \<and> b \<noteq> []"
  shows "\<exists>s'. store_SetupBuckets bs s = (Ret (), s') \<and> (wf_bucket s \<longrightarrow> wf_bucket s') \<and>
    (\<forall>b. ent b s' = (if b \<in> set bs then Some (Sub (child b s)) else ent b s))"
  using assms
proof (induction bs arbitrary: s)
  case (Cons b bs)
  let ?s1 = "with_child b s"
  have b: "no_leaf b s" "b \<noteq> []" using Cons.prems by auto
  have ent1: "ent c ?s1 = (if c = b then Some (Sub (child b s)) else ent c s)" for c
    by (rule ent_with_child [OF b(1)])
  then have "\<forall>c \<in> set bs. no_leaf c ?s1 \<and> c \<noteq> []" using Cons.prems by (auto simp: no_leaf_def)
  then obtain s' where s': "store_SetupBuckets bs ?s1 = (Ret (), s')" "wf_bucket ?s1 \<longrightarrow> wf_bucket s'"
      "\<And>c. ent c s' = (if c \<in> set bs then Some (Sub (child c ?s1)) else ent c ?s1)"
    using Cons.IH by blast
  have "store_SetupBuckets (b # bs) s = (Ret (), s')"
    using on_bkt_create [of "[]" s s b] b s'(1) by (simp add: store_SetupBuckets_def)
  moreover have "wf_bucket s \<longrightarrow> wf_bucket s'"
    using s'(2) by (auto simp: with_child_def wf_set_ent split: option.splits entry.splits)
  moreover have "ent c s' = (if c \<in> set (b # bs) then Some (Sub (child c s)) else ent c s)" for c
    using s'(3) [of c] ent1 by (auto simp: child_def)
  ultimately show ?case by blast
qed (simp add: store_SetupBuckets_def)

lemma ClearSessions_ok:
  assumes "ent SessionBucket s = Some (Sub B)"
  shows "auth_ClearSessions s = (Ret (), set_ent SessionBucket (Sub empty_bucket) (del_ent SessionBucket s))"
  using assms
  by (simp add: auth_ClearSessions_def on_bkt_def Bucket_DeleteBucket_def Bucket_CreateBucket_def SessionBucket_def)

definition only_buckets :: "bucket \<Rightarrow> bool" where
  "only_buckets R \<longleftrightarrow> (\<forall>k v. ent k R \<noteq> Some (Leaf v))"

lemma clear_loop:
  assumes "bkt_at [RiverBucket] s = Some R" and "distinct (map fst ps)" and "\<forall>p \<in> set ps. \<exists>c. ent (fst p) R = Some (Sub c)"
  shows "\<exists>s'. store_Wrap (map (\<lambda>p. on_bkt [RiverBucket] (Bucket_DeleteBucket (fst p))) ps) s = (Ret (), s') \<and>
    bkt_at [RiverBucket] s' = Some (fold (\<lambda>p. del_ent (fst p)) ps R) \<and>
    (wf_bucket s \<longrightarrow> wf_bucket s') \<and> (\<forall>b. b \<noteq> RiverBucket \<longrightarrow> ent b s' = ent b s)"
  using assms
proof (induction ps arbitrary: s R)
  case (Cons p ps)
  let ?R = "del_ent (fst p) R"
  let ?s1 = "bkt_set [RiverBucket] ?R s"
  obtain c where c: "ent (fst p) R = Some (Sub c)" using Cons.prems(3) by auto
  have run: "on_bkt [RiverBucket] (Bucket_DeleteBucket (fst p)) s = (Ret (), ?s1)"
    by (simp add: on_bkt_def Cons.prems(1) Bucket_DeleteBucket_def c del: bkt_at.simps bkt_set.simps)
  have at: "bkt_at [RiverBucket] ?s1 = Some ?R" using Cons.prems(1) by (rule bkt_at_set_same)
  have "\<forall>q \<in> set ps. \<exists>c. ent (fst q) ?R = Some (Sub c)" using Cons.prems(2,3) by (auto simp: image_iff)
  then obtain s' where s': "store_Wrap (map (\<lambda>p. on_bkt [RiverBucket] (Bucket_DeleteBucket (fst p))) ps) ?s1 = (Ret (), s')"
      "bkt_at [RiverBucket] s' = Some (fold (\<lambda>p. del_ent (fst p)) ps ?R)" "wf_bucket ?s1 \<longrightarrow> wf_bucket s'"
      "\<forall>b. b \<noteq> RiverBucket \<longrightarrow> ent b s' = ent b ?s1"
    using Cons.IH [OF at] Cons.prems(2) by auto
  have "wf_bucket s \<longrightarrow> wf_bucket s'"
    using s'(3) wf_bkt_set [of s ?R] wf_del_ent [OF wf_bkt_at [OF _ Cons.prems(1)]] by blast
  with s' show ?case by (simp add: run ent_bkt_set del: bkt_at.simps bkt_set.simps)
qed simp

lemma bents_fold_del: "bents (fold (\<lambda>p. del_ent (fst p)) ps R) = filter (\<lambda>e. fst e \<notin> fst ` set ps) (bents R)"
  by (induction ps arbitrary: R) (auto simp: del_ent_def al_del_def intro!: filter_cong)

lemma ClearRivers_ok:
  assumes "ent RiverBucket s = Some (Sub R)" and "wf_bucket s" and "only_buckets R"
  shows "\<exists>s' R'. river_ClearRivers s = (Ret (), s') \<and> ent RiverBucket s' = Some (Sub R') \<and> bents R' = [] \<and>
    wf_bucket s' \<and> (\<forall>b. b \<noteq> RiverBucket \<longrightarrow> ent b s' = ent b s)"
proof -
  have at: "bkt_at [RiverBucket] s = Some R" using assms(1) by (rule bkt_at_top)
  have "wf_bucket R" using assms(2) at by (rule wf_bkt_at)
  then have d: "distinct (map fst (bents R))" by (cases R) (auto simp: al_sorted_def strict_sorted_iff)
  have "\<forall>p \<in> set (bents R). \<exists>c. ent (fst p) R = Some (Sub c)"
  proof
    fix p assume "p \<in> set (bents R)"
    then have "ent (fst p) R = Some (snd p)" using d by (cases p) (auto simp: ent_def)
    then show "\<exists>c. ent (fst p) R = Some (Sub c)" using assms(3) by (cases "snd p") (auto simp: only_buckets_def)
  qed
  then obtain s' where s': "store_Wrap (map (\<lambda>p. on_bkt [RiverBucket] (Bucket_DeleteBucket (fst p))) (bents R)) s = (Ret (), s')"
      "bkt_at [RiverBucket] s' = Some (fold (\<lambda>p. del_ent (fst p)) (bents R) R)" "wf_bucket s'"
      "\<forall>b. b \<noteq> RiverBucket \<longrightarrow> ent b s' = ent b s"
    using clear_loop [OF at d] assms(2) by blast
  have "bents (fold (\<lambda>p. del_ent (fst p)) (bents R) R) = []" by (auto simp: bents_fold_del filter_empty_conv)
  moreover have "ent RiverBucket s' = Some (Sub (fold (\<lambda>p. del_ent (fst p)) (bents R) R))"
    using s'(2) by (auto split: option.splits entry.splits)
  ultimately show ?thesis using s' at by (auto simp: river_ClearRivers_def simp del: bkt_at.simps)
qed

lemma bind_pub_ok:
  assumes R: "ent RiverBucket s = Some (Sub R)" "no_leaf NotifStream R" and net: "net_ok net"
    and name: "valid_key name" "ent name (child NotifStream R) = None"
  shows "\<exists>s'. bind_pub net name s = (Ret (), s') \<and>
    ent RiverBucket s' = Some (Sub (set_ent NotifStream (Sub (set_ent name (Leaf (Raw [])) (child NotifStream R))) R)) \<and>
    (wf_bucket s \<longrightarrow> wf_bucket s') \<and> (\<forall>b. b \<noteq> RiverBucket \<longrightarrow> ent b s' = ent b s)"
proof -
  note [simp del] = bkt_at.simps bkt_set.simps
  let ?c = "child NotifStream R" and ?R1 = "with_child NotifStream R"
  let ?c' = "set_ent name (Leaf (Raw [])) ?c"
  let ?s1 = "bkt_set [RiverBucket] ?R1 s"
  let ?s2 = "bkt_set [RiverBucket, NotifStream] ?c' ?s1"
  have at: "bkt_at [RiverBucket] s = Some R" using R(1) by (rule bkt_at_top)
  have create: "on_bkt [RiverBucket] (Bucket_CreateBucketIfNotExists NotifStream) s = (Ret (), ?s1)"
    using on_bkt_create [OF at _ R(2)] by (simp add: NotifStream_def)
  have at1: "bkt_at [RiverBucket, NotifStream] ?s1 = Some ?c"
    using bkt_at_create [OF at R(2), of NotifStream "[]"] by (simp add: bkt_at.simps(1))
  have "map_option fst (Cursor_seek name ?c) \<noteq> Some name"
  proof
    assume "map_option fst (Cursor_seek name ?c) = Some name"
    then obtain e where "find (\<lambda>p. name \<le> fst p) (bents ?c) = Some (name, e)" by (auto simp: Cursor_seek_def)
    then have "(name, e) \<in> set (bents ?c)" by (auto simp: find_Some_iff in_set_conv_nth)
    then show False using name(2) by (force simp: ent_def map_of_eq_None_iff)
  qed
  then have "rd_bkt [RiverBucket, NotifStream] (\<lambda>b. if map_option fst (Cursor_seek name b) = Some name
      then Fail (river_errExists name) else Ret ()) ?s1 = (Ret (), ?s1)"
    by (simp add: rd_bkt_def at1)
  moreover have "on_bkt [RiverBucket, NotifStream] (Bucket_Put name (Raw [])) ?s1 = (Ret (), ?s2)"
    using name by (auto simp: on_bkt_def at1 Bucket_Put_def valid_key_def)
  ultimately have "river_NewPub net name NotifStream s = (Ret \<lparr>pub_addr = ''inproc://'' @ NotifStream @ ''/'' @ name\<rparr>, ?s2)"
    using net create unfolding river_NewPub_def
    by (simp add: db_bind_def net_ok_def db_catch_def db_return_def)
  then have run: "bind_pub net name s = (Ret (), ?s2)"
    by (simp add: bind_pub_def db_Update_def db_bind_def db_return_def)
  have "ent NotifStream ?R1 = Some (Sub ?c)" using ent_with_child [OF R(2), of NotifStream] by simp
  then have s2: "?s2 = bkt_set [RiverBucket] (set_ent NotifStream (Sub ?c') ?R1) ?s1"
    using R(1) by (simp add: bkt_set.simps)
  have "set_ent NotifStream (Sub ?c') ?R1 = set_ent NotifStream (Sub ?c') R"
    by (simp add: with_child_def split: option.splits entry.splits)
  then have ent2: "ent RiverBucket ?s2 = Some (Sub (set_ent NotifStream (Sub ?c') R))"
    using R(1) by (simp add: s2) (simp add: bkt_set.simps)
  have wfs: "wf_bucket ?s2" if "wf_bucket s"
  proof -
    have "wf_bucket R" using that at by (rule wf_bkt_at)
    then have "wf_bucket ?R1" "wf_bucket ?c"
      by (auto simp: with_child_def child_def wf_set_ent split: option.splits entry.splits dest: wf_ent)
    then show ?thesis using that by (intro wf_bkt_set wf_set_ent) auto
  qed
  show ?thesis using run ent2 wfs by (auto simp: ent_bkt_set)
qed

text \<open>What the choice of the admin token writes to the log: the key that it has made up, if it has.\<close>

definition setup_log :: "Token option \<Rightarrow> Token \<Rightarrow> db \<Rightarrow> log_line list" where
  "setup_log apiKey newToken s =
     (if apiKey = None \<and> table s AdminBucket ''token'' = None then [key_line newToken] else [])"

text \<open>The admin token afterwards: the one that was given, the one that was there, or the one that was logged.\<close>

definition admin_chosen :: "Token option \<Rightarrow> Token \<Rightarrow> db \<Rightarrow> db \<Rightarrow> bool" where
  "admin_chosen apiKey newToken s s' \<longleftrightarrow>
     (case apiKey of
        Some k \<Rightarrow> admin_CheckToken k s' = (Ret (), s')
      | None \<Rightarrow>
          if table s AdminBucket ''token'' = None then admin_CheckToken newToken s' = (Ret (), s')
          else bkt_at [AdminBucket] s' = bkt_at [AdminBucket] s)"

lemma admin_setup_ok:
  assumes "has_tbl AdminBucket s" and "wf_bucket s"
  shows "\<exists>s'. admin_setup apiKey newToken salt s = (Ret (), setup_log apiKey newToken s, s') \<and> wf_bucket s' \<and>
    (\<forall>b. b \<noteq> AdminBucket \<longrightarrow> ent b s' = ent b s) \<and> table s' AdminBucket ''token'' \<noteq> None \<and> has_tbl AdminBucket s' \<and>
    admin_chosen apiKey newToken s s'"
proof -
  define made where "made k = db_put AdminBucket ''salt'' (Raw salt)
    (db_put AdminBucket ''token'' (Raw (sha256_Sum256 (k @ salt))) s)" for k
  have keys: "valid_key ''token''" "valid_key ''salt''" by (simp_all add: valid_key_def MaxKeySize_def)
  have new: "db_Update (admin_NewToken salt k) s = (Ret (), made k)" for k
    using assms keys by (simp add: db_Update_def admin_NewToken_def made_def Let_def)
  have facts: "wf_bucket (made k)" "table (made k) AdminBucket ''token'' = Some (Raw (sha256_Sum256 (k @ salt)))"
      "table (made k) AdminBucket ''salt'' = Some (Raw salt)" "has_tbl AdminBucket (made k)" for k
    using assms by (simp_all add: made_def wf_db_put)
  have same: "ent b (made k) = ent b s" if "b \<noteq> AdminBucket" for b k
    using that by (simp add: made_def db_put_def ent_bkt_set split: option.splits del: bkt_set.simps bkt_at.simps)
  have chk: "admin_CheckToken k (made k) = (Ret (), made k)" for k
    using admin_CheckToken_eq [of "made k" "Some salt" "Some (sha256_Sum256 (k @ salt))" k] facts [of k] by simp
  show ?thesis
  proof (cases "apiKey = None \<and> table s AdminBucket ''token'' \<noteq> None")
    case True
    then have "admin_setup apiKey newToken salt s = (Ret (), setup_log apiKey newToken s, s)"
      using assms(1) by (auto simp: admin_setup_def setup_log_def db_View_def admin_CheckExists_def db_catch_def store_CheckExists_eq)
    with True assms show ?thesis by (auto simp: admin_chosen_def simp del: bkt_at.simps)
  next
    case False
    define k where "k = (case apiKey of None \<Rightarrow> newToken | Some j \<Rightarrow> j)"
    have "admin_setup apiKey newToken salt s = (Ret (), setup_log apiKey newToken s, made k)"
      using False assms(1) new by (cases apiKey)
        (auto simp: k_def admin_setup_def setup_log_def log_defs db_View_def admin_CheckExists_def db_catch_def db_fail_def store_CheckExists_eq)
    moreover have "admin_chosen apiKey newToken s (made k)"
      using False chk by (cases apiKey) (auto simp: admin_chosen_def k_def)
    ultimately show ?thesis using facts [of k] same by auto
  qed
qed

section \<open>The whole\<close>

text \<open>A database that the server can be started on: an empty one, or one that it has used.\<close>

definition restartable :: "db \<Rightarrow> bool" where
  "restartable s \<longleftrightarrow> wf_bucket s \<and> version_ok s \<and> (\<forall>b \<in> set server_buckets. no_leaf b s) \<and>
     only_buckets (child RiverBucket s) \<and> flat_bucket (child AdminBucket s)"

lemmas server_bucket_defs = server_buckets_def AdminBucket_def TicketBucket_def UserBucket_def auth_bucket_defs
  StreamBucket_def RiverBucket_def ConvoBucket_def MessageBucket_def TextBucket_def TaskBucket_def VersionBucket_def

lemma startup_ok:
  assumes "restartable s"
  shows "\<exists>s' R. startup s = (Ret (), [], s') \<and> wf_bucket s' \<and> version_ok s' \<and> ent SessionBucket s' = Some (Sub empty_bucket) \<and>
    ent RiverBucket s' = Some (Sub R) \<and> bents R = [] \<and>
    (\<forall>b \<in> set server_buckets - {SessionBucket, RiverBucket}. ent b s' = Some (Sub (child b s)))"
proof -
  have ok: "wf_bucket s" "version_ok s" "\<forall>b \<in> set server_buckets. no_leaf b s" "only_buckets (child RiverBucket s)"
    using assms by (auto simp: restartable_def)
  have names: "VersionBucket \<notin> set server_buckets" "SessionBucket \<in> set server_buckets" "RiverBucket \<in> set server_buckets"
      "SessionBucket \<noteq> RiverBucket" "SessionBucket \<noteq> VersionBucket" "RiverBucket \<noteq> VersionBucket" "\<forall>b \<in> set server_buckets. b \<noteq> []"
    by (simp_all add: server_bucket_defs)
  obtain s1 where s1: "store_Migrate VerCurrent s = (Ret (), s1)" "wf_bucket s1" "version_ok s1"
      "\<And>b. b \<noteq> VersionBucket \<Longrightarrow> ent b s1 = ent b s"
    using Migrate_ok [OF ok(2)] ok(1) by blast
  have same: "child b s1 = child b s" "no_leaf b s1 = no_leaf b s" if "b \<in> set server_buckets" for b
  proof -
    have "ent b s1 = ent b s" using that names(1) by (intro s1(4)) blast
    then show "child b s1 = child b s" "no_leaf b s1 = no_leaf b s" by (simp_all add: child_def no_leaf_def)
  qed
  obtain s2 where s2: "store_SetupBuckets server_buckets s1 = (Ret (), s2)" "wf_bucket s2"
      "\<And>b. ent b s2 = (if b \<in> set server_buckets then Some (Sub (child b s1)) else ent b s1)"
    using Setup_ok [of server_buckets s1] ok(3) same(2) names(7) s1(2) by blast
  let ?s3 = "set_ent SessionBucket (Sub empty_bucket) (del_ent SessionBucket s2)"
  have s3: "auth_ClearSessions s2 = (Ret (), ?s3)"
    using s2(3) [of SessionBucket] names(2) ClearSessions_ok by simp
  have wf3: "wf_bucket ?s3" using s2(2) by (simp add: wf_set_ent wf_del_ent)
  have r3: "ent RiverBucket ?s3 = Some (Sub (child RiverBucket s))"
    using s2(3) [of RiverBucket] names(3,4) same(1) [OF names(3)] by auto
  obtain s' R where s': "river_ClearRivers ?s3 = (Ret (), s')" "ent RiverBucket s' = Some (Sub R)" "bents R = []" "wf_bucket s'"
      "\<And>b. b \<noteq> RiverBucket \<Longrightarrow> ent b s' = ent b ?s3"
    using ClearRivers_ok [OF r3 wf3 ok(4)] by blast
  have "startup s = (Ret (), [], s')"
    using s1(1) s2(1) s3 s'(1) Migrate_quiet [OF ok(2)] by (simp add: startup_def log_defs store_Prep_def db_Update_def)
  moreover have "version_ok s'"
    using s1(3) s2(3) [of VersionBucket] s'(5) [of VersionBucket] names by (simp add: version_ok_def)
  moreover have "ent SessionBucket s' = Some (Sub empty_bucket)" using s'(5) [of SessionBucket] names(4) by simp
  moreover have "ent b s' = Some (Sub (child b s))" if "b \<in> set server_buckets - {SessionBucket, RiverBucket}" for b
    using that s'(5) [of b] s2(3) [of b] same(1) [of b] by auto
  ultimately show ?thesis using s'(2-4) by blast
qed

text \<open>The publishers, one after the other.\<close>

definition pubs :: "uint64 \<Rightarrow> string list \<Rightarrow> bucket" where
  "pubs q ks = (if ks = [] then Bucket q []
     else Bucket q [(NotifStream, Sub (Bucket 0 (map (\<lambda>k. (k, Leaf (Raw []))) ks)))])"

definition has_pubs :: "uint64 \<Rightarrow> string list \<Rightarrow> db \<Rightarrow> db \<Rightarrow> bool" where
  "has_pubs q ks s0 s \<longleftrightarrow> ent RiverBucket s = Some (Sub (pubs q ks)) \<and> wf_bucket s \<and> (\<forall>b. b \<noteq> RiverBucket \<longrightarrow> ent b s = ent b s0)"

lemma child_pubs: "child NotifStream (pubs q ks) = Bucket 0 (map (\<lambda>k. (k, Leaf (Raw []))) ks)"
  by (simp add: pubs_def child_def ent_def empty_bucket_def)

lemma bind_pub_next:
  assumes "has_pubs q ks s0 s" and "net_ok net" and "valid_key name" and "name \<notin> set ks"
    and "al_put name (Leaf (Raw [])) (map (\<lambda>k. (k, Leaf (Raw []))) ks) = map (\<lambda>k. (k, Leaf (Raw []))) ks'"
  shows "\<exists>s'. bind_pub net name s = (Ret (), s') \<and> has_pubs q ks' s0 s'"
proof -
  have p: "ent RiverBucket s = Some (Sub (pubs q ks))" "wf_bucket s" "\<forall>b. b \<noteq> RiverBucket \<longrightarrow> ent b s = ent b s0"
    using assms(1) by (auto simp: has_pubs_def)
  have "no_leaf NotifStream (pubs q ks)" by (simp add: no_leaf_def pubs_def ent_def)
  moreover have "ent name (child NotifStream (pubs q ks)) = None"
    using assms(4) by (auto simp: child_pubs ent_def map_of_eq_None_iff)
  ultimately obtain s' where s': "bind_pub net name s = (Ret (), s')"
      "ent RiverBucket s' = Some (Sub (set_ent NotifStream (Sub (set_ent name (Leaf (Raw [])) (child NotifStream (pubs q ks)))) (pubs q ks)))"
      "wf_bucket s'" "\<forall>b. b \<noteq> RiverBucket \<longrightarrow> ent b s' = ent b s"
    using bind_pub_ok [OF p(1) _ assms(2,3)] p(2) by blast
  have "ks' \<noteq> []" using assms(5) by (cases ks) (auto split: if_splits)
  then have "set_ent NotifStream (Sub (set_ent name (Leaf (Raw [])) (child NotifStream (pubs q ks)))) (pubs q ks) = pubs q ks'"
    by (simp add: child_pubs set_ent_def assms(5)) (simp add: pubs_def)
  with s' p(3) show ?thesis by (auto simp: has_pubs_def)
qed

lemma all_pubs:
  assumes "has_pubs q [] s0 s0" and "net_ok net"
  shows "\<exists>s1 s2 s3 s4. bind_pub net StreamNotifs s0 = (Ret (), s1) \<and> bind_pub net ConvoNotifs s1 = (Ret (), s2) \<and>
    bind_pub net TaskNotifs s2 = (Ret (), s3) \<and> bind_pub net AdminNotifs s3 = (Ret (), s4) \<and>
    has_pubs q [AdminNotifs, ConvoNotifs, StreamNotifs, TaskNotifs] s0 s4"
proof -
  note names = AdminNotifs_def ConvoNotifs_def StreamNotifs_def TaskNotifs_def
  have keys: "valid_key AdminNotifs" "valid_key ConvoNotifs" "valid_key StreamNotifs" "valid_key TaskNotifs"
    by (simp_all add: valid_key_def names MaxKeySize_def)
  obtain s1 where s1: "bind_pub net StreamNotifs s0 = (Ret (), s1)" "has_pubs q [StreamNotifs] s0 s1"
    using bind_pub_next [OF assms keys(3), of "[StreamNotifs]"] by auto
  obtain s2 where s2: "bind_pub net ConvoNotifs s1 = (Ret (), s2)" "has_pubs q [ConvoNotifs, StreamNotifs] s0 s2"
    using bind_pub_next [OF s1(2) assms(2) keys(2), of "[ConvoNotifs, StreamNotifs]"] by (auto simp: names less_char_def)
  obtain s3 where s3: "bind_pub net TaskNotifs s2 = (Ret (), s3)" "has_pubs q [ConvoNotifs, StreamNotifs, TaskNotifs] s0 s3"
    using bind_pub_next [OF s2(2) assms(2) keys(4), of "[ConvoNotifs, StreamNotifs, TaskNotifs]"] by (auto simp: names less_char_def)
  obtain s4 where "bind_pub net AdminNotifs s3 = (Ret (), s4)" "has_pubs q [AdminNotifs, ConvoNotifs, StreamNotifs, TaskNotifs] s0 s4"
    using bind_pub_next [OF s3(2) assms(2) keys(1), of "[AdminNotifs, ConvoNotifs, StreamNotifs, TaskNotifs]"]
    by (auto simp: names less_char_def)
  with s1(1) s2(1) s3(1) show ?thesis by blast
qed

text \<open>
  What the server finds after \<^verbatim>\<open>Bind\<close>, compared with the database \<open>s\<close> from before.  With an admin
  token in place and no new one given the admin bucket, too, is as it was.
\<close>

definition started :: "Token option \<Rightarrow> Token \<Rightarrow> db \<Rightarrow> db \<Rightarrow> bool" where
  "started apiKey newToken s s' \<longleftrightarrow> restartable s' \<and>
    (\<forall>b \<in> set server_buckets - {SessionBucket, RiverBucket, AdminBucket}. bkt_at [b] s' = Some (child b s)) \<and>
    bkt_at [SessionBucket] s' = Some empty_bucket \<and>
    (\<exists>q. bkt_at [RiverBucket] s' = Some (Bucket q [(NotifStream, Sub (Bucket 0
       [(AdminNotifs, Leaf (Raw [])), (ConvoNotifs, Leaf (Raw [])), (StreamNotifs, Leaf (Raw [])), (TaskNotifs, Leaf (Raw []))]))])) \<and>
    table s' AdminBucket ''token'' \<noteq> None \<and>
    (case apiKey of
       Some k \<Rightarrow> admin_CheckToken k s' = (Ret (), s')
     | None \<Rightarrow>
         if table s AdminBucket ''token'' = None then admin_CheckToken newToken s' = (Ret (), s')
         else bkt_at [AdminBucket] s' = Some (child AdminBucket s))"

lemma table_child: "ent b s' = Some (Sub (child b s)) \<Longrightarrow> no_leaf b s \<Longrightarrow> table s' b = table s b"
  by (auto simp: table_def fun_eq_iff child_def no_leaf_def Bucket_Get_def split: option.splits entry.splits)

lemma Bind_started:
  assumes "restartable s" and "net_ok net"
  shows "\<exists>routes s'. rest_Bind net source apiKey newToken salt s = (Ret routes, setup_log apiKey newToken s, s') \<and>
    started apiKey newToken s s'"
proof -
  obtain s0 R where s0: "startup s = (Ret (), [], s0)" "wf_bucket s0" "version_ok s0" "ent SessionBucket s0 = Some (Sub empty_bucket)"
      "ent RiverBucket s0 = Some (Sub R)" "bents R = []"
      "\<forall>b \<in> set server_buckets - {SessionBucket, RiverBucket}. ent b s0 = Some (Sub (child b s))"
    using startup_ok [OF assms(1)] by blast
  obtain q where "R = Bucket q []" using s0(6) by (cases R) auto
  then have "has_pubs q [] s0 s0" using s0(2,5) by (simp add: has_pubs_def pubs_def)
  then obtain s1 s2 s3 s4 where p: "bind_pub net StreamNotifs s0 = (Ret (), s1)" "bind_pub net ConvoNotifs s1 = (Ret (), s2)"
      "bind_pub net TaskNotifs s2 = (Ret (), s3)" "bind_pub net AdminNotifs s3 = (Ret (), s4)"
    and s4: "ent RiverBucket s4 = Some (Sub (pubs q [AdminNotifs, ConvoNotifs, StreamNotifs, TaskNotifs]))" "wf_bucket s4"
      "\<And>b. b \<noteq> RiverBucket \<Longrightarrow> ent b s4 = ent b s0"
    using all_pubs [OF _ assms(2)] unfolding has_pubs_def by metis
  have names: "AdminBucket \<in> set server_buckets" "AdminBucket \<noteq> SessionBucket" "AdminBucket \<noteq> RiverBucket" "AdminBucket \<noteq> VersionBucket"
      "SessionBucket \<noteq> RiverBucket" "VersionBucket \<noteq> RiverBucket" "VersionBucket \<notin> set server_buckets"
    by (simp_all add: server_bucket_defs)
  have ent4: "ent AdminBucket s4 = Some (Sub (child AdminBucket s))"
    using s4(3) [of AdminBucket] s0(7) names by simp
  then have adm4: "has_tbl AdminBucket s4" using assms(1) by (simp add: has_tbl_def restartable_def)
  have "no_leaf AdminBucket s" using assms(1) names(1) by (simp add: restartable_def)
  then have tab4: "table s4 AdminBucket = table s AdminBucket" by (rule table_child [OF ent4])
  obtain s' where s': "admin_setup apiKey newToken salt s4 = (Ret (), setup_log apiKey newToken s4, s')" "wf_bucket s'"
      "\<And>b. b \<noteq> AdminBucket \<Longrightarrow> ent b s' = ent b s4"
      "table s' AdminBucket ''token'' \<noteq> None" "has_tbl AdminBucket s'" "admin_chosen apiKey newToken s4 s'"
    using admin_setup_ok [OF adm4 s4(2), of apiKey newToken salt] by auto
  have run: "\<exists>routes. rest_Bind net source apiKey newToken salt s = (Ret routes, setup_log apiKey newToken s, s')"
    using s0(1) p s'(1) tab4
    by (simp add: rest_Bind_def rest_Stream_Bind_def rest_Convo_Bind_def rest_Task_Bind_def rest_Admin_Bind_def
        db_bind_def db_return_def log_defs setup_log_def)
  have chosen: "case apiKey of Some k \<Rightarrow> admin_CheckToken k s' = (Ret (), s')
     | None \<Rightarrow> if table s AdminBucket ''token'' = None then admin_CheckToken newToken s' = (Ret (), s')
         else bkt_at [AdminBucket] s' = Some (child AdminBucket s)"
    using s'(6) bkt_at_top [OF ent4] by (simp add: admin_chosen_def tab4 split: option.splits if_splits del: bkt_at.simps)
  have kept: "ent b s' = Some (Sub (child b s))" if "b \<in> set server_buckets - {SessionBucket, RiverBucket, AdminBucket}" for b
    using that s'(3) [of b] s4(3) [of b] s0(7) by auto
  have sess: "ent SessionBucket s' = Some (Sub empty_bucket)"
    using s'(3) [of SessionBucket] s4(3) [of SessionBucket] s0(4) names by auto
  have riv: "ent RiverBucket s' = Some (Sub (pubs q [AdminNotifs, ConvoNotifs, StreamNotifs, TaskNotifs]))"
    using s'(3) [of RiverBucket] s4(1) names by auto
  obtain A where adm: "ent AdminBucket s' = Some (Sub A)" "flat_bucket A"
    using s'(5) by (auto simp: has_tbl_def split: option.splits entry.splits)
  have "version_ok s'"
    using s'(3) [of VersionBucket] s4(3) [of VersionBucket] s0(3) names by (simp add: version_ok_def)
  moreover have "\<forall>b \<in> set server_buckets. no_leaf b s'"
    using kept sess riv adm(1) by (metis Diff_iff empty_iff entry.distinct(1) insert_iff no_leaf_def option.inject)
  moreover have "only_buckets (child RiverBucket s')"
    by (simp add: child_def riv) (simp add: only_buckets_def pubs_def ent_def)
  ultimately have "restartable s'" using s'(2) adm by (simp add: restartable_def child_def)
  moreover have "\<forall>b \<in> set server_buckets - {SessionBucket, RiverBucket, AdminBucket}. bkt_at [b] s' = Some (child b s)"
    using kept by simp
  moreover have "\<exists>q. bkt_at [RiverBucket] s' = Some (Bucket q [(NotifStream, Sub (Bucket 0
       [(AdminNotifs, Leaf (Raw [])), (ConvoNotifs, Leaf (Raw [])), (StreamNotifs, Leaf (Raw [])), (TaskNotifs, Leaf (Raw []))]))])"
    by (simp add: riv pubs_def)
  moreover have "bkt_at [SessionBucket] s' = Some empty_bucket" by (simp add: sess)
  ultimately show ?thesis using run s'(4) chosen unfolding started_def by blast
qed

text \<open>
  C8 (startup_state).  Started on an empty database or on one that an earlier run left behind,
  \<^verbatim>\<open>rest.Bind\<close> succeeds when its sockets do.  All buckets exist; the users, logins, refresh
  tokens, contexts, tickets, streams, convos, messages, tasks and texts are as before; no
  session is left, and the rivers are just the publishers of the four notifying APIs.  An
  admin key that was given is accepted; without one the admin bucket is as before, or, if it
  held no token, the key that is written to the log is accepted, and nothing else is
  logged.  The server can be started again on the result.
\<close>

theorem startup_state:
  assumes "restartable s" and "net_ok net"
  shows "\<exists>routes log s'. rest_Bind net source apiKey newToken salt s = (Ret routes, log, s') \<and> restartable s' \<and>
    (\<forall>b \<in> set server_buckets - {SessionBucket, RiverBucket, AdminBucket}. bkt_at [b] s' = Some (child b s)) \<and>
    bkt_at [SessionBucket] s' = Some empty_bucket \<and>
    (\<exists>q. bkt_at [RiverBucket] s' = Some (Bucket q [(NotifStream, Sub (Bucket 0
       [(AdminNotifs, Leaf (Raw [])), (ConvoNotifs, Leaf (Raw [])), (StreamNotifs, Leaf (Raw [])), (TaskNotifs, Leaf (Raw []))]))])) \<and>
    table s' AdminBucket ''token'' \<noteq> None \<and>
    (case apiKey of
       Some k \<Rightarrow> log = [] \<and> admin_CheckToken k s' = (Ret (), s')
     | None \<Rightarrow>
         if table s AdminBucket ''token'' = None then
           log = [Line (''new admin key generated: `'' @ base64_Std_Encode newToken @ ''`'')] \<and>
           admin_CheckToken newToken s' = (Ret (), s')
         else log = [] \<and> bkt_at [AdminBucket] s' = Some (child AdminBucket s))"
proof -
  obtain routes s' where run: "rest_Bind net source apiKey newToken salt s = (Ret routes, setup_log apiKey newToken s, s')"
      "started apiKey newToken s s'"
    using Bind_started [OF assms] by blast
  show ?thesis
    by (rule exI [of _ routes], rule exI [of _ "setup_log apiKey newToken s"], rule exI [of _ s'])
      (use run in \<open>simp add: started_def setup_log_def key_line_def split: option.splits if_splits del: bkt_at.simps\<close>)
qed

lemma restartable_empty: "restartable empty_bucket"
  by (auto simp: restartable_def version_ok_def no_leaf_def only_buckets_def child_def flat_bucket_def) 
    (simp add: empty_bucket_def)

text \<open>
  A database of an earlier run: the admin key \<^verbatim>\<open>key\<close> was set, a user was created, and a session
  of theirs is still stored.
\<close>

definition demo_source :: SourceInfo where
  "demo_source = \<lparr>src_Version = [], src_License = [], src_LicensedTo = [], src_Location = []\<rparr>"

definition demo_used_db :: db where
  "demo_used_db =
     db_put SessionBucket ''tok'' (Raw [])
       (db_put UserBucket ''ann'' (Raw [])
         (snd (snd (rest_Bind demo_net demo_source (Some ''key'') nil_uuid nil_uuid empty_bucket))))"

lemma restartable_put:
  assumes "restartable s" and "has_tbl b s" and "b \<notin> {RiverBucket, VersionBucket, AdminBucket}"
  shows "restartable (db_put b k v s)"
proof -
  obtain B where B: "bkt_at [b] s = Some B" using assms(2) by (rule has_tblE)
  let ?s = "bkt_set [b] (set_ent k (Leaf v) B) s"
  have put: "db_put b k v s = ?s" using B by (simp add: db_put_def del: bkt_at.simps bkt_set.simps)
  have other: "ent c ?s = ent c s" if "c \<noteq> b" for c by (rule ent_bkt_set [OF that])
  have here: "no_leaf b ?s" using B by (auto simp: no_leaf_def split: option.splits entry.splits)
  have "no_leaf c ?s" if "c \<in> set server_buckets" for c
    using that other [of c] here assms(1) by (cases "c = b") (auto simp: restartable_def no_leaf_def)
  moreover have "child c ?s = child c s" if "c \<noteq> b" for c using other [OF that] by (simp add: child_def)
  moreover have "ent VersionBucket ?s = ent VersionBucket s" using assms(3) by (intro other) auto
  then have "version_ok ?s = version_ok s" by (simp add: version_ok_def del: bkt_set.simps)
  moreover have "wf_bucket ?s" using assms(1) wf_db_put [of s b k v] by (simp add: restartable_def put del: bkt_set.simps)
  ultimately show ?thesis
    unfolding put using assms(1,3) by (auto simp: restartable_def simp del: bkt_at.simps bkt_set.simps)
qed

lemma admin_CheckToken_cong:
  "bkt_at [AdminBucket] s = bkt_at [AdminBucket] s' \<Longrightarrow> fst (admin_CheckToken k s) = fst (admin_CheckToken k s')"
  by (auto simp: admin_CheckToken_def admin_get_def store_Get_def rd_bkt_def db_bind_def db_catch_def db_fail_def db_return_def
      simp del: bkt_at.simps split: option.splits go.splits prod.splits)

lemma table_of_bkt: "bkt_at [b] s' = bkt_at [b] s \<Longrightarrow> table s' b = table s b"
  by (simp add: table_def fun_eq_iff del: bkt_at.simps)

lemma demo_used_db_facts:
  "restartable demo_used_db" "table demo_used_db AdminBucket ''token'' \<noteq> None"
  "fst (admin_CheckToken ''key'' demo_used_db) = Ret ()"
  "table demo_used_db SessionBucket ''tok'' = Some (Raw [])" "table demo_used_db UserBucket ''ann'' = Some (Raw [])"
proof -
  have net: "net_ok demo_net" by (simp add: demo_net_def net_ok_def)
  from Bind_started [OF restartable_empty net] obtain routes log s1 where
    run: "rest_Bind demo_net demo_source (Some ''key'') nil_uuid nil_uuid empty_bucket = (Ret routes, log, s1)"
    and st: "started (Some ''key'') nil_uuid empty_bucket s1" by blast
  have names: "UserBucket \<in> set server_buckets - {SessionBucket, RiverBucket, AdminBucket}" "UserBucket \<noteq> VersionBucket"
      "SessionBucket \<notin> {RiverBucket, VersionBucket, AdminBucket, UserBucket}"
    by (simp_all add: server_bucket_defs)
  have child: "child b empty_bucket = empty_bucket" for b by (simp add: child_def)
  have used: "demo_used_db = db_put SessionBucket ''tok'' (Raw []) (db_put UserBucket ''ann'' (Raw []) s1)"
    by (simp add: demo_used_db_def run)
  have flat: "flat_bucket empty_bucket" by (simp add: flat_bucket_def empty_bucket_def)
  have tbl: "has_tbl UserBucket s1" "has_tbl SessionBucket s1"
    using st names(1) by (simp_all add: started_def has_tbl_def child flat del: bkt_at.simps)
  have "bkt_at [AdminBucket] demo_used_db = bkt_at [AdminBucket] s1"
    using names tbl by (auto simp: used bkt_at_db_put simp del: bkt_at.simps)
  then have adm: "table demo_used_db AdminBucket = table s1 AdminBucket"
      "fst (admin_CheckToken ''key'' demo_used_db) = fst (admin_CheckToken ''key'' s1)"
    by (rule table_of_bkt, rule admin_CheckToken_cong)
  show "table demo_used_db AdminBucket ''token'' \<noteq> None" "fst (admin_CheckToken ''key'' demo_used_db) = Ret ()"
    using st by (simp_all add: adm started_def del: bkt_at.simps)
  show "restartable demo_used_db"
    unfolding used using st names tbl by (intro restartable_put) (auto simp: started_def simp del: bkt_at.simps)
  show "table demo_used_db SessionBucket ''tok'' = Some (Raw [])" "table demo_used_db UserBucket ''ann'' = Some (Raw [])"
    using names tbl by (auto simp: used)
qed

theorem startup_state_witness:
  "\<exists>routes s'. rest_Bind demo_net demo_source None ''sixteen bytes 16'' nil_uuid demo_used_db = (Ret routes, [], s') \<and>
    table s' UserBucket ''ann'' = Some (Raw []) \<and> table s' SessionBucket ''tok'' = None \<and>
    fst (admin_CheckToken ''key'' s') = Ret ()"
proof -
  have net: "net_ok demo_net" by (simp add: demo_net_def net_ok_def)
  have names: "UserBucket \<in> set server_buckets - {SessionBucket, RiverBucket, AdminBucket}" "AdminBucket \<in> set server_buckets"
    by (simp_all add: server_bucket_defs)
  obtain routes s' where run: "rest_Bind demo_net demo_source None ''sixteen bytes 16'' nil_uuid demo_used_db = (Ret routes, [], s')"
    and kept: "bkt_at [UserBucket] s' = Some (child UserBucket demo_used_db)" "bkt_at [AdminBucket] s' = Some (child AdminBucket demo_used_db)"
    and sess: "bkt_at [SessionBucket] s' = Some empty_bucket"
    using startup_state [OF demo_used_db_facts(1) net, of demo_source None "''sixteen bytes 16''" nil_uuid] demo_used_db_facts(2) names(1)
    by (auto simp del: bkt_at.simps)
  have child: "bkt_at [b] demo_used_db = Some (child b demo_used_db)" if "table demo_used_db b k \<noteq> None" for b k
    using that by (auto simp: table_def child_def split: option.splits entry.splits)
  have "table s' UserBucket = table demo_used_db UserBucket"
    using kept(1) child [of UserBucket "''ann''"] demo_used_db_facts(5) by (intro table_of_bkt) simp
  moreover have "fst (admin_CheckToken ''key'' s') = Ret ()"
    using kept(2) child [OF demo_used_db_facts(2)] demo_used_db_facts(3) admin_CheckToken_cong [of s' demo_used_db] by simp
  moreover have "table s' SessionBucket ''tok'' = None" using sess by (simp add: table_def Bucket_Get_def del: bkt_at.simps)
  ultimately show ?thesis using run demo_used_db_facts(5) by (intro exI [of _ routes] exI [of _ s']) simp
qed

lemma Bind_routes:
  assumes "rest_Bind net source apiKey newToken salt s = (Ret routes, log, s')"
  shows "routes = rest_SourceInfo_Bind source @ rest_Incept_Bind @ rest_Token_Bind @ rest_Profile_Bind
      @ stream_routes @ convo_routes @ task_routes @ admin_routes @ rest_Notif_Bind"
  using assms
  by (auto simp: rest_Bind_def rest_Stream_Bind_def rest_Convo_Bind_def rest_Task_Bind_def rest_Admin_Bind_def
      log_defs db_bind_def db_return_def split: prod.splits go.splits)

text \<open>
  C2 (routes_gated).  The table of routes that \<^verbatim>\<open>rest.Bind\<close> builds has no route twice, and
  every route but reading the source information, inception and login answers a request
  without a stored session token and without the admin token by 400 or 401, without changing
  anything.
\<close>

theorem routes_gated:
  assumes "rest_Bind net source apiKey newToken salt s = (Ret routes, log, s')"
    and "has_tbl SessionBucket (sv_db sv)" and "unauthenticated r sv"
  shows "distinct (map fst routes) \<and>
    (\<forall>(mp, h) \<in> set routes. mp \<notin> set public_routes \<longrightarrow> (\<exists>rsp. h x r sv = (rsp, sv) \<and> refused rsp))"
proof -
  note routes = Bind_routes [OF assms(1)]
  note table = rest_SourceInfo_Bind_def rest_Incept_Bind_def rest_Token_Bind_def rest_Profile_Bind_def
    stream_routes_def convo_routes_def task_routes_def admin_routes_def rest_Notif_Bind_def
  have "distinct (map fst routes)" by (simp add: routes table)
  moreover have "\<forall>(mp, h) \<in> set routes. mp \<notin> set public_routes \<longrightarrow> (\<exists>rsp. h x r sv = (rsp, sv) \<and> refused rsp)"
    using gates_refuse [OF assms(2,3)] by (simp add: routes table public_routes_def)
  ultimately show ?thesis ..
qed

lemma demo_unauthenticated: "unauthenticated no_request sv"
  by (simp add: unauthenticated_def no_session_def no_request_def mw_GetToken_def strings_Fields_def mw_GetWSToken_def
      strings_Split_def)

theorem routes_gated_witness:
  "\<exists>routes log s'. rest_Bind demo_net demo_source None nil_uuid nil_uuid empty_bucket = (Ret routes, log, s') \<and>
    (\<forall>x. \<forall>(mp, h) \<in> set routes. mp \<notin> set public_routes \<longrightarrow>
       (\<exists>rsp. h x no_request \<lparr>sv_db = s', sv_out = []\<rparr> = (rsp, \<lparr>sv_db = s', sv_out = []\<rparr>) \<and> refused rsp))"
proof -
  have "net_ok demo_net" by (simp add: demo_net_def net_ok_def)
  from Bind_started [OF restartable_empty this] obtain routes log s' where
    run: "rest_Bind demo_net demo_source None nil_uuid nil_uuid empty_bucket = (Ret routes, log, s')"
    and "started None nil_uuid empty_bucket s'" by blast
  then have "has_tbl SessionBucket (sv_db \<lparr>sv_db = s', sv_out = []\<rparr>)"
    by (simp add: started_def has_tbl_def flat_bucket_def empty_bucket_def split: option.splits del: bkt_at.simps)
  with routes_gated [OF run _ demo_unauthenticated] run show ?thesis by blast
qed

end
