(* ===== verification/Sg_Main.thy ===== *)
theory Sg_Main
  imports Rest_Startup
begin

text \<open>
  The command \<^verbatim>\<open>sg\<close> (\<^verbatim>\<open>sg/main.go\<close>, \<^verbatim>\<open>sg/serve.go\<close>): its command line, read as package \<^verbatim>\<open>flag\<close>
  of the standard library does, the choice among the four ways of serving, and what the
  database, the log and the server are when it starts to listen.  The database file
  is opened by a parameter, since \<^verbatim>\<open>bolt.Open\<close> and the file system are outside the program.
\<close>

section \<open>The command line\<close>

record flags =
  fl_Address :: string
  fl_Port :: string
  fl_DBAddr :: string
  fl_CertFile :: string
  fl_KeyFile :: string
  fl_ConfFile :: string
  fl_SourceLocation :: string
  fl_DevMode :: bool
  fl_RegenKey :: bool

definition flag_defaults :: flags where
  "flag_defaults = \<lparr>fl_Address = ''127.0.0.1'', fl_Port = '':8080'', fl_DBAddr = ''my.db'', fl_CertFile = [],
     fl_KeyFile = ''cert.key'', fl_ConfFile = ''conf.toml'',
     fl_SourceLocation = ''https://github.com/synapse-garden/sg-proto'', fl_DevMode = False, fl_RegenKey = False\<rparr>"

definition strconv_ParseBool :: "string \<Rightarrow> bool option" where
  "strconv_ParseBool s =
     (if s \<in> set [''1'', ''t'', ''T'', ''true'', ''TRUE'', ''True''] then Some True
      else if s \<in> set [''0'', ''f'', ''F'', ''false'', ''FALSE'', ''False''] then Some False
      else None)"

text \<open>A flag by its name: a text or a switch, with what setting it does.\<close>

datatype flag_var = StringVar "string \<Rightarrow> flags \<Rightarrow> flags" | BoolVar "bool \<Rightarrow> flags \<Rightarrow> flags"

definition flag_lookup :: "string \<Rightarrow> flag_var option" where
  "flag_lookup = map_of
     [(''addr'', StringVar (\<lambda>v. fl_Address_update (\<lambda>_. v))), (''port'', StringVar (\<lambda>v. fl_Port_update (\<lambda>_. v))),
      (''db'', StringVar (\<lambda>v. fl_DBAddr_update (\<lambda>_. v))), (''cert'', StringVar (\<lambda>v. fl_CertFile_update (\<lambda>_. v))),
      (''key'', StringVar (\<lambda>v. fl_KeyFile_update (\<lambda>_. v))), (''cfg'', StringVar (\<lambda>v. fl_ConfFile_update (\<lambda>_. v))),
      (''source'', StringVar (\<lambda>v. fl_SourceLocation_update (\<lambda>_. v))),
      (''dev'', BoolVar (\<lambda>v. fl_DevMode_update (\<lambda>_. v))), (''regen-key'', BoolVar (\<lambda>v. fl_RegenKey_update (\<lambda>_. v)))]"

text \<open>The name of a flag and its value after an equals sign, which is not looked for in the first place.\<close>

definition flag_split :: "string \<Rightarrow> string \<times> string option" where
  "flag_split name =
     (let n = take 1 name @ takeWhile (\<lambda>c. c \<noteq> CHR ''='') (drop 1 name)
      in (n, if n = name then None else Some (drop (Suc (length n)) name)))"

text \<open>
  \<^verbatim>\<open>flag.Parse\<close>.  \<open>None\<close> is the end of the process, with the usage; the first argument that is not a
  flag ends the parsing.
\<close>

fun flag_Parse :: "string list \<Rightarrow> flags \<Rightarrow> flags option" where
  "flag_Parse [] f = Some f"
| "flag_Parse (s # args) f =
     (if length s < 2 \<or> hd s \<noteq> CHR ''-'' then Some f
      else if s = ''--'' then Some f
      else
        (let name = (if s ! 1 = CHR ''-'' then drop 2 s else drop 1 s)
         in if name = [] \<or> hd name = CHR ''-'' \<or> hd name = CHR ''='' then None
            else
              (case flag_split name of (n, val) \<Rightarrow>
                 (case flag_lookup n of
                    None \<Rightarrow> None
                  | Some (BoolVar set') \<Rightarrow>
                      (case val of
                         None \<Rightarrow> flag_Parse args (set' True f)
                       | Some v \<Rightarrow> (case strconv_ParseBool v of None \<Rightarrow> None | Some b \<Rightarrow> flag_Parse args (set' b f)))
                  | Some (StringVar set') \<Rightarrow>
                      (case val of
                         Some v \<Rightarrow> flag_Parse args (set' v f)
                       | None \<Rightarrow> (case args of [] \<Rightarrow> None | v # rest \<Rightarrow> flag_Parse rest (set' v f)))))))"

section \<open>Serving\<close>

text \<open>
  How the process goes on: it has left with the usage, with \<^verbatim>\<open>log.Fatal\<close>, with a panic, or it
  listens at an address, with the files of a certificate when it uses TLS.
\<close>

datatype outcome =
    UsageExit
  | Fatal string
  | Crashed
  | Listening string "(string \<times> string) option" "route list"

definition bind_failed :: string where "bind_failed = ''failed to bind on DB''"

definition bound :: "(route list \<Rightarrow> outcome) \<Rightarrow> string \<Rightarrow> route list go \<times> log_line list \<times> db \<Rightarrow> outcome \<times> log_line list \<times> db" where
  "bound listen banner r =
     (case r of
        (Ret router, log, s) \<Rightarrow> (listen router, log @ [Line banner], s)
      | (Fail e, log, s) \<Rightarrow> (Fatal bind_failed, log, s)
      | (Panic, log, s) \<Rightarrow> (Crashed, log, s))"

text \<open>\<open>bnd\<close> is \<^verbatim>\<open>rest.Bind\<close> with its sources of randomness and its sockets.\<close>

type_synonym binding = "SourceInfo \<Rightarrow> Token option \<Rightarrow> route list logop"

definition serveInsecure :: "binding \<Rightarrow> db \<Rightarrow> Token option \<Rightarrow> string \<Rightarrow> string \<Rightarrow> SourceInfo \<Rightarrow> outcome \<times> log_line list \<times> db" where
  "serveInsecure bnd s apiKey addr port source =
     bound (Listening (addr @ port) None) (''SG Proto serving INSECURELY at http://'' @ addr @ port) (bnd source apiKey s)"

definition serveSecure :: "binding \<Rightarrow> db \<Rightarrow> Token option \<Rightarrow> string \<Rightarrow> string \<Rightarrow> string \<Rightarrow> string \<Rightarrow> SourceInfo \<Rightarrow> outcome \<times> log_line list \<times> db" where
  "serveSecure bnd s apiKey addr port cert key source =
     bound (Listening (addr @ port) (Some (cert, key))) (''SG Proto serving at https://'' @ addr @ port) (bnd source apiKey s)"

definition devServeInsecure :: "binding \<Rightarrow> db \<Rightarrow> Token option \<Rightarrow> string \<Rightarrow> string \<Rightarrow> SourceInfo \<Rightarrow> outcome \<times> log_line list \<times> db" where
  "devServeInsecure bnd s apiKey addr port source =
     bound (Listening (addr @ port) None) (''SG Proto serving INSECURELY in dev mode at http://'' @ addr @ port) (bnd source apiKey s)"

definition devServeSecure :: "binding \<Rightarrow> db \<Rightarrow> Token option \<Rightarrow> string \<Rightarrow> string \<Rightarrow> string \<Rightarrow> string \<Rightarrow> SourceInfo \<Rightarrow> outcome \<times> log_line list \<times> db" where
  "devServeSecure bnd s apiKey addr port cert key source =
     bound (Listening (addr @ port) (Some (cert, key))) (''SG Proto hosting in dev mode at https://'' @ addr @ port) (bnd source apiKey s)"

definition SourceLicense :: string where "SourceLicense = ''Affero GPL V3''"
definition Licensee :: string where "Licensee = ''SynapseGarden 2017''"

definition source_of :: "flags \<Rightarrow> SourceInfo" where
  "source_of f = \<lparr>src_Version = VerCurrent, src_License = SourceLicense, src_LicensedTo = Licensee,
     src_Location = fl_SourceLocation f\<rparr>"

text \<open>
  \<open>u\<close> is what \<^verbatim>\<open>uuid.NewV4\<close> returns for the key; \<open>newToken\<close> and \<open>salt\<close> are what it
  returns inside \<^verbatim>\<open>rest.Bind\<close>.  The result is the outcome, the log and the
  database, which is missing when it was not opened.
\<close>

definition sg_main :: "(string \<Rightarrow> db go) \<Rightarrow> net \<Rightarrow> uuid \<Rightarrow> uuid \<Rightarrow> uuid \<Rightarrow> string list \<Rightarrow> outcome \<times> log_line list \<times> db option" where
  "sg_main bolt_Open net newToken salt u args =
     (case flag_Parse args flag_defaults of
        None \<Rightarrow> (UsageExit, [], None)
      | Some f \<Rightarrow>
          (case bolt_Open (fl_DBAddr f) of
             Fail e \<Rightarrow> (Fatal ''unable to open Bolt database'', [], None)
           | Panic \<Rightarrow> (Crashed, [], None)
           | Ret s \<Rightarrow>
               (let bnd = (\<lambda>source apiKey. rest_Bind net source apiKey newToken salt);
                    source = source_of f;
                    key = (if fl_RegenKey f then Some u else None);
                    log = (if fl_RegenKey f then [key_line u] else []);
                    addr = fl_Address f; port = fl_Port f; cert = fl_CertFile f; kf = fl_KeyFile f;
                    (out, lines, s') =
                      (if fl_SourceLocation f = [] \<and> \<not> fl_DevMode f then
                         (Fatal ''must provide a source location using -source'', [], s)
                       else if fl_DevMode f \<and> cert = [] then devServeInsecure bnd s key addr port source
                       else if fl_DevMode f then devServeSecure bnd s key addr port cert kf source
                       else if cert = [] then serveInsecure bnd s key addr port source
                       else serveSecure bnd s key addr port cert kf source)
                in (out, log @ lines, Some s'))))"

section \<open>Properties\<close>

lemmas serve_defs = serveInsecure_def serveSecure_def devServeInsecure_def devServeSecure_def bound_def

lemma AuthAdmin_key:
  assumes "admin_CheckToken k (sv_db sv) = (Ret (), sv_db sv)" and "k \<noteq> []" and "rq_AuthHeader r = token_header AdminType k"
  shows "mw_AuthAdmin h r sv = h r sv"
  using assms GetToken_header [of AdminType k] by (simp add: mw_AuthAdmin_def sv_simps)

lemma main_listens:
  assumes "flag_Parse args flag_defaults = Some f" and "bolt_Open (fl_DBAddr f) = Ret s"
    and "\<not> (fl_SourceLocation f = [] \<and> \<not> fl_DevMode f)"
    and "rest_Bind net (source_of f) (if fl_RegenKey f then Some u else None) newToken salt s = (Ret routes, log, s')"
  shows "\<exists>banner. sg_main bolt_Open net newToken salt u args =
    (Listening (fl_Address f @ fl_Port f) (if fl_CertFile f = [] then None else Some (fl_CertFile f, fl_KeyFile f)) routes,
     (if fl_RegenKey f then [key_line u] else []) @ log @ [Line banner], Some s')"
  using assms(3) unfolding sg_main_def assms(1,2) option.case go.case Let_def
  by (cases "fl_DevMode f"; cases "fl_CertFile f = []") (simp_all add: serve_defs assms(4) split del: if_split)

text \<open>
  C13 (main_serves).  The command, on a database that the server can be started on and with
  working sockets: without a source location and outside of developer mode it ends with an
  error and leaves the database alone.  Otherwise it listens at the given address and port,
  with TLS exactly if a certificate is given, on a database that has been started.  Its log
  has the line of the server, after the line of a new admin key if there is one: with
  \<^verbatim>\<open>-regen-key\<close>, or when the database has no admin token.  Whoever sends the key as printed in
  the \<^verbatim>\<open>Authorization\<close> header of a request gets through to the handlers of the admin API; with no
  new key the admin bucket is as it was.
\<close>

theorem main_serves:
  assumes "flag_Parse args flag_defaults = Some f" and "bolt_Open (fl_DBAddr f) = Ret s"
    and "restartable s" and "net_ok net" and "u \<noteq> []" and "newToken \<noteq> []"
  shows "\<exists>out log s'. sg_main bolt_Open net newToken salt u args = (out, log, Some s') \<and>
    (if fl_SourceLocation f = [] \<and> \<not> fl_DevMode f then
       out = Fatal ''must provide a source location using -source'' \<and> s' = s
     else
       (\<exists>routes h. out = Listening (fl_Address f @ fl_Port f)
            (if fl_CertFile f = [] then None else Some (fl_CertFile f, fl_KeyFile f)) routes \<and>
          ((''GET'', ''/source''), h) \<in> set routes \<and> (\<forall>x r sv. h x r sv = (OkBody (enc_SourceInfo (source_of f)), sv))) \<and>
       started (if fl_RegenKey f then Some u else None) newToken s s' \<and>
       (\<exists>banner.
          if fl_RegenKey f \<or> table s AdminBucket ''token'' = None then
            (let key = (if fl_RegenKey f then u else newToken)
             in log = [Line (''new admin key generated: `'' @ base64_Std_Encode key @ ''`''), Line banner] \<and>
                (\<forall>h r sv. sv_db sv = s' \<and> rq_AuthHeader r = ''Admin '' @ base64_Std_Encode key \<longrightarrow>
                   mw_AuthAdmin h r sv = h r sv))
          else log = [Line banner] \<and> bkt_at [AdminBucket] s' = Some (child AdminBucket s)))"
proof -
  let ?key = "if fl_RegenKey f then Some u else None"
  obtain routes s' where b: "rest_Bind net (source_of f) ?key newToken salt s = (Ret routes, setup_log ?key newToken s, s')"
      "started ?key newToken s s'"
    using Bind_started [OF assms(3,4)] by blast
  obtain h where h: "((''GET'', ''/source''), h) \<in> set routes" "\<forall>x r sv. h x r sv = (OkBody (enc_SourceInfo (source_of f)), sv)"
    using Bind_routes [OF b(1)] by (auto simp: rest_SourceInfo_Bind_def)
  have adm: "mw_AuthAdmin h r sv = h r sv"
    if "fl_RegenKey f \<or> table s AdminBucket ''token'' = None" "sv_db sv = s'"
      "rq_AuthHeader r = ''Admin '' @ base64_Std_Encode (if fl_RegenKey f then u else newToken)" for h r sv
    using b(2) that assms(5,6)
    by (intro AuthAdmin_key [of "if fl_RegenKey f then u else newToken"])
      (auto simp: started_def token_header_def token_kinds auth_Token_String_def simp del: bkt_at.simps)
  show ?thesis
  proof (cases "fl_SourceLocation f = [] \<and> \<not> fl_DevMode f")
    case True
    then show ?thesis by (simp add: sg_main_def assms(1,2) Let_def)
  next
    case False
    from main_listens [where bolt_Open = bolt_Open, OF assms(1,2) this b(1)] obtain banner where
      run: "sg_main bolt_Open net newToken salt u args = (Listening (fl_Address f @ fl_Port f)
        (if fl_CertFile f = [] then None else Some (fl_CertFile f, fl_KeyFile f)) routes,
       (if fl_RegenKey f then [key_line u] else []) @ setup_log ?key newToken s @ [Line banner], Some s')" ..
    have kept: "bkt_at [AdminBucket] s' = Some (child AdminBucket s)"
      if "\<not> (fl_RegenKey f \<or> table s AdminBucket ''token'' = None)"
      using b(2) that by (simp add: started_def del: bkt_at.simps)
    have log: "if fl_RegenKey f \<or> table s AdminBucket ''token'' = None then
            (let key = (if fl_RegenKey f then u else newToken)
             in (if fl_RegenKey f then [key_line u] else []) @ setup_log ?key newToken s @ [Line banner] =
                  [Line (''new admin key generated: `'' @ base64_Std_Encode key @ ''`''), Line banner] \<and>
                (\<forall>h r sv. sv_db sv = s' \<and> rq_AuthHeader r = ''Admin '' @ base64_Std_Encode key \<longrightarrow>
                   mw_AuthAdmin h r sv = h r sv))
          else (if fl_RegenKey f then [key_line u] else []) @ setup_log ?key newToken s @ [Line banner] = [Line banner] \<and>
            bkt_at [AdminBucket] s' = Some (child AdminBucket s)"
      using adm kept by (auto simp: key_line_def setup_log_def Let_def simp del: bkt_at.simps)
    show ?thesis
      unfolding run if_not_P [OF False]
      by (intro exI conjI, rule refl) (rule refl, rule h(1), rule h(2), rule b(2), rule log)
  qed
qed

definition demo_args :: "string list" where
  "demo_args = [''-addr=0.0.0.0'', ''--cert'', ''sg.pem'', ''-regen-key'', ''-dev=f'', ''extra'', ''-dev'']"

theorem main_serves_witness:
  "\<exists>routes banner s'. sg_main (\<lambda>_. Ret empty_bucket) demo_net nil_uuid nil_uuid ''sixteen bytes 16'' demo_args =
      (Listening ''0.0.0.0:8080'' (Some (''sg.pem'', ''cert.key'')) routes,
       [Line (''new admin key generated: `'' @ base64_Std_Encode ''sixteen bytes 16'' @ ''`''), Line banner], Some s') \<and>
    restartable s'"
proof -
  have f: "flag_Parse demo_args flag_defaults =
      Some (flag_defaults\<lparr>fl_Address := ''0.0.0.0'', fl_CertFile := ''sg.pem'', fl_RegenKey := True, fl_DevMode := False\<rparr>)"
    by (simp add: demo_args_def flag_split_def flag_lookup_def strconv_ParseBool_def)
  have net: "net_ok demo_net" by (simp add: demo_net_def net_ok_def)
  show ?thesis
    using main_serves [OF f _ restartable_empty net, of "\<lambda>_. Ret empty_bucket" "''sixteen bytes 16''" nil_uuid nil_uuid]
    by (auto simp: flag_defaults_def started_def Let_def nil_uuid_def simp del: bkt_at.simps)
qed

end
