(* ===== verification/Websockets.thy ===== *)
theory Websockets
  imports SG_Prelude
begin

text \<open>
  The package \<^verbatim>\<open>rest/ws\<close>: reading a message from a web socket into a growing buffer
  (\<^verbatim>\<open>ws.DefaultRead\<close>), the loops between a socket and a river (\<^verbatim>\<open>ws/chans.go\<close>) and the
  readers that end when the connection is hung up (\<^verbatim>\<open>ws/hangup.go\<close>).  What the connection's
  \<^verbatim>\<open>Read\<close> returns is an argument, and so is the capacity that \<^verbatim>\<open>append\<close> chooses.
\<close>

section \<open>DefaultRead\<close>

definition DefaultBuffer :: nat where "DefaultBuffer = 64"

text \<open>
  The loop.  A slice is its backing array \<open>mem\<close>, as long as its capacity, and its length \<open>l\<close>.
  \<open>read k m\<close> is what the \<open>k\<close>-th call of \<^verbatim>\<open>Read\<close> puts into \<open>m\<close> free bytes and the error it
  returns.  \<^verbatim>\<open>append\<close> copies \<open>l\<close> bytes and the zeroes after them into an array of capacity
  \<open>grow\<close>.  The loop may run forever, so its result is an option.
\<close>

partial_function (option) read_loop ::
    "(nat \<Rightarrow> nat) \<Rightarrow> (nat \<Rightarrow> nat \<Rightarrow> bytes \<times> err option) \<Rightarrow> nat \<Rightarrow> bytes \<Rightarrow> nat \<Rightarrow> nat \<Rightarrow> (bytes \<times> err option) option" where
  "read_loop grow read k mem l n =
     (let (bs, e) = read k (length mem - n);
          mem' = take n mem @ bs @ drop (n + length bs) mem;
          n' = n + length bs
      in if n' = length mem then
           (let l' = l + 2 * length mem
            in read_loop grow read (Suc k) (take l mem' @ replicate (grow l' - l) (CHR 0x00)) l' n')
         else Some (take n' mem', e))"

definition ws_DefaultRead ::
    "(nat \<Rightarrow> nat) \<Rightarrow> (nat \<Rightarrow> nat \<Rightarrow> bytes \<times> err option) \<Rightarrow> (bytes \<times> bool \<times> err option) option" where
  "ws_DefaultRead grow read =
     map_option (\<lambda>(bs, e). (bs, True, e))
       (read_loop grow read 0 (replicate DefaultBuffer (CHR 0x00)) DefaultBuffer 0)"

section \<open>The loops of a connection\<close>

definition io_EOF :: err where "io_EOF = SockErr ''EOF''"

fun errors_Cause :: "err \<Rightarrow> err" where
  "errors_Cause (Wrapped m e) = errors_Cause e"
| "errors_Cause e = e"

text \<open>One turn of \<^verbatim>\<open>ReadSend\<close>: whether \<^verbatim>\<open>fail\<close> is closed, what the reader returns, and what
  \<^verbatim>\<open>Send\<close> returns when it is called.\<close>

record read_turn =
  rt_failed :: bool
  rt_bytes :: bytes
  rt_ok :: bool
  rt_err :: "err option"
  rt_send :: "err option"

datatype ws_out = Sent bytes | ToClient err

text \<open>The run over the turns that happen; the flag says that the loop has ended.\<close>

fun ws_ReadSend :: "read_turn list \<Rightarrow> ws_out list \<times> bool" where
  "ws_ReadSend [] = ([], False)"
| "ws_ReadSend (t # ts) =
     (if rt_failed t then ([], True)
      else (case rt_err t of
              Some e \<Rightarrow>
                if errors_Cause e = io_EOF then ([], True)
                else if rt_ok t then ([], True)
                else (case ws_ReadSend ts of (out, b) \<Rightarrow> (ToClient (Wrapped ''malformed message'' e) # out, b))
            | None \<Rightarrow>
                if \<not> rt_ok t then
                  (case ws_ReadSend ts of (out, b) \<Rightarrow> (ToClient (Errorf ''malformed message'') # out, b))
                else if rt_send t \<noteq> None then ([Sent (rt_bytes t)], True)
                else (case ws_ReadSend ts of (out, b) \<Rightarrow> (Sent (rt_bytes t) # out, b))))"

text \<open>\<^verbatim>\<open>RecvWrite\<close>: what is received is written until a receive or a write fails.  A turn is what
  \<^verbatim>\<open>Recv\<close> returns, with the error of the \<^verbatim>\<open>Write\<close> after it; the result lists the messages
  that were written.\<close>

fun ws_RecvWrite :: "(bytes go \<times> err option) list \<Rightarrow> bytes list \<times> bool" where
  "ws_RecvWrite [] = ([], False)"
| "ws_RecvWrite ((Ret bs, w) # rs) =
     (if w \<noteq> None then ([], True)
      else (case ws_RecvWrite rs of (out, b) \<Rightarrow> (bs # out, b)))"
| "ws_RecvWrite (_ # rs) = ([], True)"

text \<open>
  \<^verbatim>\<open>BindRead\<close>: the loop over the river is that of \<^verbatim>\<open>RecvWrite\<close>; beside it a goroutine discards
  what the client sends and closes the river when \<^verbatim>\<open>Receive\<close> returns \<^verbatim>\<open>io.EOF\<close>, and goes on at
  any other error.  The flag says that the goroutine has ended.
\<close>

fun ws_BindRead_discard :: "err option list \<Rightarrow> bool" where
  "ws_BindRead_discard [] = False"
| "ws_BindRead_discard (e # es) = (e = Some io_EOF \<or> ws_BindRead_discard es)"

lemma ws_BindRead_discard_iff: "ws_BindRead_discard es \<longleftrightarrow> Some io_EOF \<in> set es"
  by (induction es) auto

section \<open>Hanging up\<close>

text \<open>
  \<^verbatim>\<open>HangupSender.Read\<close>: \<open>before\<close> and \<open>after\<close> say whether the signal channel was closed when the
  call began and when the reader returned.  \<^verbatim>\<open>hangupRecver.Recv\<close> checks only before.
\<close>

definition ws_HangupSender_Read ::
    "bool \<Rightarrow> bool \<Rightarrow> bytes \<times> bool \<times> err option \<Rightarrow> bytes \<times> bool \<times> err option" where
  "ws_HangupSender_Read before after sr =
     (if before then ([], True, Some (Wrapped ''stream hung up'' io_EOF))
      else if after then ([], True, Some (Wrapped ''stream hung up'' io_EOF))
      else sr)"

definition ws_hangupRecver_Recv :: "bool \<Rightarrow> bytes go \<Rightarrow> bytes go" where
  "ws_hangupRecver_Recv before r = (if before then Fail (Wrapped ''stream hung up'' io_EOF) else r)"

text \<open>\<^verbatim>\<open>Send\<close> closes the signal channel, which panics when it is closed already.\<close>

definition ws_Hangup_Send :: "bool \<Rightarrow> err option \<Rightarrow> unit go \<times> bool" where
  "ws_Hangup_Send closed r = (if closed then Panic else (case r of None \<Rightarrow> Ret () | Some e \<Rightarrow> Fail e), True)"

section \<open>What DefaultRead returns\<close>

text \<open>Length and capacity of the buffer in the \<open>i\<close>-th turn, and the free bytes in it.\<close>

fun buf_size :: "(nat \<Rightarrow> nat) \<Rightarrow> nat \<Rightarrow> nat \<times> nat" where
  "buf_size grow 0 = (DefaultBuffer, DefaultBuffer)"
| "buf_size grow (Suc i) = (let l' = fst (buf_size grow i) + 2 * snd (buf_size grow i) in (l', grow l'))"

definition filled :: "(nat \<Rightarrow> nat) \<Rightarrow> nat \<Rightarrow> nat" where
  "filled grow i = (case i of 0 \<Rightarrow> 0 | Suc j \<Rightarrow> snd (buf_size grow j))"

definition room :: "(nat \<Rightarrow> nat) \<Rightarrow> nat \<Rightarrow> nat" where
  "room grow i = snd (buf_size grow i) - filled grow i"

text \<open>All bytes the first \<open>i\<close> reads delivered, and the positions whose bytes a growth has dropped.\<close>

definition received :: "(nat \<Rightarrow> nat) \<Rightarrow> (nat \<Rightarrow> nat \<Rightarrow> bytes \<times> err option) \<Rightarrow> nat \<Rightarrow> bytes" where
  "received grow read i = concat (map (\<lambda>k. fst (read k (room grow k))) [0..<i])"

definition dropped :: "(nat \<Rightarrow> nat) \<Rightarrow> nat \<Rightarrow> nat \<Rightarrow> bool" where
  "dropped grow i p \<longleftrightarrow> (\<exists>k<i. fst (buf_size grow k) \<le> p \<and> p < snd (buf_size grow k))"

definition zeroed :: "(nat \<Rightarrow> nat) \<Rightarrow> nat \<Rightarrow> bytes \<Rightarrow> bytes" where
  "zeroed grow i bs = map (\<lambda>p. if dropped grow i p then CHR 0x00 else bs ! p) [0..<length bs]"

lemma received_Suc: "received grow read (Suc i) = received grow read i @ fst (read i (room grow i))"
  by (simp add: received_def)

lemma length_zeroed [simp]: "length (zeroed grow i bs) = length bs"
  by (simp add: zeroed_def)

lemma nth_zeroed [simp]: "p < length bs \<Longrightarrow> zeroed grow i bs ! p = (if dropped grow i p then CHR 0x00 else bs ! p)"
  by (simp add: zeroed_def)

lemma buf_size_bounds:
  assumes "\<And>n. n \<le> grow n"
  shows "0 < fst (buf_size grow i)" "fst (buf_size grow i) \<le> snd (buf_size grow i)" "filled grow i < snd (buf_size grow i)"
    "filled grow i \<le> filled grow (Suc i)"
proof -
  have le: "0 < fst (buf_size grow i) \<and> fst (buf_size grow i) \<le> snd (buf_size grow i)" for i
    using assms by (induction i) (auto simp: DefaultBuffer_def Let_def)
  then show "0 < fst (buf_size grow i)" "fst (buf_size grow i) \<le> snd (buf_size grow i)" by blast+
  show less: "filled grow i < snd (buf_size grow i)"
  proof (cases i)
    case (Suc j)
    have "snd (buf_size grow j) < fst (buf_size grow j) + 2 * snd (buf_size grow j)" using le [of j] by linarith
    also have "\<dots> \<le> grow \<dots>" by (rule assms)
    finally show ?thesis by (simp add: Suc filled_def Let_def)
  qed (simp add: filled_def DefaultBuffer_def)
  then show "filled grow i \<le> filled grow (Suc i)" by (simp add: filled_def [of _ "Suc i"])
qed

lemma dropped_Suc:
  assumes "\<And>n. n \<le> grow n" and "p < snd (buf_size grow i)"
  shows "dropped grow (Suc i) p \<longleftrightarrow> dropped grow i p \<or> fst (buf_size grow i) \<le> p"
  using assms(2) by (auto simp: dropped_def less_Suc_eq)

lemma dropped_filled:
  assumes "\<And>n. n \<le> grow n" and "dropped grow i p"
  shows "p < filled grow i"
proof -
  obtain k where k: "k < i" "p < snd (buf_size grow k)" using assms(2) by (auto simp: dropped_def)
  have "filled grow (Suc k) \<le> filled grow i"
    by (rule lift_Suc_mono_le [of "filled grow"]) (use buf_size_bounds(4) [OF assms(1)] k(1) in auto)
  then show ?thesis using k(2) by (simp add: filled_def)
qed

text \<open>One growth of a full buffer: the bytes from the old length on are lost.\<close>

lemma grown_buffer:
  assumes grow: "\<And>n. n \<le> grow n"
    and mem: "length mem = snd (buf_size grow i)" "mem = zeroed grow i rcv" and m: "length mem \<le> grow m"
  shows "take (length mem) (take (fst (buf_size grow i)) mem @ replicate (grow m - fst (buf_size grow i)) (CHR 0x00)) =
      zeroed grow (Suc i) rcv"
proof (rule nth_equalityI)
  let ?L = "fst (buf_size grow i)" and ?C = "snd (buf_size grow i)"
  have n: "?L \<le> ?C" using buf_size_bounds [OF grow] by blast
  have len: "length rcv = ?C" using mem by (metis length_zeroed)
  show "length (take (length mem) (take ?L mem @ replicate (grow m - ?L) (CHR 0x00))) = length (zeroed grow (Suc i) rcv)"
    using m mem(1) n len by simp
  fix p assume "p < length (take (length mem) (take ?L mem @ replicate (grow m - ?L) (CHR 0x00)))"
  then have p: "p < ?C" using mem(1) by simp
  have at: "mem ! p = (if dropped grow i p then CHR 0x00 else rcv ! p)"
    using p len by (subst mem(2)) simp
  show "take (length mem) (take ?L mem @ replicate (grow m - ?L) (CHR 0x00)) ! p = zeroed grow (Suc i) rcv ! p"
    using at dropped_Suc [OF grow p] p n mem(1) len m by (auto simp: nth_append)
qed

lemma zeroed_append:
  assumes "\<And>n. n \<le> grow n" "length rcv = filled grow i"
  shows "zeroed grow i rcv @ bs = zeroed grow i (rcv @ bs)"
proof (rule nth_equalityI)
  fix p assume "p < length (zeroed grow i rcv @ bs)"
  then show "(zeroed grow i rcv @ bs) ! p = zeroed grow i (rcv @ bs) ! p"
    using dropped_filled [where grow = grow and i = i and p = p, OF assms(1)] assms(2) by (auto simp: nth_append)
qed simp

text \<open>The state of the loop in its \<open>i\<close>-th turn, when all reads before it have filled the buffer.\<close>

lemma read_loop_turn:
  assumes grow: "\<And>n. n \<le> grow n"
    and full: "\<forall>k<i. length (fst (read k (room grow k))) = room grow k"
  shows "length (received grow read i) = filled grow i \<and>
    (\<exists>mem. read_loop grow read 0 (replicate DefaultBuffer (CHR 0x00)) DefaultBuffer 0 =
        read_loop grow read i mem (fst (buf_size grow i)) (filled grow i) \<and>
      length mem = snd (buf_size grow i) \<and> take (filled grow i) mem = zeroed grow i (received grow read i))"
  using full
proof (induction i)
  case 0
  then show ?case by (auto simp: filled_def received_def zeroed_def intro!: exI [of _ "replicate DefaultBuffer (CHR 0x00)"])
next
  case (Suc i)
  let ?L = "fst (buf_size grow i)" and ?C = "snd (buf_size grow i)" and ?n = "filled grow i"
  let ?bs = "fst (read i (room grow i))" and ?L' = "fst (buf_size grow i) + 2 * snd (buf_size grow i)"
  obtain mem where len: "length (received grow read i) = ?n"
    and run: "read_loop grow read 0 (replicate DefaultBuffer (CHR 0x00)) DefaultBuffer 0 = read_loop grow read i mem ?L ?n"
    and mem: "length mem = ?C" "take ?n mem = zeroed grow i (received grow read i)"
    using Suc by auto
  have n: "?n < ?C" "?L \<le> ?C" using buf_size_bounds [OF grow] by blast+
  have bs: "length ?bs = ?C - ?n" using Suc.prems by (simp add: room_def)
  define mem' where "mem' = take ?n mem @ ?bs"
  define mem'' where "mem'' = take ?L mem' @ replicate (grow ?L' - ?L) (CHR 0x00)"
  have len': "length mem' = ?C" using n bs mem len by (simp add: mem'_def)
  obtain xs e where rd: "read i (room grow i) = (xs, e)" by force
  have "length mem - ?n = room grow i" by (simp add: mem(1) room_def)
  moreover have "?n + length xs = length mem" using mem(1) bs n by (simp add: rd)
  ultimately have step: "read_loop grow read i mem ?L ?n = read_loop grow read (Suc i) mem'' ?L' ?C"
    using mem(1) by (subst read_loop.simps) (simp add: rd Let_def mem'_def mem''_def)
  have "?L' \<le> grow ?L'" by (rule grow)
  then have len'': "length mem'' = grow ?L'" using len' n by (simp add: mem''_def)
  have "mem' = zeroed grow i (received grow read (Suc i))"
    using zeroed_append [where grow = grow, OF grow len] by (simp add: mem'_def mem(2) received_Suc)
  from grown_buffer [where grow = grow and m = ?L', OF grow len' this] have
    "take ?C mem'' = zeroed grow (Suc i) (received grow read (Suc i))"
    using \<open>?L' \<le> grow ?L'\<close> len' n by (simp add: mem''_def)
  then show ?case
    using run step len bs n len'' by (auto simp: received_Suc filled_def Let_def)
qed

section \<open>Properties\<close>

text \<open>
  C27 (DefaultRead_spec).  \<^verbatim>\<open>DefaultRead\<close> returns at the first read that does not fill the buffer,
  with that read's error; the bytes are all those the reads delivered, in order, except that
  every growth of the buffer overwrites by zeroes what lies between its length and its
  capacity.  If \<^verbatim>\<open>append\<close> never rounds the capacity up, nothing is lost.
\<close>

theorem DefaultRead_spec:
  assumes grow: "\<And>n. n \<le> grow n"
    and full: "\<forall>k<i. length (fst (read k (room grow k))) = room grow k"
    and short: "length (fst (read i (room grow i))) < room grow i"
  shows "ws_DefaultRead grow read =
      Some (zeroed grow i (received grow read (Suc i)), True, snd (read i (room grow i))) \<and>
    ((\<forall>n. grow n = n) \<longrightarrow> zeroed grow i (received grow read (Suc i)) = received grow read (Suc i))"
proof
  let ?n = "filled grow i" and ?C = "snd (buf_size grow i)"
  obtain mem where len: "length (received grow read i) = ?n"
    and run: "read_loop grow read 0 (replicate DefaultBuffer (CHR 0x00)) DefaultBuffer 0 =
      read_loop grow read i mem (fst (buf_size grow i)) ?n"
    and mem: "length mem = ?C" "take ?n mem = zeroed grow i (received grow read i)"
    using read_loop_turn [where grow = grow and read = read, OF grow full] by blast
  obtain bs e where rd: "read i (room grow i) = (bs, e)" by force
  have "length mem - ?n = room grow i" by (simp add: mem(1) room_def)
  moreover have n: "?n + length bs < length mem" using short mem(1) by (simp add: rd) (simp add: room_def)
  ultimately have "read_loop grow read i mem (fst (buf_size grow i)) ?n = Some (take ?n mem @ bs, e)"
    by (subst read_loop.simps) (simp add: rd Let_def)
  moreover have "take ?n mem @ bs = zeroed grow i (received grow read (Suc i))"
    using zeroed_append [where grow = grow, OF grow len] by (simp add: mem(2) received_Suc rd)
  ultimately show "ws_DefaultRead grow read =
      Some (zeroed grow i (received grow read (Suc i)), True, snd (read i (room grow i)))"
    by (simp add: ws_DefaultRead_def run rd)
  have "fst (buf_size grow k) = snd (buf_size grow k)" if "\<forall>n. grow n = n" for k
    using that by (cases k) (simp_all add: Let_def)
  then have "\<not> dropped grow i p" if "\<forall>n. grow n = n" for p using that by (auto simp: dropped_def)
  then show "(\<forall>n. grow n = n) \<longrightarrow> zeroed grow i (received grow read (Suc i)) = received grow read (Suc i)"
    by (auto intro: nth_equalityI)
qed

text \<open>Capacities the runtime may choose: 64, 192 and 576 bytes are size classes of its allocator,
  1728 bytes are rounded up to the next class.\<close>

definition demo_grow :: "nat \<Rightarrow> nat" where
  "demo_grow n = (if n = 1728 then 1792 else n)"

definition demo_read :: "nat \<Rightarrow> nat \<Rightarrow> bytes \<times> err option" where
  "demo_read k m = (if k < 4 then replicate m (CHR ''x'') else [], None)"

lemma demo_sizes:
  "buf_size demo_grow 0 = (64, 64)" "buf_size demo_grow (Suc 0) = (192, 192)" "buf_size demo_grow (Suc (Suc 0)) = (576, 576)"
  "buf_size demo_grow (Suc (Suc (Suc 0))) = (1728, 1792)" "snd (buf_size demo_grow (Suc (Suc (Suc (Suc 0))))) = 5312"
  by (simp_all add: demo_grow_def DefaultBuffer_def Let_def)

lemma less_4: "k < Suc (Suc (Suc (Suc 0))) \<longleftrightarrow> k = 0 \<or> k = Suc 0 \<or> k = Suc (Suc 0) \<or> k = Suc (Suc (Suc 0))"
  by auto

theorem DefaultRead_spec_witness:
  "\<exists>bs. ws_DefaultRead demo_grow demo_read = Some (bs, True, None) \<and> length bs = 1792 \<and>
     bs ! 1727 = CHR ''x'' \<and> bs ! 1728 = CHR 0x00 \<and> bs ! 1791 = CHR 0x00"
proof -
  let ?i = "Suc (Suc (Suc (Suc 0)))"
  let ?bs = "zeroed demo_grow ?i (received demo_grow demo_read (Suc ?i))"
  have rooms: "room demo_grow 0 = 64" "room demo_grow (Suc 0) = 128" "room demo_grow (Suc (Suc 0)) = 384"
      "room demo_grow (Suc (Suc (Suc 0))) = 1216" "room demo_grow ?i = 3520"
    by (simp_all add: room_def filled_def demo_sizes del: buf_size.simps)
  have "ws_DefaultRead demo_grow demo_read = Some (?bs, True, snd (demo_read ?i (room demo_grow ?i)))"
    by (rule DefaultRead_spec [THEN conjunct1]) (auto simp: demo_grow_def rooms less_4 demo_read_def)
  moreover have rec: "received demo_grow demo_read (Suc ?i) = replicate 1792 (CHR ''x'')"
  proof -
    have "received demo_grow demo_read (Suc ?i) =
        replicate 64 (CHR ''x'') @ replicate 128 (CHR ''x'') @ replicate 384 (CHR ''x'') @ replicate 1216 (CHR ''x'')"
      by (simp add: received_def rooms demo_read_def)
    also have "\<dots> = replicate (64 + (128 + (384 + 1216))) (CHR ''x'')" by (simp only: replicate_add)
    finally show ?thesis by simp
  qed
  moreover have "dropped demo_grow ?i p \<longleftrightarrow> 1728 \<le> p \<and> p < 1792" for p
    unfolding dropped_def less_4 conj_disj_distribR ex_disj_distrib simp_thms demo_sizes fst_conv snd_conv by linarith
  ultimately show ?thesis by (intro exI [of _ ?bs]) (simp add: demo_read_def)
qed

end
