(* ===== verification/Sessions.thy ===== *)
theory Sessions
  imports Websockets
begin

text \<open>
  A web socket session as a system of goroutines: \<^verbatim>\<open>ws.Bind\<close> (\<^verbatim>\<open>ws/ws.go\<close>) starts
  \<^verbatim>\<open>WriteErrors\<close>, \<^verbatim>\<open>RecvWrite\<close> and \<^verbatim>\<open>ReadSend\<close> (\<^verbatim>\<open>ws/chans.go\<close>), which share the channels
  \<^verbatim>\<open>errs\<close>, \<^verbatim>\<open>done\<close> and \<^verbatim>\<open>fail\<close> and the connection; every \<^verbatim>\<open>HangupSender.Read\<close>
  (\<^verbatim>\<open>ws/hangup.go\<close>) starts one more that closes the connection when the session is hung up.

  Each goroutine is a step function on the state of the session.  A step is an operation
  between two points at which another goroutine can be scheduled: a channel operation, a
  call of the connection or of the river.  The action names the goroutine and carries what
  the connection or the river returns; a step that is blocked gives \<open>None\<close>.  A session runs
  through any sequence of such steps.
\<close>

section \<open>The state of a session\<close>

text \<open>The points of \<^verbatim>\<open>ReadSend\<close> with \<^verbatim>\<open>HangupSender.Read\<close> inlined: before the check of \<^verbatim>\<open>fail\<close>,
  before the first check of the signal, in the call of the reader, after it returned and
  \<^verbatim>\<open>done\<close> of the watcher was closed, with the result of \<^verbatim>\<open>Read\<close>, sending an error to the
  channel \<^verbatim>\<open>errs\<close>, in the call of \<^verbatim>\<open>Send\<close>, and returned.\<close>

type_synonym read_result = "bytes \<times> bool \<times> err option"

datatype reader = RTop | RCall | RRead | RBack read_result | RGot read_result | RErr read_result err
  | RSend bytes | RDone

datatype recver = VRecv | VWrite bytes | VDone

datatype error_writer = EWait | EWrite err | EDone

text \<open>A goroutine of \<^verbatim>\<open>HangupSender.Read\<close>; the flag says that its channel \<^verbatim>\<open>done\<close> is closed.\<close>

datatype watcher = Waiting bool | Writing | Closing | Gone

datatype bind_point = BWait | BClose | BReturned

text \<open>What was written on the connection.\<close>

datatype frame = Data bytes | ErrorMsg err | HangupMsg

text \<open>\<open>s_turns\<close>, \<open>s_out\<close>, \<open>s_recvs\<close> and \<open>s_wire\<close> record what has happened: the turns of
  \<^verbatim>\<open>ReadSend\<close> and what it sent, the turns of \<^verbatim>\<open>RecvWrite\<close>, and what went to the client.\<close>

record session =
  s_signal :: bool
  s_open :: bool
  s_errs :: "err list"
  s_done :: bool
  s_fail :: bool
  s_reader :: reader
  s_recver :: recver
  s_writer :: error_writer
  s_watchers :: "watcher list"
  s_bind :: bind_point
  s_turns :: "read_turn list"
  s_out :: "ws_out list"
  s_recvs :: "(bytes go \<times> err option) list"
  s_wire :: "frame list"

definition errs_cap :: nat where "errs_cap = 10"

definition ws_Bind :: session where
  "ws_Bind = \<lparr>s_signal = False, s_open = True, s_errs = [], s_done = False, s_fail = False, s_reader = RTop,
     s_recver = VRecv, s_writer = EWait, s_watchers = [], s_bind = BWait, s_turns = [], s_out = [], s_recvs = [], s_wire = []\<rparr>"

section \<open>The goroutines\<close>

text \<open>A turn of \<^verbatim>\<open>ReadSend\<close> is over; with \<open>ends\<close> the function returns, which closes \<^verbatim>\<open>done\<close>.\<close>

definition turn_over :: "bool \<Rightarrow> read_turn \<Rightarrow> ws_out list \<Rightarrow> session \<Rightarrow> session" where
  "turn_over ends t out s =
     s\<lparr>s_turns := s_turns s @ [t], s_out := s_out s @ out, s_reader := (if ends then RDone else RTop),
       s_done := ends\<rparr>"

abbreviation turn :: "read_result \<Rightarrow> err option \<Rightarrow> read_turn" where
  "turn r e \<equiv> \<lparr>rt_failed = False, rt_bytes = fst r, rt_ok = fst (snd r), rt_err = snd (snd r), rt_send = e\<rparr>"

datatype reader_act = RGo | RReturns read_result | RSendReturns "err option"

text \<open>Reading from a closed connection gives an error.  When the reader returns, \<^verbatim>\<open>done\<close> of its
  watcher is closed; those of the earlier ones are closed already.\<close>

fun reader_at :: "reader \<Rightarrow> reader_act \<Rightarrow> session \<Rightarrow> session option" where
  "reader_at RTop RGo s =
     Some (if s_fail s
           then turn_over True \<lparr>rt_failed = True, rt_bytes = [], rt_ok = True, rt_err = None, rt_send = None\<rparr> [] s
           else s\<lparr>s_reader := RCall\<rparr>)"
| "reader_at RCall RGo s =
     Some (if s_signal s then s\<lparr>s_reader := RGot (ws_HangupSender_Read True True ([], True, None))\<rparr>
           else s\<lparr>s_reader := RRead, s_watchers := s_watchers s @ [Waiting False]\<rparr>)"
| "reader_at RRead (RReturns r) s =
     (if s_open s \<or> snd (snd r) \<noteq> None
      then Some (s\<lparr>s_reader := RBack r, s_watchers := map (\<lambda>w. if w = Waiting False then Waiting True else w) (s_watchers s)\<rparr>)
      else None)"
| "reader_at (RBack r) RGo s = Some (s\<lparr>s_reader := RGot (ws_HangupSender_Read False (s_signal s) r)\<rparr>)"
| "reader_at (RGot r) RGo s =
     Some (case snd (snd r) of
             Some e \<Rightarrow> if errors_Cause e = io_EOF then turn_over True (turn r None) [] s
                       else if fst (snd r) then turn_over True (turn r None) [] s
                       else s\<lparr>s_reader := RErr r (Wrapped ''malformed message'' e)\<rparr>
           | None \<Rightarrow> if \<not> fst (snd r) then s\<lparr>s_reader := RErr r (Errorf ''malformed message'')\<rparr>
                     else s\<lparr>s_reader := RSend (fst r)\<rparr>)"
| "reader_at (RErr r e) RGo s =
     (if length (s_errs s) < errs_cap
      then Some (turn_over False (turn r None) [ToClient e] (s\<lparr>s_errs := s_errs s @ [e]\<rparr>))
      else None)"
| "reader_at (RSend bs) (RSendReturns e) s = Some (turn_over (e \<noteq> None) (turn (bs, True, None) e) [Sent bs] s)"
| "reader_at _ _ s = None"

definition ReadSend_step :: "reader_act \<Rightarrow> session \<Rightarrow> session option" where
  "ReadSend_step a s = reader_at (s_reader s) a s"

text \<open>Writing to a closed connection fails.  \<^verbatim>\<open>RecvWrite\<close> closes \<^verbatim>\<open>fail\<close> when it returns.\<close>

datatype recver_act = VGets "bytes go" | VWrites "err option"

fun recver_at :: "recver \<Rightarrow> recver_act \<Rightarrow> session \<Rightarrow> session option" where
  "recver_at VRecv (VGets (Ret bs)) s = Some (s\<lparr>s_recver := VWrite bs\<rparr>)"
| "recver_at VRecv (VGets (Fail e)) s = Some (s\<lparr>s_recver := VDone, s_fail := True, s_recvs := s_recvs s @ [(Fail e, None)]\<rparr>)"
| "recver_at (VWrite bs) (VWrites None) s =
     (if s_open s
      then Some (s\<lparr>s_recver := VRecv, s_wire := s_wire s @ [Data bs], s_recvs := s_recvs s @ [(Ret bs, None)]\<rparr>)
      else None)"
| "recver_at (VWrite bs) (VWrites (Some e)) s =
     Some (s\<lparr>s_recver := VDone, s_fail := True, s_recvs := s_recvs s @ [(Ret bs, Some e)]\<rparr>)"
| "recver_at _ _ s = None"

definition RecvWrite_step :: "recver_act \<Rightarrow> session \<Rightarrow> session option" where
  "RecvWrite_step a s = recver_at (s_recver s) a s"

text \<open>\<^verbatim>\<open>select\<close> takes any of the cases that are ready.\<close>

datatype writer_act = ETakes | EStops | EWrites "err option"

fun writer_at :: "error_writer \<Rightarrow> writer_act \<Rightarrow> session \<Rightarrow> session option" where
  "writer_at EWait ETakes s =
     (case s_errs s of [] \<Rightarrow> None | e # es \<Rightarrow> Some (s\<lparr>s_writer := EWrite e, s_errs := es\<rparr>))"
| "writer_at EWait EStops s = (if s_done s then Some (s\<lparr>s_writer := EDone\<rparr>) else None)"
| "writer_at (EWrite e) (EWrites None) s =
     (if s_open s then Some (s\<lparr>s_writer := EWait, s_wire := s_wire s @ [ErrorMsg e]\<rparr>) else None)"
| "writer_at (EWrite e) (EWrites (Some _)) s = Some (s\<lparr>s_writer := EDone\<rparr>)"
| "writer_at _ _ s = None"

definition WriteErrors_step :: "writer_act \<Rightarrow> session \<Rightarrow> session option" where
  "WriteErrors_step a s = writer_at (s_writer s) a s"

text \<open>The goroutine of the \<open>i\<close>-th \<^verbatim>\<open>HangupSender.Read\<close>.\<close>

datatype watcher_act = WHup | WQuit | WWrites "err option" | WCloses

fun watcher_at :: "watcher \<Rightarrow> nat \<Rightarrow> watcher_act \<Rightarrow> session \<Rightarrow> session option" where
  "watcher_at (Waiting d) i WHup s =
     (if s_signal s then Some (s\<lparr>s_watchers := (s_watchers s)[i := Writing]\<rparr>) else None)"
| "watcher_at (Waiting d) i WQuit s = (if d then Some (s\<lparr>s_watchers := (s_watchers s)[i := Gone]\<rparr>) else None)"
| "watcher_at Writing i (WWrites None) s =
     (if s_open s then Some (s\<lparr>s_watchers := (s_watchers s)[i := Closing], s_wire := s_wire s @ [HangupMsg]\<rparr>) else None)"
| "watcher_at Writing i (WWrites (Some _)) s = Some (s\<lparr>s_watchers := (s_watchers s)[i := Closing]\<rparr>)"
| "watcher_at Closing i WCloses s = Some (s\<lparr>s_watchers := (s_watchers s)[i := Gone], s_open := False\<rparr>)"
| "watcher_at _ _ _ s = None"

definition watcher_step :: "nat \<Rightarrow> watcher_act \<Rightarrow> session \<Rightarrow> session option" where
  "watcher_step i a s = (if i < length (s_watchers s) then watcher_at (s_watchers s ! i) i a s else None)"

text \<open>The function \<^verbatim>\<open>Bind\<close> returns: it waits for \<^verbatim>\<open>done\<close> and closes the connection.\<close>

definition Bind_step :: "session \<Rightarrow> session option" where
  "Bind_step s =
     (case s_bind s of
        BWait \<Rightarrow> if s_done s then Some (s\<lparr>s_bind := BClose\<rparr>) else None
      | BClose \<Rightarrow> Some (s\<lparr>s_bind := BReturned, s_open := False\<rparr>)
      | BReturned \<Rightarrow> None)"

text \<open>\<^verbatim>\<open>HangupSender.Send\<close>, which \<^verbatim>\<open>river.AwaitHangup\<close> calls once.\<close>

definition hangup_step :: "session \<Rightarrow> session option" where
  "hangup_step s = (if s_signal s then None else Some (s\<lparr>s_signal := True\<rparr>))"

section \<open>Runs\<close>

datatype act = Reader reader_act | Recver recver_act | Writer writer_act | Watcher nat watcher_act | Binding | Hangup

fun session_step :: "act \<Rightarrow> session \<Rightarrow> session option" where
  "session_step (Reader a) s = ReadSend_step a s"
| "session_step (Recver a) s = RecvWrite_step a s"
| "session_step (Writer a) s = WriteErrors_step a s"
| "session_step (Watcher i a) s = watcher_step i a s"
| "session_step Binding s = Bind_step s"
| "session_step Hangup s = hangup_step s"

inductive runs :: "session \<Rightarrow> act list \<Rightarrow> session \<Rightarrow> bool" where
  start: "runs s [] s"
| step: "runs s as s' \<Longrightarrow> session_step a s' = Some s'' \<Longrightarrow> runs s (as @ [a]) s''"

fun exec :: "act list \<Rightarrow> session \<Rightarrow> session option" where
  "exec [] s = Some s"
| "exec (a # as) s = (case session_step a s of None \<Rightarrow> None | Some s' \<Rightarrow> exec as s')"

inductive_cases runs_NilE: "runs s [] s'"

lemma exec_runs: "exec bs s' = Some s'' \<Longrightarrow> runs s as s' \<Longrightarrow> runs s (as @ bs) s''"
proof (induction bs arbitrary: as s')
  case (Cons a bs)
  then obtain t where "session_step a s' = Some t" "exec bs t = Some s''" by (auto split: option.splits)
  then show ?case using Cons.IH [of t "as @ [a]"] runs.step [OF Cons.prems(2)] by simp
qed simp

lemma runs_trans: "runs s' bs s'' \<Longrightarrow> runs s as s' \<Longrightarrow> runs s (as @ bs) s''"
  by (induction rule: runs.induct) (auto intro: runs.step simp flip: append_assoc)

lemmas step_defs = ReadSend_step_def RecvWrite_step_def WriteErrors_step_def watcher_step_def Bind_step_def hangup_step_def

section \<open>What a session carries\<close>

fun sents :: "ws_out list \<Rightarrow> bytes list" where
  "sents [] = []"
| "sents (Sent bs # os) = bs # sents os"
| "sents (ToClient e # os) = sents os"

fun client_errs :: "ws_out list \<Rightarrow> err list" where
  "client_errs [] = []"
| "client_errs (ToClient e # os) = e # client_errs os"
| "client_errs (Sent bs # os) = client_errs os"

definition datas :: "frame list \<Rightarrow> bytes list" where
  "datas fs = List.map_filter (\<lambda>f. case f of Data bs \<Rightarrow> Some bs | _ \<Rightarrow> None) fs"

definition error_msgs :: "frame list \<Rightarrow> err list" where
  "error_msgs fs = List.map_filter (\<lambda>f. case f of ErrorMsg e \<Rightarrow> Some e | _ \<Rightarrow> None) fs"

text \<open>The well-formed messages that the client sent, and the messages that came from the river.\<close>

definition client_msgs :: "act list \<Rightarrow> bytes list" where
  "client_msgs as = List.map_filter (\<lambda>a. case a of Reader (RReturns (bs, True, None)) \<Rightarrow> Some bs | _ \<Rightarrow> None) as"

definition river_msgs :: "act list \<Rightarrow> bytes list" where
  "river_msgs as = List.map_filter (\<lambda>a. case a of Recver (VGets (Ret bs)) \<Rightarrow> Some bs | _ \<Rightarrow> None) as"

lemma map_filter_append: "List.map_filter f (xs @ ys) = List.map_filter f xs @ List.map_filter f ys"
  by (simp add: List.map_filter_def)

lemma carried_append [simp]:
  "sents (xs @ ys) = sents xs @ sents ys" "client_errs (xs @ ys) = client_errs xs @ client_errs ys"
  "datas (fs @ gs) = datas fs @ datas gs" "error_msgs (fs @ gs) = error_msgs fs @ error_msgs gs"
  "client_msgs (as @ bs) = client_msgs as @ client_msgs bs" "river_msgs (as @ bs) = river_msgs as @ river_msgs bs"
proof -
  show "sents (xs @ ys) = sents xs @ sents ys" by (induction xs rule: sents.induct) auto
  show "client_errs (xs @ ys) = client_errs xs @ client_errs ys" by (induction xs rule: client_errs.induct) auto
qed (simp_all add: datas_def error_msgs_def client_msgs_def river_msgs_def map_filter_append)

lemma carried_single [simp]:
  "datas [] = []" "datas [Data bs] = [bs]" "datas [ErrorMsg e] = []" "datas [HangupMsg] = []"
  "error_msgs [] = []" "error_msgs [Data bs] = []" "error_msgs [ErrorMsg e] = [e]" "error_msgs [HangupMsg] = []"
  "river_msgs [] = []" "river_msgs [Recver (VGets (Ret bs))] = [bs]" "river_msgs [Recver (VGets (Fail x))] = []"
  "river_msgs [Recver (VWrites w)] = []" "river_msgs [Reader ra] = []" "river_msgs [Writer wa] = []"
  "river_msgs [Watcher i ta] = []" "river_msgs [Binding] = []" "river_msgs [Hangup] = []"
  "client_msgs [] = []" "client_msgs [Reader RGo] = []" "client_msgs [Reader (RSendReturns se)] = []"
  "client_msgs [Reader (RReturns r)] = (if fst (snd r) \<and> snd (snd r) = None then [fst r] else [])"
  "client_msgs [Recver va] = []" "client_msgs [Writer wa] = []" "client_msgs [Watcher i ta] = []"
  "client_msgs [Binding] = []" "client_msgs [Hangup] = []"
  by (simp_all add: datas_def error_msgs_def client_msgs_def river_msgs_def List.map_filter_def split: bool.split option.split prod.split)

lemma ReadSend_snoc:
  "ws_ReadSend ts = (out, False) \<Longrightarrow> ws_ReadSend (ts @ [t]) = (out @ fst (ws_ReadSend [t]), snd (ws_ReadSend [t]))"
proof (induction ts arbitrary: out)
  case (Cons u ts)
  then show ?case by (auto split: if_splits option.splits prod.splits)
qed simp

lemma RecvWrite_snoc:
  "ws_RecvWrite rs = (out, False) \<Longrightarrow> ws_RecvWrite (rs @ [r]) = (out @ fst (ws_RecvWrite [r]), snd (ws_RecvWrite [r]))"
  by (induction rs arbitrary: out rule: ws_RecvWrite.induct) (auto split: if_splits option.splits prod.splits)

text \<open>The error that \<^verbatim>\<open>ReadSend\<close> reports for a rejected message.\<close>

definition rejected :: "read_result \<Rightarrow> err \<Rightarrow> bool" where
  "rejected r e \<longleftrightarrow> \<not> fst (snd r) \<and>
     (case snd (snd r) of None \<Rightarrow> e = Errorf ''malformed message''
      | Some e' \<Rightarrow> errors_Cause e' \<noteq> io_EOF \<and> e = Wrapped ''malformed message'' e')"

text \<open>The message that is read and not yet sent, if any; \<open>None\<close> when a hangup may have discarded it.\<close>

fun in_flight :: "reader \<Rightarrow> bytes list option" where
  "in_flight (RBack r) = Some (if fst (snd r) \<and> snd (snd r) = None then [fst r] else [])"
| "in_flight (RGot r) = (case snd (snd r) of Some e \<Rightarrow> if errors_Cause e = io_EOF then None else Some []
     | None \<Rightarrow> Some (if fst (snd r) then [fst r] else []))"
| "in_flight (RSend bs) = Some [bs]"
| "in_flight RDone = None"
| "in_flight _ = Some []"

definition reader_inv :: "act list \<Rightarrow> session \<Rightarrow> bool" where
  "reader_inv as s \<longleftrightarrow>
     ws_ReadSend (s_turns s) = (s_out s, s_done s) \<and> (s_done s \<longleftrightarrow> s_reader s = RDone) \<and>
     length (s_errs s) \<le> errs_cap \<and> (\<forall>r e. s_reader s = RErr r e \<longrightarrow> rejected r e) \<and>
     (case in_flight (s_reader s) of
        Some l \<Rightarrow> client_msgs as = sents (s_out s) @ l
      | None \<Rightarrow> \<exists>l. length l \<le> 1 \<and> client_msgs as = sents (s_out s) @ l)"

definition recver_inv :: "act list \<Rightarrow> session \<Rightarrow> bool" where
  "recver_inv as s \<longleftrightarrow>
     ws_RecvWrite (s_recvs s) = (datas (s_wire s), s_fail s) \<and> (s_fail s \<longleftrightarrow> s_recver s = VDone) \<and>
     (case s_recver s of VRecv \<Rightarrow> river_msgs as = datas (s_wire s) | VWrite bs \<Rightarrow> river_msgs as = datas (s_wire s) @ [bs]
      | VDone \<Rightarrow> \<exists>l. length l \<le> 1 \<and> river_msgs as = datas (s_wire s) @ l)"

definition writer_inv :: "session \<Rightarrow> bool" where
  "writer_inv s \<longleftrightarrow> (\<exists>l. client_errs (s_out s) = error_msgs (s_wire s) @ l @ s_errs s \<and> length l \<le> 1 \<and>
     (case s_writer s of EWait \<Rightarrow> l = [] | EWrite e \<Rightarrow> l = [e] | EDone \<Rightarrow> True))"

text \<open>A reader that waits in a call on an open connection has a watcher that will close it.\<close>

definition active :: "watcher \<Rightarrow> bool" where
  "active w \<longleftrightarrow> w = Waiting False \<or> w = Writing \<or> w = Closing"

definition watcher_inv :: "session \<Rightarrow> bool" where
  "watcher_inv s \<longleftrightarrow> (s_reader s = RRead \<and> s_open s \<longrightarrow> (\<exists>w\<in>set (s_watchers s). active w)) \<and>
     (s_bind s \<noteq> BWait \<longrightarrow> s_done s)"

fun_cases reader_atE: "reader_at p a s = Some s'"
fun_cases recver_atE: "recver_at p a s = Some s'"
fun_cases writer_atE: "writer_at p a s = Some s'"
fun_cases watcher_atE: "watcher_at p i a s = Some s'"

lemma Bind_stepE:
  assumes "Bind_step s = Some s'"
  obtains "s_bind s = BWait" "s_done s" "s' = s\<lparr>s_bind := BClose\<rparr>"
    | "s_bind s = BClose" "s' = s\<lparr>s_bind := BReturned, s_open := False\<rparr>"
  using assms by (auto simp: Bind_step_def split: bind_point.splits if_splits)

text \<open>What the steps of the other goroutines leave alone.\<close>

lemma recver_frame:
  assumes "RecvWrite_step a s = Some s'"
  shows "s_signal s' = s_signal s" "s_open s' = s_open s" "s_errs s' = s_errs s" "s_done s' = s_done s"
    "s_reader s' = s_reader s" "s_writer s' = s_writer s" "s_watchers s' = s_watchers s" "s_bind s' = s_bind s"
    "s_turns s' = s_turns s" "s_out s' = s_out s" "error_msgs (s_wire s') = error_msgs (s_wire s)"
  using assms unfolding RecvWrite_step_def by (auto elim!: recver_atE split: if_splits)

lemma writer_frame:
  assumes "WriteErrors_step a s = Some s'"
  shows "s_signal s' = s_signal s" "s_open s' = s_open s" "s_done s' = s_done s" "s_fail s' = s_fail s"
    "s_reader s' = s_reader s" "s_recver s' = s_recver s" "s_watchers s' = s_watchers s" "s_bind s' = s_bind s"
    "s_turns s' = s_turns s" "s_out s' = s_out s" "s_recvs s' = s_recvs s" "datas (s_wire s') = datas (s_wire s)"
    "length (s_errs s') \<le> length (s_errs s)"
  using assms unfolding WriteErrors_step_def by (auto elim!: writer_atE split: if_splits list.splits)

lemma watcher_frame:
  assumes "watcher_step i a s = Some s'"
  shows "s_signal s' = s_signal s" "s_errs s' = s_errs s" "s_done s' = s_done s" "s_fail s' = s_fail s"
    "s_reader s' = s_reader s" "s_recver s' = s_recver s" "s_writer s' = s_writer s" "s_bind s' = s_bind s"
    "s_turns s' = s_turns s" "s_out s' = s_out s" "s_recvs s' = s_recvs s" "datas (s_wire s') = datas (s_wire s)"
    "error_msgs (s_wire s') = error_msgs (s_wire s)"
  using assms unfolding watcher_step_def by (auto elim!: watcher_atE split: if_splits)

lemma reader_frame:
  assumes "ReadSend_step a s = Some s'"
  shows "s_signal s' = s_signal s" "s_open s' = s_open s" "s_fail s' = s_fail s" "s_recver s' = s_recver s"
    "s_writer s' = s_writer s" "s_bind s' = s_bind s" "s_recvs s' = s_recvs s" "s_wire s' = s_wire s"
    "\<exists>l. s_errs s' = s_errs s @ l \<and> client_errs (s_out s') = client_errs (s_out s) @ l"
  using assms unfolding ReadSend_step_def
  by (auto elim!: reader_atE simp: turn_over_def split: if_splits option.splits)

lemma Cause_EOF [simp]: "errors_Cause io_EOF = io_EOF"
  by (simp add: io_EOF_def)

lemma reader_inv_own: "reader_inv as s \<Longrightarrow> ReadSend_step b s = Some s' \<Longrightarrow> reader_inv (as @ [Reader b]) s'"
  unfolding ReadSend_step_def
  by (erule reader_atE)
    (auto simp: turn_over_def ReadSend_snoc reader_inv_def rejected_def ws_HangupSender_Read_def split: if_splits option.splits)

lemma reader_inv_cong:
  assumes "reader_inv as s" "s_turns s' = s_turns s" "s_out s' = s_out s" "s_done s' = s_done s" "s_reader s' = s_reader s"
    "length (s_errs s') \<le> length (s_errs s)" "client_msgs [a] = []"
  shows "reader_inv (as @ [a]) s'"
  using assms by (simp add: reader_inv_def split: option.splits)

lemma reader_inv_step: "reader_inv as s \<Longrightarrow> session_step a s = Some s' \<Longrightarrow> reader_inv (as @ [a]) s'"
proof (cases a)
  case (Reader b)
  assume "reader_inv as s" "session_step a s = Some s'"
  with Reader show ?thesis by (simp add: reader_inv_own)
qed (auto intro: reader_inv_cong simp: recver_frame writer_frame watcher_frame hangup_step_def elim!: Bind_stepE split: if_splits)

lemma recver_inv_own: "recver_inv as s \<Longrightarrow> RecvWrite_step b s = Some s' \<Longrightarrow> recver_inv (as @ [Recver b]) s'"
  unfolding RecvWrite_step_def
  by (erule recver_atE) (auto simp: RecvWrite_snoc recver_inv_def split: if_splits)

lemma recver_inv_cong:
  assumes "recver_inv as s" "s_recvs s' = s_recvs s" "datas (s_wire s') = datas (s_wire s)" "s_fail s' = s_fail s"
    "s_recver s' = s_recver s" "river_msgs [a] = []"
  shows "recver_inv (as @ [a]) s'"
  using assms by (simp add: recver_inv_def split: recver.splits)

lemma recver_inv_step: "recver_inv as s \<Longrightarrow> session_step a s = Some s' \<Longrightarrow> recver_inv (as @ [a]) s'"
proof (cases a)
  case (Recver b)
  assume "recver_inv as s" "session_step a s = Some s'"
  with Recver show ?thesis by (simp add: recver_inv_own)
qed (auto intro: recver_inv_cong simp: reader_frame writer_frame watcher_frame hangup_step_def elim!: Bind_stepE split: if_splits)

lemma writer_inv_step:
  assumes "writer_inv s" "session_step a s = Some s'"
  shows "writer_inv s'"
proof (cases a)
  case (Reader b)
  then show ?thesis using assms reader_frame [of b s s'] by (force simp: writer_inv_def)
next
  case (Writer b)
  show ?thesis using assms unfolding Writer session_step.simps WriteErrors_step_def
    by (auto elim!: writer_atE simp: writer_inv_def split: if_splits list.splits)
qed (use assms in \<open>auto simp: writer_inv_def recver_frame watcher_frame hangup_step_def elim!: Bind_stepE split: if_splits\<close>)

lemma active_update:
  assumes "\<exists>w\<in>set ws. active w" "i < length ws" "active (ws ! i) \<longrightarrow> active v"
  shows "\<exists>w\<in>set (ws[i := v]). active w"
proof -
  obtain j where j: "j < length ws" "active (ws ! j)" using assms(1) by (auto simp: in_set_conv_nth)
  then have "active (ws[i := v] ! j)" using assms by (cases "i = j") auto
  then show ?thesis using j by (metis length_list_update nth_mem)
qed

lemma watcher_step_active:
  assumes "watcher_step i b s = Some s'"
  obtains v where "s_watchers s' = (s_watchers s)[i := v]" "i < length (s_watchers s)"
    "s_open s' \<longrightarrow> s_open s \<and> (active (s_watchers s ! i) \<longrightarrow> active v)"
  using assms unfolding watcher_step_def
  by (auto elim!: watcher_atE simp: active_def split: if_splits)

lemma reader_step_active:
  assumes "ReadSend_step b s = Some s'"
  shows "s_reader s' = RRead \<longrightarrow> Waiting False \<in> set (s_watchers s')" "s_reader s \<noteq> RDone"
  using assms unfolding ReadSend_step_def
  by (auto elim!: reader_atE simp: turn_over_def split: if_splits option.splits)

lemma watcher_inv_step:
  assumes "watcher_inv s" "reader_inv as s" "session_step a s = Some s'"
  shows "watcher_inv s'"
proof (cases a)
  case (Reader b)
  then show ?thesis using assms reader_step_active [of b s s'] reader_frame [of b s s']
    by (auto simp: watcher_inv_def reader_inv_def active_def)
next
  case (Watcher i b)
  then have w: "watcher_step i b s = Some s'" using assms(3) by simp
  obtain v where v: "s_watchers s' = (s_watchers s)[i := v]" "i < length (s_watchers s)"
      "s_open s' \<longrightarrow> s_open s \<and> (active (s_watchers s ! i) \<longrightarrow> active v)"
    using w by (rule watcher_step_active)
  show ?thesis using assms(1) v active_update [of "s_watchers s" i v]
    by (auto simp: watcher_inv_def watcher_frame [OF w])
qed (use assms in \<open>auto simp: watcher_inv_def recver_frame writer_frame hangup_step_def elim!: Bind_stepE split: if_splits\<close>)

lemma session_inv:
  assumes "runs ws_Bind as s"
  shows "reader_inv as s" "recver_inv as s" "writer_inv s" "watcher_inv s"
proof -
  have "reader_inv as s \<and> recver_inv as s \<and> writer_inv s \<and> watcher_inv s" using assms
  proof (induction ws_Bind as s rule: runs.induct)
    case start
    then show ?case
      by (simp add: ws_Bind_def reader_inv_def recver_inv_def writer_inv_def watcher_inv_def)
  qed (auto intro: reader_inv_step recver_inv_step writer_inv_step watcher_inv_step)
  then show "reader_inv as s" "recver_inv as s" "writer_inv s" "watcher_inv s" by auto
qed

section \<open>Hanging up ends a session\<close>

text \<open>
  The steps that are left once the signal channel is closed: of \<^verbatim>\<open>ReadSend\<close> until it returns,
  of \<^verbatim>\<open>WriteErrors\<close> until it has emptied its channel, of the watchers, and of \<^verbatim>\<open>Bind\<close>.
\<close>

fun reader_rank :: "reader \<Rightarrow> nat" where
  "reader_rank RTop = 3"
| "reader_rank RCall = 2"
| "reader_rank RRead = 3"
| "reader_rank (RBack r) = 2"
| "reader_rank (RGot r) = (case snd (snd r) of Some e \<Rightarrow> if errors_Cause e = io_EOF then 1 else 7 | None \<Rightarrow> 7)"
| "reader_rank (RErr r e) = 6"
| "reader_rank (RSend bs) = 4"
| "reader_rank RDone = 0"

fun writer_rank :: "error_writer \<Rightarrow> nat" where
  "writer_rank EWait = 1"
| "writer_rank (EWrite e) = 2"
| "writer_rank EDone = 0"

fun watcher_rank :: "watcher \<Rightarrow> nat" where
  "watcher_rank (Waiting d) = 3"
| "watcher_rank Writing = 2"
| "watcher_rank Closing = 1"
| "watcher_rank Gone = 0"

fun bind_rank :: "bind_point \<Rightarrow> nat" where
  "bind_rank BWait = 2"
| "bind_rank BClose = 1"
| "bind_rank BReturned = 0"

definition watchers_rank :: "watcher list \<Rightarrow> nat" where
  "watchers_rank ws = sum_list (map watcher_rank ws)"

definition steps_left :: "session \<Rightarrow> nat" where
  "steps_left s = reader_rank (s_reader s) + (writer_rank (s_writer s) + 2 * length (s_errs s)) +
     watchers_rank (s_watchers s) + bind_rank (s_bind s)"

definition from_river :: "act \<Rightarrow> bool" where
  "from_river a \<longleftrightarrow> (case a of Recver _ \<Rightarrow> True | _ \<Rightarrow> False)"

lemma watchers_rank_update:
  "i < length ws \<Longrightarrow> watcher_rank v < watcher_rank (ws ! i) \<Longrightarrow> watchers_rank (ws[i := v]) < watchers_rank ws"
proof -
  assume i: "i < length ws" and v: "watcher_rank v < watcher_rank (ws ! i)"
  have "watcher_rank (ws ! i) \<le> sum_list (map watcher_rank ws)" using i by (auto intro!: member_le_sum_list)
  then show ?thesis using i v by (simp add: watchers_rank_def map_update sum_list_update)
qed

lemma watchers_rank_map [simp]:
  "watchers_rank (map (\<lambda>w. if w = Waiting False then Waiting True else w) ws) = watchers_rank ws"
  by (induction ws) (auto simp: watchers_rank_def)

lemma watchers_rank_le: "watchers_rank ws \<le> 3 * length ws"
proof (induction ws)
  case (Cons w ws)
  then show ?case by (cases w) (auto simp: watchers_rank_def)
qed (simp add: watchers_rank_def)

lemma reader_rank_step:
  assumes "ReadSend_step b s = Some s'" "s_signal s"
  shows "reader_rank (s_reader s') + 2 * length (s_errs s') < reader_rank (s_reader s) + 2 * length (s_errs s)"
    "watchers_rank (s_watchers s') = watchers_rank (s_watchers s)"
  using assms unfolding ReadSend_step_def
  by (auto elim!: reader_atE simp: turn_over_def ws_HangupSender_Read_def split: if_splits option.splits)

lemma writer_rank_step:
  assumes "WriteErrors_step b s = Some s'"
  shows "writer_rank (s_writer s') + 2 * length (s_errs s') < writer_rank (s_writer s) + 2 * length (s_errs s)"
  using assms unfolding WriteErrors_step_def
  by (auto elim!: writer_atE split: if_splits list.splits)

lemma watcher_rank_step:
  assumes "watcher_step i b s = Some s'"
  shows "watchers_rank (s_watchers s') < watchers_rank (s_watchers s)"
  using assms unfolding watcher_step_def
  by (auto elim!: watcher_atE intro!: watchers_rank_update split: if_splits)

lemma steps_left_decrease:
  assumes "session_step a s = Some s'" "s_signal s"
  shows "s_signal s'" "if from_river a then steps_left s' = steps_left s else steps_left s' < steps_left s"
proof -
  have "s_signal s' \<and> (if from_river a then steps_left s' = steps_left s else steps_left s' < steps_left s)"
  proof (cases a)
    case (Reader b)
    then show ?thesis using assms reader_rank_step [of b s s'] reader_frame [of b s s']
      by (simp add: steps_left_def from_river_def)
  next
    case (Writer b)
    then show ?thesis using assms writer_rank_step [of b s s'] writer_frame [of b s s']
      by (simp add: steps_left_def from_river_def)
  next
    case (Watcher i b)
    then show ?thesis using assms watcher_rank_step [of i b s s'] watcher_frame [of i b s s']
      by (simp add: steps_left_def from_river_def)
  qed (use assms in \<open>auto simp: steps_left_def from_river_def recver_frame hangup_step_def elim!: Bind_stepE split: if_splits\<close>)
  then show "s_signal s'" "if from_river a then steps_left s' = steps_left s else steps_left s' < steps_left s" by auto
qed

lemma steps_after_hangup:
  "runs s bs s' \<Longrightarrow> s_signal s \<Longrightarrow>
     s_signal s' \<and> length (filter (\<lambda>a. \<not> from_river a) bs) + steps_left s' \<le> steps_left s"
proof (induction rule: runs.induct)
  case (step s as s' a s'')
  then show ?case using steps_left_decrease [OF step.hyps(2)] by (auto split: if_splits)
qed simp

text \<open>
  A session that has come to rest: what could still happen is up to the river, to a client
  with an open connection, or to somebody who hangs up.
\<close>

definition up_to_others :: "session \<Rightarrow> act \<Rightarrow> bool" where
  "up_to_others s a \<longleftrightarrow>
     (case a of Recver _ \<Rightarrow> True | Reader (RReturns _) \<Rightarrow> s_open s | Hangup \<Rightarrow> True | _ \<Rightarrow> False)"

definition at_rest :: "session \<Rightarrow> bool" where
  "at_rest s \<longleftrightarrow> (\<forall>a. session_step a s \<noteq> None \<longrightarrow> up_to_others s a)"

text \<open>\<^verbatim>\<open>WriteErrors\<close> has returned after a failed write, the channel is full, and \<^verbatim>\<open>ReadSend\<close> waits
  to send one more error.\<close>

definition jammed :: "session \<Rightarrow> bool" where
  "jammed s \<longleftrightarrow> (case s_reader s of RErr _ _ \<Rightarrow> True | _ \<Rightarrow> False) \<and> errs_cap \<le> length (s_errs s) \<and> s_writer s = EDone"

lemma at_restD: "at_rest s \<Longrightarrow> \<not> up_to_others s a \<Longrightarrow> session_step a s = None"
  by (auto simp: at_rest_def)

lemma at_rest_ended:
  assumes inv: "reader_inv as s" "watcher_inv s" and "s_signal s" and rest: "at_rest s"
  shows "s_bind s = BReturned \<or> jammed s"
proof (cases "s_reader s")
  case RRead
  have "s_open s"
  proof (rule ccontr)
    assume "\<not> s_open s"
    then show False using at_restD [OF rest, of "Reader (RReturns ([], True, Some io_EOF))"] RRead
      by (simp add: up_to_others_def ReadSend_step_def)
  qed
  then obtain i where i: "i < length (s_watchers s)" "active (s_watchers s ! i)"
    using inv(2) RRead by (auto simp: watcher_inv_def in_set_conv_nth)
  have "watcher_step i b s = None" for b using at_restD [OF rest, of "Watcher i b"] by (simp add: up_to_others_def)
  from this [of WHup] this [of "WWrites (Some io_EOF)"] this [of WCloses] show ?thesis
    using i assms(3) by (auto simp: watcher_step_def active_def)
next
  case RDone
  then show ?thesis using inv(1) at_restD [OF rest, of Binding]
    by (auto simp: up_to_others_def Bind_step_def reader_inv_def split: bind_point.splits)
next
  case (RErr r e)
  have "WriteErrors_step b s = None" for b using at_restD [OF rest, of "Writer b"] by (simp add: up_to_others_def)
  from this [of ETakes] this [of "EWrites (Some io_EOF)"] show ?thesis
    using RErr inv(1) at_restD [OF rest, of "Reader RGo"]
    by (cases "s_writer s")
      (auto simp: up_to_others_def jammed_def WriteErrors_step_def ReadSend_step_def errs_cap_def split: list.splits if_splits)
next
  case (RSend bs)
  then show ?thesis using at_restD [OF rest, of "Reader (RSendReturns None)"] by (simp add: up_to_others_def ReadSend_step_def)
qed (use at_restD [OF rest, of "Reader RGo"] in \<open>simp_all add: up_to_others_def ReadSend_step_def\<close>)

text \<open>After the hangup at most the message that \<^verbatim>\<open>Read\<close> has already returned is sent.\<close>

fun to_send :: "reader \<Rightarrow> nat" where
  "to_send (RGot r) = (if fst (snd r) \<and> snd (snd r) = None then 1 else 0)"
| "to_send (RSend bs) = 1"
| "to_send _ = 0"

lemma to_send_own:
  assumes "ReadSend_step b s = Some s'" "s_signal s"
  shows "length (sents (s_out s')) + to_send (s_reader s') \<le> length (sents (s_out s)) + to_send (s_reader s)"
  using assms unfolding ReadSend_step_def
  by (auto elim!: reader_atE simp: turn_over_def ws_HangupSender_Read_def split: if_splits option.splits)

lemma to_send_after_hangup:
  "runs s bs s' \<Longrightarrow> s_signal s \<Longrightarrow>
     s_signal s' \<and> length (sents (s_out s')) + to_send (s_reader s') \<le> length (sents (s_out s)) + to_send (s_reader s)"
proof (induction rule: runs.induct)
  case (step s as s' a s'')
  then have sg: "s_signal s'" by simp
  have "length (sents (s_out s'')) + to_send (s_reader s'') \<le> length (sents (s_out s')) + to_send (s_reader s')"
  proof (cases a)
    case (Reader b)
    then show ?thesis using step.hyps(2) to_send_own [OF _ sg] by simp
  qed (use step.hyps(2) in \<open>auto simp: recver_frame writer_frame watcher_frame hangup_step_def elim!: Bind_stepE split: if_splits\<close>)
  then show ?case using step steps_left_decrease(1) [OF step.hyps(2) sg] by simp
qed simp

lemma to_send_le: "to_send p \<le> 1"
  by (cases p) auto

text \<open>A reader that rejects no message, as \<^verbatim>\<open>DefaultRead\<close>, reports no errors.\<close>

definition rejects :: "act \<Rightarrow> bool" where
  "rejects a \<longleftrightarrow> (case a of Reader (RReturns r) \<Rightarrow> \<not> fst (snd r) | _ \<Rightarrow> False)"

fun accepted :: "reader \<Rightarrow> bool" where
  "accepted (RBack r) = fst (snd r)"
| "accepted (RGot r) = fst (snd r)"
| "accepted (RErr r e) = False"
| "accepted _ = True"

lemma accepted_own:
  "ReadSend_step b s = Some s' \<Longrightarrow> \<not> rejects (Reader b) \<Longrightarrow> accepted (s_reader s) \<Longrightarrow> s_errs s = [] \<Longrightarrow>
     accepted (s_reader s') \<and> s_errs s' = []"
  unfolding ReadSend_step_def
  by (auto elim!: reader_atE simp: turn_over_def rejects_def ws_HangupSender_Read_def split: if_splits option.splits)

lemma never_rejects:
  "runs s as s' \<Longrightarrow> list_all (\<lambda>a. \<not> rejects a) as \<Longrightarrow> accepted (s_reader s) \<and> s_errs s = [] \<Longrightarrow>
     accepted (s_reader s') \<and> s_errs s' = []"
proof (induction rule: runs.induct)
  case (step s as s' a s'')
  then have IH: "accepted (s_reader s') \<and> s_errs s' = []" and a: "\<not> rejects a" by auto
  show ?case
  proof (cases a)
    case (Reader b)
    then show ?thesis using step.hyps(2) IH a accepted_own by simp
  next
    case (Writer b)
    then show ?thesis using step.hyps(2) IH writer_frame [of b s' s''] by simp
  qed (use step.hyps(2) IH in \<open>auto simp: recver_frame watcher_frame hangup_step_def elim!: Bind_stepE split: if_splits\<close>)
qed simp

lemma not_jammed: "accepted (s_reader s) \<Longrightarrow> \<not> jammed s"
  by (cases "s_reader s") (auto simp: jammed_def)

section \<open>Properties\<close>

text \<open>
  C18 (session_carries).  In every interleaving of its goroutines a session does what \<^verbatim>\<open>ReadSend\<close>
  and \<^verbatim>\<open>RecvWrite\<close> do alone: what goes to the river are the well-formed messages of the client
  in their order, what goes to the client are the river's messages in their order, and the
  reports of malformed messages in theirs.  What has been read but has not gone out is at most
  one message of the client, at most one of the river, and of the reports those in the channel,
  ten at most, and one more.
\<close>

theorem session_carries:
  assumes "runs ws_Bind as s"
  shows "ws_ReadSend (s_turns s) = (s_out s, s_done s) \<and> ws_RecvWrite (s_recvs s) = (datas (s_wire s), s_fail s) \<and>
    (\<exists>l. length l \<le> 1 \<and> client_msgs as = sents (s_out s) @ l) \<and>
    (\<exists>l. length l \<le> 1 \<and> river_msgs as = datas (s_wire s) @ l) \<and>
    (\<exists>l. length l \<le> 1 \<and> client_errs (s_out s) = error_msgs (s_wire s) @ l @ s_errs s) \<and>
    (s_bind s \<noteq> BWait \<longrightarrow> s_done s) \<and> length (s_errs s) \<le> errs_cap"
proof -
  note inv = session_inv [OF assms]
  have "\<exists>l. length l \<le> 1 \<and> client_msgs as = sents (s_out s) @ l"
    using inv(1) by (cases "s_reader s") (auto simp: reader_inv_def split: option.splits if_splits)
  moreover have "\<exists>l. length l \<le> 1 \<and> river_msgs as = datas (s_wire s) @ l"
    using inv(2) by (cases "s_recver s") (auto simp: recver_inv_def)
  ultimately show ?thesis
    using inv by (auto simp: reader_inv_def recver_inv_def writer_inv_def watcher_inv_def)
qed

text \<open>
  C17 (session_hangup_ends).  After a hangup at most one more message of the client reaches the
  river and the goroutines other than \<^verbatim>\<open>RecvWrite\<close> make a bounded number of steps; when they
  have come to rest, \<^verbatim>\<open>Bind\<close> has returned, unless the reports of malformed messages are
  jammed, which does not happen with a reader that rejects no message.
\<close>

theorem session_hangup_ends:
  assumes "runs ws_Bind as s" "s_signal s" "runs s bs s'"
  shows "length (sents (s_out s')) \<le> length (sents (s_out s)) + 1 \<and>
    length (filter (\<lambda>a. \<not> from_river a) bs) \<le> 31 + 3 * length (s_watchers s) \<and>
    (at_rest s' \<longrightarrow> s_bind s' = BReturned \<or> jammed s') \<and>
    (list_all (\<lambda>a. \<not> rejects a) (as @ bs) \<longrightarrow> \<not> jammed s')"
proof (intro conjI impI)
  have run: "runs ws_Bind (as @ bs) s'" by (rule runs_trans [OF assms(3,1)])
  note inv = session_inv [OF run] and start = session_inv [OF assms(1)]
  show "length (sents (s_out s')) \<le> length (sents (s_out s)) + 1"
    using to_send_after_hangup [OF assms(3,2)] to_send_le [of "s_reader s"] by linarith
  have "reader_rank (s_reader s) \<le> 7" by (cases "s_reader s") (auto split: option.split)
  moreover have "writer_rank (s_writer s) \<le> 2" by (cases "s_writer s") auto
  moreover have "bind_rank (s_bind s) \<le> 2" by (cases "s_bind s") auto
  moreover have "length (s_errs s) \<le> 10" using start(1) by (simp add: reader_inv_def errs_cap_def)
  ultimately have "steps_left s \<le> 31 + 3 * length (s_watchers s)"
    using watchers_rank_le [of "s_watchers s"] by (simp add: steps_left_def)
  then show "length (filter (\<lambda>a. \<not> from_river a) bs) \<le> 31 + 3 * length (s_watchers s)"
    using steps_after_hangup [OF assms(3,2)] by linarith
  show "s_bind s' = BReturned \<or> jammed s'" if "at_rest s'"
    using at_rest_ended [OF inv(1,4) _ that] steps_after_hangup [OF assms(3,2)] by blast
  show "\<not> jammed s'" if "list_all (\<lambda>a. \<not> rejects a) (as @ bs)"
    using never_rejects [OF run that] by (intro not_jammed) (simp add: ws_Bind_def)
qed

lemma jammed_step: "jammed s \<Longrightarrow> session_step a s = Some s' \<Longrightarrow>
    jammed s' \<and> s_reader s' = s_reader s \<and> s_out s' = s_out s \<and> s_done s' = s_done s"
proof (cases a)
  case (Reader b)
  assume "jammed s" "session_step a s = Some s'"
  then show ?thesis unfolding Reader session_step.simps ReadSend_step_def
    by (auto elim!: reader_atE simp: jammed_def split: if_splits)
next
  case (Writer b)
  assume "jammed s" "session_step a s = Some s'"
  then show ?thesis unfolding Writer session_step.simps WriteErrors_step_def by (auto elim!: writer_atE simp: jammed_def)
qed (auto simp: jammed_def recver_frame watcher_frame hangup_step_def elim!: Bind_stepE split: if_splits)

lemma jammed_runs: "runs s bs s' \<Longrightarrow> jammed s \<Longrightarrow> jammed s' \<and> s_out s' = s_out s \<and> s_done s' = s_done s"
  by (induction rule: runs.induct) (auto dest: jammed_step)

text \<open>
  C33 (session_jams).  A write that fails ends \<^verbatim>\<open>WriteErrors\<close>; when the client goes on to send
  malformed messages, \<^verbatim>\<open>ReadSend\<close> waits forever on the full channel: whatever happens, also
  after a hangup, \<^verbatim>\<open>Bind\<close> does not return and nothing more is read.
\<close>

theorem session_jams:
  assumes "runs ws_Bind as s" "jammed s" "runs s bs s'"
  shows "s_bind s' = BWait \<and> jammed s' \<and> s_out s' = s_out s"
proof -
  have j: "jammed s'" "s_out s' = s_out s" using jammed_runs [OF assms(3,2)] by auto
  have "watcher_inv s'" "reader_inv (as @ bs) s'" using session_inv [OF runs_trans [OF assms(3,1)]] by auto
  then show ?thesis using j by (auto simp: watcher_inv_def reader_inv_def jammed_def split: reader.splits)
qed

section \<open>Sessions on concrete input\<close>

text \<open>One message from the client and one from the river; then a hangup, and the end of the session.\<close>

definition demo_chat :: "act list" where
  "demo_chat = [Reader RGo, Recver (VGets (Ret ''yo'')), Reader RGo, Reader (RReturns (''hi'', True, None)), Reader RGo,
     Recver (VWrites None), Reader RGo, Reader (RSendReturns None)]"

definition demo_end :: "act list" where
  "demo_end = [Reader RGo, Reader RGo, Reader RGo, Binding, Binding, Watcher 0 WQuit, Writer EStops]"

lemma demo_chat_runs: "exec demo_chat ws_Bind = Some s \<Longrightarrow> runs ws_Bind demo_chat s"
  using exec_runs [of demo_chat ws_Bind s ws_Bind "[]"] runs.start by simp

theorem session_carries_witness:
  "\<exists>s. exec demo_chat ws_Bind = Some s \<and> sents (s_out s) = [''hi''] \<and> datas (s_wire s) = [''yo''] \<and>
     ws_ReadSend (s_turns s) = (s_out s, s_done s) \<and> (\<exists>l. length l \<le> 1 \<and> client_msgs demo_chat = [''hi''] @ l)"
proof -
  obtain s where s: "exec demo_chat ws_Bind = Some s" "sents (s_out s) = [''hi'']" "datas (s_wire s) = [''yo'']"
    by (simp add: demo_chat_def ws_Bind_def step_defs turn_over_def ws_HangupSender_Read_def)
  show ?thesis using session_carries [OF demo_chat_runs [OF s(1)]] s by auto
qed

theorem session_hangup_ends_witness:
  "\<exists>s'. exec (demo_chat @ [Hangup] @ demo_end) ws_Bind = Some s' \<and> at_rest s' \<and> s_bind s' = BReturned"
proof -
  let ?s = "the (exec (demo_chat @ [Hangup]) ws_Bind)" and ?s' = "the (exec (demo_chat @ [Hangup] @ demo_end) ws_Bind)"
  note defs = demo_chat_def demo_end_def ws_Bind_def step_defs turn_over_def ws_HangupSender_Read_def
  have s: "exec (demo_chat @ [Hangup]) ws_Bind = Some ?s" "s_signal ?s" and s': "exec demo_end ?s = Some ?s'"
    by (simp_all add: defs)
  have all: "exec (demo_chat @ [Hangup] @ demo_end) ws_Bind = Some ?s'" by (simp add: defs)
  have stop: "s_reader ?s' = RDone" "s_writer ?s' = EDone" "s_watchers ?s' = [Gone]" "s_bind ?s' = BReturned"
    by (simp_all add: defs)
  have "at_rest ?s'" unfolding at_rest_def
  proof (intro allI impI)
    fix a assume "session_step a ?s' \<noteq> None"
    then show "up_to_others ?s' a" using stop
      by (cases a) (auto simp: step_defs up_to_others_def split: if_splits)
  qed
  moreover have "\<not> jammed ?s'" using stop by (simp add: jammed_def)
  ultimately show ?thesis
    using session_hangup_ends [of "demo_chat @ [Hangup]" ?s demo_end ?s'] all s s'
      exec_runs [OF s(1) runs.start] exec_runs [OF s' runs.start] by auto
qed

definition bad_turn :: "act list" where
  "bad_turn = [Reader RGo, Reader RGo, Reader (RReturns ([], False, Some JsonErr)), Reader RGo, Reader RGo]"

text \<open>Twelve malformed messages; the report of the first one cannot be written.\<close>

definition demo_jam :: "act list" where
  "demo_jam = bad_turn @ [Reader RGo, Writer ETakes, Writer (EWrites (Some JsonErr))] @
     concat (replicate 10 (bad_turn @ [Reader RGo])) @ bad_turn"

theorem session_jams_witness:
  "\<exists>s s'. exec demo_jam ws_Bind = Some s \<and> jammed s \<and> exec [Hangup, Watcher 0 WQuit] s = Some s' \<and>
     s_signal s' \<and> s_bind s' = BWait \<and> s_out s' = s_out s"
proof -
  let ?s = "the (exec demo_jam ws_Bind)" and ?s' = "the (exec [Hangup, Watcher 0 WQuit] (the (exec demo_jam ws_Bind)))"
  note defs = demo_jam_def bad_turn_def ws_Bind_def step_defs turn_over_def ws_HangupSender_Read_def errs_cap_def
    io_EOF_def jammed_def eval_nat_numeral
  have s: "exec demo_jam ws_Bind = Some ?s" "jammed ?s" by (simp_all add: defs)
  have s': "exec [Hangup, Watcher 0 WQuit] ?s = Some ?s'" "s_signal ?s'" by (simp_all add: defs)
  have "s_bind ?s' = BWait \<and> jammed ?s' \<and> s_out ?s' = s_out ?s"
    using session_jams [OF exec_runs [OF s(1) runs.start] s(2) exec_runs [OF s'(1) runs.start]] by simp
  then show ?thesis using s s' by blast
qed

end
