(* ===== verification/Interleaving.thy ===== *)
theory Interleaving
  imports Rest_Api
begin

text \<open>
  Requests that run at the same time.  The HTTP server runs every handler in a goroutine of its
  own, and bolt lets one transaction commit at a time, so handlers interleave between their
  transactions.  A handler is a \<open>process\<close> here: a sequence of transactions, each of which
  chooses how to go on.  Run alone, a process is the handler; \<open>interleave\<close> runs a list of
  processes in the order of a schedule.

  The theorems: what inceptions and task updates promise in every schedule, and what the checks
  that a handler makes in an earlier transaction do not promise.
\<close>

section \<open>Processes\<close>

datatype process = Done response | Tx "server \<Rightarrow> process \<times> server"

primrec run_alone :: "process \<Rightarrow> server \<Rightarrow> response \<times> server" where
  "run_alone (Done r) = (\<lambda>sv. (r, sv))"
| "run_alone (Tx f) = (\<lambda>sv. case ((map_prod run_alone (\<lambda>x. x)) \<circ> f) sv of (g, sv1) \<Rightarrow> g sv1)"

lemma run_alone_Tx [simp]: "run_alone (Tx f) sv = (case f sv of (p, sv1) \<Rightarrow> run_alone p sv1)"
  by (simp add: case_prod_beta)

declare run_alone.simps(2) [simp del]

text \<open>One step of the \<open>i\<close>-th process; a process that is done makes no step.\<close>

definition proc_step :: "nat \<Rightarrow> process list \<times> server \<Rightarrow> process list \<times> server" where
  "proc_step i c =
     (case c of (ps, sv) \<Rightarrow>
        if i < length ps then
          (case ps ! i of Done r \<Rightarrow> (ps, sv) | Tx f \<Rightarrow> (case f sv of (p, sv1) \<Rightarrow> (ps[i := p], sv1)))
        else (ps, sv))"

definition interleave :: "nat list \<Rightarrow> process list \<times> server \<Rightarrow> process list \<times> server" where
  "interleave is c = fold proc_step is c"

lemma interleave_simps [simp]: "interleave [] c = c" "interleave (i # is) c = interleave is (proc_step i c)"
  by (simp_all add: interleave_def)

lemma proc_step_cases:
  assumes "proc_step i (ps, sv) = (ps', sv')"
  obtains "ps' = ps" "sv' = sv" | f p where "i < length ps" "ps ! i = Tx f" "f sv = (p, sv')" "ps' = ps[i := p]"
  using assms by (auto simp: proc_step_def split: if_splits process.splits prod.splits)

section \<open>Handlers as processes\<close>

text \<open>A transaction that only reads, one that writes, and the last part of a handler with one
  transaction in it.\<close>

definition tx_View :: "'a dbop \<Rightarrow> ('a go \<Rightarrow> process) \<Rightarrow> process" where
  "tx_View m k = Tx (\<lambda>sv. (k (sv_View m sv), sv))"

definition tx_Update :: "'a dbop \<Rightarrow> ('a go \<Rightarrow> response \<times> (server \<Rightarrow> server)) \<Rightarrow> process" where
  "tx_Update m k = Tx (\<lambda>sv. case sv_Update m sv of (r, sv1) \<Rightarrow> (Done (fst (k r)), snd (k r) sv1))"

definition tx_last :: "(server \<Rightarrow> response \<times> server) \<Rightarrow> process" where
  "tx_last h = Tx (\<lambda>sv. case h sv of (resp, sv1) \<Rightarrow> (Done resp, sv1))"

lemma run_alone_txs [simp]:
  "run_alone (tx_View m k) sv = run_alone (k (sv_View m sv)) sv"
  "run_alone (tx_Update m k2) sv = (case sv_Update m sv of (r, sv1) \<Rightarrow> (fst (k2 r), snd (k2 r) sv1))"
  "run_alone (tx_last h) sv = h sv"
  by (simp_all add: tx_View_def tx_Update_def tx_last_def split: prod.splits)

text \<open>\<^verbatim>\<open>rest/incept.go\<close> with \<^verbatim>\<open>incept.Incept\<close>: a transaction that checks, and one that checks
  again and creates.\<close>

definition incept_checks :: "Ticket \<Rightarrow> Login \<Rightarrow> unit dbop" where
  "incept_checks key l =
     store_Wrap [incept_CheckTicketExist key, users_CheckNotExist [login_Name l], auth_CheckLoginNotExist l]"

definition incept_creates :: "uuid \<Rightarrow> Ticket \<Rightarrow> Login \<Rightarrow> unit dbop" where
  "incept_creates salt key l =
     store_Wrap [incept_CheckTicketExist key, users_CheckNotExist [login_Name l], auth_CheckLoginNotExist l,
                 incept_PunchTicket key, users_Create (login_User l), auth_Create l salt]"

definition incept_answer :: "Login \<Rightarrow> unit go \<Rightarrow> response" where
  "incept_answer l x =
     (case x of
        Ret _ \<Rightarrow> OkBody (enc_User (login_User l))
      | Panic \<Rightarrow> Panicked
      | Fail e \<Rightarrow> HttpError (if incept_IsTicketMissing e then StatusNotFound
                            else if users_IsExists e \<or> auth_IsExists e then StatusConflict
                            else StatusInternalServerError))"

definition proc_Incept :: "uuid \<Rightarrow> request \<Rightarrow> process" where
  "proc_Incept salt r =
     (case decode_body dec_Login zero_Login r of
        None \<Rightarrow> Done (HttpError StatusBadRequest)
      | Some l \<Rightarrow>
          (case auth_ValidateNew l of
             Fail _ \<Rightarrow> Done (HttpError StatusBadRequest)
           | Panic \<Rightarrow> Done Panicked
           | Ret _ \<Rightarrow>
               (case uuid_FromString (ByName r ''key'') of
                  Fail _ \<Rightarrow> Done (HttpError StatusBadRequest)
                | Panic \<Rightarrow> Done Panicked
                | Ret tkt \<Rightarrow>
                    tx_View (incept_checks tkt l) (\<lambda>x.
                      case x of
                        Ret _ \<Rightarrow> tx_Update (incept_creates salt tkt l) (\<lambda>y. (incept_answer l y, \<lambda>sv. sv))
                      | _ \<Rightarrow> Done (incept_answer l x)))))"

text \<open>\<^verbatim>\<open>Task.Put\<close>: the users are checked, the task is read, and the branch of the switch is one
  transaction with the notifications after it.\<close>

definition proc_Task_Put :: "gtime option \<Rightarrow> request \<Rightarrow> process" where
  "proc_Task_Put timer r =
     (case mw_CtxGetUserID r of
        Ret userID \<Rightarrow>
          (case uuid_FromString (ByName r ''id'') of
             Fail _ \<Rightarrow> Done (HttpError StatusBadRequest)
           | Panic \<Rightarrow> Done Panicked
           | Ret tID \<Rightarrow>
               (case decode_body dec_Task zero_Task r of
                  None \<Rightarrow> Done (HttpError StatusBadRequest)
                | Some sent0 \<Rightarrow>
                    if g_Owner (task_Group sent0) \<noteq> userID \<and> \<not> smap_get (g_Writers (task_Group sent0)) userID
                    then Done (HttpError StatusBadRequest)
                    else (case add_member userID (task_Group sent0) of
                            Ret g \<Rightarrow>
                              (let allUsers = all_users userID g; sent = sent0\<lparr>task_Group := writers_read g\<rparr>
                               in tx_View (users_CheckUsersExist allUsers) (\<lambda>x. case x of
                                    Fail e \<Rightarrow> Done (check_status e)
                                  | Panic \<Rightarrow> Done Panicked
                                  | Ret _ \<Rightarrow> tx_View (task_Load tID zero_Task) (\<lambda>y. case y of
                                      Fail e \<Rightarrow> Done (HttpError (if store_IsMissing e then StatusNotFound
                                                                else StatusInternalServerError))
                                    | Panic \<Rightarrow> Done Panicked
                                    | Ret old \<Rightarrow> tx_last (put_dispatch timer userID allUsers old sent))))
                          | _ \<Rightarrow> Done Panicked)))
      | _ \<Rightarrow> Done Panicked)"

definition proc_Task_Create :: "uuid \<Rightarrow> request \<Rightarrow> process" where
  "proc_Task_Create newV4 r =
     (case mw_CtxGetUserID r of
        Ret userID \<Rightarrow>
          (case decode_body dec_Task zero_Task r of
             None \<Rightarrow> Done (HttpError StatusBadRequest)
           | Some sent \<Rightarrow>
               if g_Owner (task_Group sent) \<noteq> userID then Done (HttpError StatusBadRequest)
               else (case add_member userID (task_Group sent) of
                       Ret g \<Rightarrow>
                         (let tsk = sent\<lparr>task_Group := g\<rparr>; allUsers = all_users userID g
                          in tx_View (users_CheckUsersExist allUsers) (\<lambda>x. case x of
                               Fail e \<Rightarrow> Done (check_status e)
                             | Panic \<Rightarrow> Done Panicked
                             | Ret _ \<Rightarrow> tx_Update (db_bind (users_CheckUsersExist allUsers) (\<lambda>_. task_Store newV4 tsk)) (\<lambda>y.
                                 case y of
                                   Fail e \<Rightarrow> (check_status e, \<lambda>sv. sv)
                                 | Panic \<Rightarrow> (Panicked, \<lambda>sv. sv)
                                 | Ret tsk1 \<Rightarrow>
                                     (let tsk2 = tsk1\<lparr>task_Notes := task_Notes tsk, task_Resources := []\<rparr>
                                      in (OkBody (enc_Task tsk2),
                                          notify_all ''tasks'' (enc_Task tsk2) (as_set (g_Owner g # allUsers)))))))
                     | _ \<Rightarrow> Done Panicked))
      | _ \<Rightarrow> Done Panicked)"

definition proc_Task_Delete :: "request \<Rightarrow> process" where
  "proc_Task_Delete r =
     (case mw_CtxGetUserID r of
        Ret userID \<Rightarrow>
          (case uuid_FromString (ByName r ''id'') of
             Fail _ \<Rightarrow> Done (HttpError StatusBadRequest)
           | Panic \<Rightarrow> Done Panicked
           | Ret tID \<Rightarrow>
               tx_View (task_Load tID zero_Task) (\<lambda>x. case x of
                  Fail e \<Rightarrow> Done (HttpError (if store_IsMissing e then StatusNotFound else StatusInternalServerError))
                | Panic \<Rightarrow> Done Panicked
                | Ret tsk \<Rightarrow>
                    if userID \<noteq> g_Owner (task_Group tsk) then Done (HttpError StatusUnauthorized)
                    else tx_Update (task_Delete tID) (\<lambda>y. case y of
                            Fail _ \<Rightarrow> (HttpError StatusInternalServerError, \<lambda>sv. sv)
                          | Panic \<Rightarrow> (Panicked, \<lambda>sv. sv)
                          | Ret _ \<Rightarrow>
                              (OkEmpty, notify_all ''task-deleted'' (JStr (ByName r ''id''))
                                 (map fst (users_AllUsers (task_Group tsk)))))))
      | _ \<Rightarrow> Done Panicked)"

text \<open>\<^verbatim>\<open>Token.Create\<close>: the password is checked in one transaction, the session is made in another.\<close>

definition proc_Token_Create :: "uuid \<Rightarrow> uuid \<Rightarrow> gtime \<Rightarrow> request \<Rightarrow> process" where
  "proc_Token_Create uTok uRef now r =
     (case decode_body dec_Login zero_Login r of
        None \<Rightarrow> Done (HttpError StatusBadRequest)
      | Some l \<Rightarrow>
          tx_View (auth_Check l) (\<lambda>x. case x of
             Fail (auth_ErrInvalid _) \<Rightarrow> Done (HttpError StatusNotFound)
           | Fail (auth_ErrMissing _) \<Rightarrow> Done (HttpError StatusNotFound)
           | Fail (auth_ErrDisabled _) \<Rightarrow> Done (HttpError StatusUnauthorized)
           | Fail _ \<Rightarrow> Done (HttpError StatusInternalServerError)
           | Panic \<Rightarrow> Done Panicked
           | Ret _ \<Rightarrow>
               tx_Update (auth_NewSession zero_Session (time_Add now auth_Expiration) auth_Expiration
                        (auth_NewToken uTok BearerType) (auth_NewToken uRef RefreshType) (login_Name l)) (\<lambda>y. case y of
                  Fail _ \<Rightarrow> (HttpError StatusInternalServerError, \<lambda>sv. sv)
                | Panic \<Rightarrow> (Panicked, \<lambda>sv. sv)
                | Ret sesh \<Rightarrow> (OkBody (enc_Session sesh), \<lambda>sv. sv))))"

text \<open>
  A process that is not interrupted does what its handler does.
\<close>

theorem processes_alone:
  "run_alone (proc_Incept salt r) sv = rest_Incept_Incept salt r sv \<and>
   run_alone (proc_Task_Put timer r) sv = rest_Task_Put timer r sv \<and>
   run_alone (proc_Task_Create newV4 r) sv = rest_Task_Create newV4 r sv \<and>
   run_alone (proc_Task_Delete r) sv = rest_Task_Delete r sv \<and>
   run_alone (proc_Token_Create uTok uRef now r) sv = rest_Token_Create uTok uRef now r sv"
proof (intro conjI)
  show "run_alone (proc_Incept salt r) sv = rest_Incept_Incept salt r sv"
    by (simp add: proc_Incept_def rest_Incept_Incept_def incept_Incept_def incept_checks_def incept_creates_def
        incept_answer_def sv_View_def sv_Update_def db_View_def split: option.splits go.splits prod.splits)
  show "run_alone (proc_Task_Put timer r) sv = rest_Task_Put timer r sv"
    by (simp add: proc_Task_Put_def rest_Task_Put_def put_parse_def Let_def split: option.splits go.splits prod.splits sum.splits)
  show "run_alone (proc_Task_Create newV4 r) sv = rest_Task_Create newV4 r sv"
    by (simp add: proc_Task_Create_def rest_Task_Create_def Let_def split: option.splits go.splits prod.splits)
  show "run_alone (proc_Task_Delete r) sv = rest_Task_Delete r sv"
    by (simp add: proc_Task_Delete_def rest_Task_Delete_def split: option.splits go.splits prod.splits)
  show "run_alone (proc_Token_Create uTok uRef now r) sv = rest_Token_Create uTok uRef now r sv"
    by (simp add: proc_Token_Create_def rest_Token_Create_def split: option.splits go.splits prod.splits err.splits)
qed

section \<open>Invariants under every schedule\<close>

text \<open>Every transaction that a process may come to keeps \<open>J\<close>, in states where \<open>I\<close> holds.\<close>

inductive keeps_inv :: "(server \<Rightarrow> bool) \<Rightarrow> (server \<Rightarrow> bool) \<Rightarrow> process \<Rightarrow> bool" for I J where
  keeps_Done: "keeps_inv I J (Done r)"
| keeps_Tx: "(\<And>sv. I sv \<Longrightarrow> (J sv \<longrightarrow> J (snd (f sv))) \<and> keeps_inv I J (fst (f sv))) \<Longrightarrow> keeps_inv I J (Tx f)"

inductive_simps keeps_inv_Tx: "keeps_inv I J (Tx f)"

lemma keeps_inv_tx_View:
  "(\<And>a. keeps_inv I J (k (Ret a))) \<Longrightarrow> (\<And>e. keeps_inv I J (k (Fail e))) \<Longrightarrow> keeps_inv I J (k Panic) \<Longrightarrow>
     keeps_inv I J (tx_View m k)"
  by (auto simp: tx_View_def keeps_inv_Tx) (metis go.exhaust)

lemma keeps_inv_tx_Update:
  "(\<And>sv. I sv \<Longrightarrow> J sv \<Longrightarrow> J (snd (k (fst (sv_Update m sv))) (snd (sv_Update m sv)))) \<Longrightarrow> keeps_inv I J (tx_Update m k)"
  by (simp add: tx_Update_def keeps_inv_Tx keeps_Done case_prod_beta)

lemma keeps_inv_tx_last: "(\<And>sv. I sv \<Longrightarrow> J sv \<Longrightarrow> J (snd (h sv))) \<Longrightarrow> keeps_inv I J (tx_last h)"
  by (simp add: tx_last_def keeps_inv_Tx keeps_Done case_prod_beta)

lemma proc_step_inv:
  assumes "proc_step i (ps, sv) = (ps', sv')" "I sv" "\<forall>p \<in> set ps. keeps_inv I J p"
  shows "(J sv \<longrightarrow> J sv') \<and> (\<forall>p \<in> set ps'. keeps_inv I J p)"
  using assms(1)
proof (cases rule: proc_step_cases)
  case (2 f p)
  then have "keeps_inv I J (Tx f)" using assms(3) by (metis nth_mem)
  then have "J sv \<longrightarrow> J sv'" "keeps_inv I J p" using 2 assms(2) by (metis fst_conv snd_conv keeps_inv_Tx)+
  then show ?thesis using 2 assms(3) by (auto dest!: subsetD [OF set_update_subset_insert])
qed (use assms in simp)

lemma interleave_inv:
  "interleave is (ps, sv) = (ps', sv') \<Longrightarrow> I sv \<Longrightarrow> \<forall>p \<in> set ps. keeps_inv I I p \<Longrightarrow> I sv'"
proof (induction "is" arbitrary: ps sv)
  case (Cons i "is")
  obtain ps1 sv1 where st: "proc_step i (ps, sv) = (ps1, sv1)" by force
  then show ?case using Cons.IH [of ps1 sv1] Cons.prems proc_step_inv [OF st, of I I] by simp
qed simp

section \<open>The coin in circulation\<close>

definition coin_inv :: "int64 \<Rightarrow> server \<Rightarrow> bool" where
  "coin_inv c sv \<longleftrightarrow> coin_ok (sv_db sv) \<and> incept_tables (sv_db sv) \<and> total_coin (sv_db sv) = c"

text \<open>A transaction that keeps the coin when it returns; when it fails it is rolled back.\<close>

definition coin_safe :: "'a dbop \<Rightarrow> bool" where
  "coin_safe m \<longleftrightarrow> keeps stays_wf m \<and> keeps stays_tbl m \<and> coin_neutral m"

lemma coin_inv_Update: "coin_safe m \<Longrightarrow> coin_inv c sv \<Longrightarrow> coin_inv c (snd (sv_Update m sv))"
proof -
  assume m: "coin_safe m" and c: "coin_inv c sv"
  obtain r s' where run: "m (sv_db sv) = (r, s')" by force
  have "stays_wf (sv_db sv) s'" "stays_tbl (sv_db sv) s'"
    using m run keepsD [of stays_wf m] keepsD [of stays_tbl m] by (auto simp: coin_safe_def)
  then show ?thesis using c m run
    by (cases r) (auto simp: sv_Update_def db_Update_def coin_inv_def coin_safe_def coin_neutral_def coin_ok_def
        incept_tables_def stays_wf_def stays_tbl_def)
qed

lemma coin_inv_out: "sv_db sv' = sv_db sv \<Longrightarrow> coin_inv c sv' = coin_inv c sv"
  by (simp add: coin_inv_def)

lemma keeps_AddCoin: "keeps stays_wf (users_AddCoin u c)" "keeps stays_tbl (users_AddCoin u c)"
  by (auto simp: users_AddCoin_def Let_def)

lemma keeps_CheckUsers: "keeps stays_wf (users_CheckUsersExist us)" "keeps stays_tbl (users_CheckUsersExist us)"
  by (auto simp: keeps_def stays_wf_def stays_tbl_def users_CheckUsersExist_state)

lemma coin_safe_puts:
  "coin_safe (tx_uncompleteAsOwner us old new)" "coin_safe (tx_updateAsOwner us old new)"
  "coin_safe (tx_completeAsWriter us u old new)" "coin_safe (tx_uncompleteAsWriter us u old new)"
  "coin_safe (tx_updateAsWriter us old new)"
  by (auto simp: coin_safe_def neutral_owner neutral_updates neutral_complete neutral_uncomplete keeps_AddCoin keeps_CheckUsers
      task_wf.keeps_task_Store task_tbl.keeps_task_Store tx_uncompleteAsOwner_def tx_updateAsOwner_def tx_completeAsWriter_def
      tx_uncompleteAsWriter_def tx_updateAsWriter_def intro: neutral_owner [unfolded tx_uncompleteAsOwner_def]
      neutral_updates [unfolded tx_updateAsOwner_def tx_updateAsWriter_def] neutral_complete [unfolded tx_completeAsWriter_def]
      neutral_uncomplete [unfolded tx_uncompleteAsWriter_def])

lemma coin_inv_answer:
  assumes "coin_safe m" "coin_inv c sv" "\<And>a sv1. sv_db (notify a sv1) = sv_db sv1"
  shows "coin_inv c (snd (put_answer notify new' (sv_Update m sv)))"
  using coin_inv_Update [OF assms(1,2)] assms(3)
  by (auto simp: put_answer_def coin_inv_def split: prod.splits go.splits)

lemma coin_inv_dispatch: "coin_inv c sv \<Longrightarrow> coin_inv c (snd (put_dispatch timer u us old sent sv))"
proof -
  assume c: "coin_inv c sv"
  note ans = coin_inv_answer [OF _ c]
  have "coin_inv c (snd (rest_uncompleteAsOwner us old sent sv))" "coin_inv c (snd (rest_updateAsOwner timer us old sent sv))"
    "coin_inv c (snd (rest_completeAsWriter us u old sent now sv))" "coin_inv c (snd (rest_uncompleteAsWriter us u old sent sv))"
    "coin_inv c (snd (rest_updateAsWriter us old sent sv))" for now
    using c by (simp_all add: rest_uncompleteAsOwner_def rest_updateAsOwner_def rest_completeAsWriter_def
        rest_uncompleteAsWriter_def rest_updateAsWriter_def Let_def ans coin_safe_puts split: prod.splits)
  then show ?thesis using c by (simp add: put_dispatch_def split: put_case.splits option.splits)
qed

lemma coin_safe_Store: "coin_safe (db_bind (users_CheckUsersExist us) (\<lambda>_. task_Store i t))"
  using task_Store_coin
  by (auto simp: coin_safe_def coin_neutral_def keeps_CheckUsers task_wf.keeps_task_Store task_tbl.keeps_task_Store
      db_bind_Ret dest!: users_Check_Ret)

lemma coin_safe_Delete: "coin_safe (task_Delete i)"
  unfolding coin_safe_def coin_neutral_def
proof (intro conjI allI impI task_wf.keeps_task_Delete task_tbl.keeps_task_Delete)
  fix s a s' assume "task_Delete i s = (Ret a, s')"
  then have "same_bkt UserBucket s s'" by (rule keepsD [OF task_users.keeps_task_Delete])
  then show "total_coin s' = total_coin s" by (simp add: same_bkt_def total_coin_def del: bkt_at.simps)
qed

lemma keeps_coin_Update:
  "coin_safe m \<Longrightarrow> (\<And>r sv. sv_db (snd (k r) sv) = sv_db sv) \<Longrightarrow> keeps_inv (coin_inv c) (coin_inv c) (tx_Update m k)"
  using coin_inv_Update [of m c] by (intro keeps_inv_tx_Update) (simp add: coin_inv_def)

lemma keeps_task_handlers:
  "keeps_inv (coin_inv c) (coin_inv c) (proc_Task_Put timer r)" "keeps_inv (coin_inv c) (coin_inv c) (proc_Task_Create i r)"
  "keeps_inv (coin_inv c) (coin_inv c) (proc_Task_Delete r)"
  by (auto simp: proc_Task_Put_def proc_Task_Create_def proc_Task_Delete_def Let_def keeps_Done coin_inv_dispatch
      coin_safe_Store coin_safe_Delete intro!: keeps_inv_tx_View keeps_inv_tx_last keeps_coin_Update split: go.splits option.splits)

text \<open>An inception adds a user without coin.\<close>

lemma incept_creates_Ret:
  assumes "incept_tables s" "incept_creates salt key l s = (Ret x, s')"
  shows "table s TicketBucket key \<noteq> None" "table s UserBucket (login_Name l) = None" "valid_key (login_Name l)"
    "s' = incepted salt key l s"
proof -
  have "table s TicketBucket key \<noteq> None \<and> table s UserBucket (login_Name l) = None \<and> valid_key (login_Name l) \<and>
    s' = incepted salt key l s"
  proof (cases "valid_key (login_Name l)")
    case True
    then show ?thesis using assms
      by (auto simp: incept_creates_def incept_tables_def incept_CheckTicketExist_eq users_CheckNotExist_single
          auth_CheckLoginNotExist_eq incept_PunchTicket_def users_Create_def auth_Create_def incepted_def Let_def
          split: if_splits)
  next
    case False
    have "has_tbl UserBucket (db_del TicketBucket key s)" using assms(1) by (simp add: incept_tables_def)
    from store_Put_invalid [OF this False, of "Doc (enc_User (login_User l))"] show ?thesis using assms
      by (auto simp: incept_creates_def incept_tables_def incept_CheckTicketExist_eq users_CheckNotExist_single
          auth_CheckLoginNotExist_eq incept_PunchTicket_def users_Create_def store_Marshal_def split: if_splits)
  qed
  then show "table s TicketBucket key \<noteq> None" "table s UserBucket (login_Name l) = None" "valid_key (login_Name l)"
    "s' = incepted salt key l s" by auto
qed

lemma keeps_incept_creates: "keeps stays_wf (incept_creates salt key l)" "keeps stays_tbl (incept_creates salt key l)"
proof -
  have "keeps stays_wf (users_CheckNotExist ns)" "keeps stays_tbl (users_CheckNotExist ns)" for ns
    by (simp_all add: keeps_def stays_wf_def stays_tbl_def users_CheckNotExist_state)
  then show "keeps stays_wf (incept_creates salt key l)" "keeps stays_tbl (incept_creates salt key l)"
    by (auto simp: incept_creates_def incept_CheckTicketExist_def auth_CheckLoginNotExist_def
        incept_PunchTicket_def users_Create_def auth_Create_def Let_def)
qed

lemma same_total: "bkt_at [UserBucket] s' = bkt_at [UserBucket] s \<Longrightarrow> total_coin s' = total_coin s"
  by (simp add: total_coin_def del: bkt_at.simps)

lemma coin_inv_incept:
  assumes "user_Coin (login_User l) = 0" "coin_inv c sv"
  shows "coin_inv c (snd (sv_Update (incept_creates salt key l) sv))"
proof (cases "incept_creates salt key l (sv_db sv)")
  case (Pair r s')
  let ?s = "sv_db sv"
  have s: "incept_tables ?s" "coin_ok ?s" "total_coin ?s = c" using assms(2) by (auto simp: coin_inv_def)
  show ?thesis
  proof (cases r)
    case (Ret x)
    note r = incept_creates_Ret [OF s(1) Pair [unfolded Ret]]
    let ?s1 = "db_del TicketBucket key ?s"
    have t: "has_tbl TicketBucket ?s" "has_tbl UserBucket ?s" "has_tbl LoginBucket ?s"
      using s(1) by (auto simp: incept_tables_def)
    have "stays_wf ?s s'" "stays_tbl ?s s'"
      using keepsD [OF keeps_incept_creates(1) Pair] keepsD [OF keeps_incept_creates(2) Pair] by auto
    then have ok: "coin_ok s'" "incept_tables s'"
      using s by (auto simp: coin_ok_def incept_tables_def stays_wf_def stays_tbl_def)
    have "wf_bucket ?s1" using s(2) by (auto simp: coin_ok_def wf_db_del)
    moreover have "user_at ?s1 (login_Name l) = None" using r(2) t by (simp add: user_at_def)
    ultimately have "total_coin (db_put UserBucket (login_Name l) (Doc (enc_User (login_User l))) ?s1) = total_coin ?s1"
      using total_coin_put_gen [of ?s1 "login_Name l" "login_User l"] t assms(1) by simp
    moreover have "total_coin ?s1 = total_coin ?s"
      by (rule same_total) (use t in \<open>simp add: bkt_at_db_del del: bkt_at.simps\<close>)
    moreover have "total_coin s' = total_coin (db_put UserBucket (login_Name l) (Doc (enc_User (login_User l))) ?s1)"
      unfolding r(4) incepted_def by (rule same_total) (use t in \<open>simp add: bkt_at_db_put del: bkt_at.simps\<close>)
    ultimately show ?thesis using ok s(3) Pair Ret by (simp add: sv_Update_def db_Update_def coin_inv_def)
  qed (use Pair assms(2) in \<open>auto simp: sv_Update_def db_Update_def coin_inv_def\<close>)
qed

lemma keeps_Incept: "keeps_inv (coin_inv c) (coin_inv c) (proc_Incept salt r)"
  by (auto simp: proc_Incept_def keeps_Done auth_ValidateNew_def users_ValidateNew_def coin_inv_incept
      intro!: keeps_inv_tx_View keeps_inv_tx_Update split: go.splits option.splits if_splits)

text \<open>
  C1 (coin_conserved).  However requests that create, update and delete tasks and inceptions of
  new users interleave, the coin in circulation stays the same.
\<close>

theorem coin_conserved:
  assumes "coin_ok (sv_db sv)" and "incept_tables (sv_db sv)"
    and "\<forall>p \<in> set ps. \<exists>timer i r. p = proc_Task_Put timer r \<or> p = proc_Task_Create i r \<or> p = proc_Task_Delete r \<or> p = proc_Incept i r"
  shows "total_coin (sv_db (snd (interleave is (ps, sv)))) = total_coin (sv_db sv)"
proof -
  let ?I = "coin_inv (total_coin (sv_db sv))"
  obtain ps' sv' where run: "interleave is (ps, sv) = (ps', sv')" by force
  have "\<forall>p \<in> set ps. keeps_inv ?I ?I p" using assms(3) by (auto dest!: bspec simp: keeps_task_handlers keeps_Incept)
  moreover have "?I sv" using assms(1,2) by (simp add: coin_inv_def)
  ultimately have "?I sv'" using interleave_inv [OF run] by blast
  then show ?thesis by (simp add: run coin_inv_def)
qed

section \<open>What at most one process gets\<close>

fun succeeded :: "process \<Rightarrow> bool" where
  "succeeded (Done (OkBody j)) = True"
| "succeeded _ = False"

text \<open>A process that succeeds only in a transaction that finds \<open>F\<close> and leaves it false.\<close>

inductive takes :: "(server \<Rightarrow> bool) \<Rightarrow> (server \<Rightarrow> bool) \<Rightarrow> process \<Rightarrow> bool" for I F where
  takes_Done: "\<not> succeeded (Done r) \<Longrightarrow> takes I F (Done r)"
| takes_Tx: "(\<And>sv. I sv \<Longrightarrow> if succeeded (fst (f sv)) then F sv \<and> \<not> F (snd (f sv)) else takes I F (fst (f sv))) \<Longrightarrow>
    takes I F (Tx f)"

inductive_simps takes_Tx_iff: "takes I F (Tx f)"

text \<open>Processes that take \<open>F\<close>, among others that leave it false once it is: one of them succeeds.\<close>

definition contended :: "(server \<Rightarrow> bool) \<Rightarrow> (server \<Rightarrow> bool) \<Rightarrow> nat set \<Rightarrow> process list \<Rightarrow> server \<Rightarrow> bool" where
  "contended I F T ps sv \<longleftrightarrow> I sv \<and>
     (\<forall>p \<in> set ps. keeps_inv I I p \<and> keeps_inv I (\<lambda>sv. \<not> F sv) p) \<and>
     (\<forall>i \<in> T. i < length ps \<and> (if succeeded (ps ! i) then \<not> F sv else takes I F (ps ! i))) \<and>
     (\<forall>i \<in> T. \<forall>j \<in> T. i \<noteq> j \<longrightarrow> \<not> (succeeded (ps ! i) \<and> succeeded (ps ! j)))"

lemma contended_step:
  assumes "proc_step i (ps, sv) = (ps', sv')" "contended I F T ps sv"
  shows "contended I F T ps' sv'"
  using assms(1)
proof (cases rule: proc_step_cases)
  case (2 f p)
  note c = assms(2) [unfolded contended_def]
  have I: "I sv" "I sv'" and k: "\<forall>p \<in> set ps'. keeps_inv I I p \<and> keeps_inv I (\<lambda>sv. \<not> F sv) p"
    and gone: "\<not> F sv \<longrightarrow> \<not> F sv'"
    using proc_step_inv [OF assms(1), of I I] proc_step_inv [OF assms(1), of I "\<lambda>sv. \<not> F sv"] c by auto
  have p: "if succeeded p then F sv \<and> \<not> F sv' else takes I F p" if "i \<in> T"
  proof -
    have "takes I F (Tx f)" using that c 2(2) by (metis succeeded.simps(7))
    then show ?thesis using 2(3) I(1) by (auto simp: takes_Tx_iff dest!: spec [of _ sv])
  qed
  have other: "ps' ! j = ps ! j" if "j \<noteq> i" for j using 2(4) that by simp
  have own: "ps' ! i = p" "i < length ps'" "length ps' = length ps" using 2(1,4) by simp_all
  have T: "j < length ps'" "if succeeded (ps ! j) then \<not> F sv else takes I F (ps ! j)" if "j \<in> T" for j
    using c that own(3) by auto
  have "if succeeded (ps' ! j) then \<not> F sv' else takes I F (ps' ! j)" if "j \<in> T" for j
  proof (cases "j = i")
    case True
    then show ?thesis using p [OF that [unfolded True]] own by (simp split: if_splits)
  next
    case False
    then show ?thesis using T(2) [OF that] gone other by (simp split: if_splits)
  qed
  moreover have "\<not> (succeeded (ps' ! j) \<and> succeeded (ps' ! l))" if jl: "j \<in> T" "l \<in> T" "j \<noteq> l" for j l
  proof -
    have "\<not> succeeded p" if "m \<in> T" "i \<in> T" "m \<noteq> i" "succeeded (ps ! m)" for m
      using p [OF that(2)] T(2) [OF that(1)] that(4) by (simp split: if_splits)
    then show ?thesis using jl c own other by metis
  qed
  ultimately show ?thesis using I(2) k T(1) by (simp add: contended_def)
qed (use assms in simp)

lemma contended_interleave:
  "interleave is (ps, sv) = (ps', sv') \<Longrightarrow> contended I F T ps sv \<Longrightarrow> contended I F T ps' sv'"
proof (induction "is" arbitrary: ps sv)
  case (Cons i "is")
  obtain ps1 sv1 where st: "proc_step i (ps, sv) = (ps1, sv1)" by force
  then show ?case using Cons.IH [of ps1 sv1] Cons.prems contended_step [OF st] by simp
qed simp

section \<open>Inceptions at the same time\<close>

definition has_ticket :: "Ticket \<Rightarrow> server \<Rightarrow> bool" where
  "has_ticket k sv \<longleftrightarrow> table (sv_db sv) TicketBucket k \<noteq> None"

definition name_free :: "string \<Rightarrow> server \<Rightarrow> bool" where
  "name_free n sv \<longleftrightarrow> table (sv_db sv) UserBucket n = None"

definition can_incept :: "server \<Rightarrow> bool" where
  "can_incept sv \<longleftrightarrow> incept_tables (sv_db sv)"

lemmas incept_views = has_ticket_def name_free_def can_incept_def

text \<open>The transaction of \<^verbatim>\<open>Incept\<close> commits as a whole or changes nothing.\<close>

lemma sv_Update_incept:
  assumes "can_incept sv" "sv_Update (incept_creates salt key l) sv = (x, sv')"
  shows "(x \<noteq> Ret () \<and> sv' = sv) \<or>
    (x = Ret () \<and> has_ticket key sv \<and> name_free (login_Name l) sv \<and> \<not> has_ticket key sv' \<and> \<not> name_free (login_Name l) sv' \<and>
     can_incept sv' \<and> (\<forall>k. has_ticket k sv' \<longrightarrow> has_ticket k sv) \<and> (\<forall>n. name_free n sv' \<longrightarrow> name_free n sv))"
proof (cases "incept_creates salt key l (sv_db sv)")
  case (Pair r s')
  show ?thesis
  proof (cases r)
    case (Ret u)
    have t: "incept_tables (sv_db sv)" using assms(1) by (simp add: can_incept_def)
    note run = incept_creates_Ret [OF t Pair [unfolded Ret]]
    have "x = Ret ()" "sv' = sv\<lparr>sv_db := s'\<rparr>" using assms(2) Pair Ret by (auto simp: sv_Update_def db_Update_def)
    then show ?thesis using run t by (auto simp: incept_views incepted_def incept_tables_def split: if_splits)
  qed (use Pair assms(2) in \<open>auto simp: sv_Update_def db_Update_def\<close>)
qed

lemma keeps_Incept_tables: "keeps_inv can_incept can_incept (proc_Incept salt r)"
  "keeps_inv can_incept (\<lambda>sv. \<not> has_ticket k sv) (proc_Incept salt r)"
  "keeps_inv can_incept (\<lambda>sv. \<not> name_free n sv) (proc_Incept salt r)"
proof -
  have up: "can_incept sv' \<and> (has_ticket k sv' \<longrightarrow> has_ticket k sv) \<and> (name_free n sv' \<longrightarrow> name_free n sv)"
    if "can_incept sv" "sv_Update (incept_creates salt key l) sv = (x, sv')" for sv sv' x salt key l
    using sv_Update_incept [OF that] that(1) by auto
  show "keeps_inv can_incept can_incept (proc_Incept salt r)"
    "keeps_inv can_incept (\<lambda>sv. \<not> has_ticket k sv) (proc_Incept salt r)"
    "keeps_inv can_incept (\<lambda>sv. \<not> name_free n sv) (proc_Incept salt r)"
    using up [OF _ surjective_pairing]
    by (auto simp: proc_Incept_def keeps_Done intro!: keeps_inv_tx_View keeps_inv_tx_Update split: go.splits option.splits)
qed

lemma takes_tx_View:
  "(\<And>x. takes I F (k x) \<and> \<not> succeeded (k x)) \<Longrightarrow> takes I F (tx_View m k)"
  by (simp add: tx_View_def takes_Tx_iff)

lemma takes_incept_Update:
  assumes "F = has_ticket key \<or> F = name_free (login_Name l)"
  shows "takes can_incept F (tx_Update (incept_creates salt key l) (\<lambda>y. (incept_answer l y, \<lambda>sv. sv)))"
  unfolding tx_Update_def
proof (rule takes_Tx)
  fix sv assume sv: "can_incept sv"
  obtain x sv' where run: "sv_Update (incept_creates salt key l) sv = (x, sv')" by force
  have "succeeded (Done (incept_answer l x)) \<longleftrightarrow> x = Ret ()" by (cases x) (auto simp: incept_answer_def)
  then show "if succeeded (fst (case sv_Update (incept_creates salt key l) sv of (r, sv1) \<Rightarrow>
        (Done (fst (incept_answer l r, \<lambda>sv. sv)), snd (incept_answer l r, \<lambda>sv. sv) sv1)))
      then F sv \<and> \<not> F (snd (case sv_Update (incept_creates salt key l) sv of (r, sv1) \<Rightarrow>
        (Done (fst (incept_answer l r, \<lambda>sv. sv)), snd (incept_answer l r, \<lambda>sv. sv) sv1)))
      else takes can_incept F (fst (case sv_Update (incept_creates salt key l) sv of (r, sv1) \<Rightarrow>
        (Done (fst (incept_answer l r, \<lambda>sv. sv)), snd (incept_answer l r, \<lambda>sv. sv) sv1)))"
    using sv_Update_incept [OF sv run] assms by (auto simp: run intro: takes_Done)
qed

lemma not_succeeded [simp]: "\<not> succeeded (tx_View m k)" "\<not> succeeded (tx_Update m' k')"
  by (simp_all add: tx_View_def tx_Update_def)

lemma takes_Incept:
  "(\<And>k. uuid_FromString (ByName r ''key'') = Ret k \<Longrightarrow> k = key) \<Longrightarrow> takes can_incept (has_ticket key) (proc_Incept salt r)"
  "(\<And>l. decode_body dec_Login zero_Login r = Some l \<Longrightarrow> login_Name l = n) \<Longrightarrow> takes can_incept (name_free n) (proc_Incept salt r)"
  by (auto simp: proc_Incept_def intro!: takes_Done takes_tx_View takes_incept_Update split: go.splits option.splits)
    (auto simp: incept_answer_def)

lemma not_succeeded_Incept: "\<not> succeeded (proc_Incept salt r)"
  by (auto simp: proc_Incept_def split: go.splits option.splits)

text \<open>
  C4 (inceptions_exclusive).  Of any number of inceptions that run at the same time, in any
  interleaving, no two succeed with the same ticket and no two with the same name.
\<close>

theorem inceptions_exclusive:
  assumes "incept_tables (sv_db sv)"
    and "interleave is (map (\<lambda>(salt, r). proc_Incept salt r) rs, sv) = (ps, sv')"
    and "i < length rs" "j < length rs" "i \<noteq> j" "succeeded (ps ! i)" "succeeded (ps ! j)"
  shows "uuid_FromString (ByName (snd (rs ! i)) ''key'') \<noteq> uuid_FromString (ByName (snd (rs ! j)) ''key'') \<and>
    map_option login_Name (decode_body dec_Login zero_Login (snd (rs ! i))) \<noteq>
    map_option login_Name (decode_body dec_Login zero_Login (snd (rs ! j)))"
proof -
  let ?ps = "map (\<lambda>(salt, r). proc_Incept salt r) rs"
  have start: "contended can_incept F {i, j} ?ps sv"
    if "\<And>salt r. keeps_inv can_incept (\<lambda>sv. \<not> F sv) (proc_Incept salt r)"
      "\<And>m. m \<in> {i, j} \<Longrightarrow> takes can_incept F (proc_Incept (fst (rs ! m)) (snd (rs ! m)))" for F
    using assms(1,3-5) that
    by (auto simp: contended_def can_incept_def [of sv] keeps_Incept_tables not_succeeded_Incept case_prod_beta)
  have no: "\<not> contended can_incept F {i, j} ?ps sv" for F
    using contended_interleave [OF assms(2), of can_incept F "{i, j}"] assms(5-7) by (auto simp: contended_def)
  show ?thesis
  proof
    show "uuid_FromString (ByName (snd (rs ! i)) ''key'') \<noteq> uuid_FromString (ByName (snd (rs ! j)) ''key'')"
    proof
      assume eq: "uuid_FromString (ByName (snd (rs ! i)) ''key'') = uuid_FromString (ByName (snd (rs ! j)) ''key'')"
      obtain key where "\<And>k. uuid_FromString (ByName (snd (rs ! i)) ''key'') = Ret k \<Longrightarrow> k = key"
        by (cases "uuid_FromString (ByName (snd (rs ! i)) ''key'')") auto
      then have "takes can_incept (has_ticket key) (proc_Incept (fst (rs ! m)) (snd (rs ! m)))" if "m \<in> {i, j}" for m
        using that eq by (intro takes_Incept(1)) auto
      with start [of "has_ticket key"] no show False by (simp add: keeps_Incept_tables)
    qed
    show "map_option login_Name (decode_body dec_Login zero_Login (snd (rs ! i))) \<noteq>
      map_option login_Name (decode_body dec_Login zero_Login (snd (rs ! j)))"
    proof
      assume eq: "map_option login_Name (decode_body dec_Login zero_Login (snd (rs ! i))) =
        map_option login_Name (decode_body dec_Login zero_Login (snd (rs ! j)))"
      obtain n where "\<And>l. decode_body dec_Login zero_Login (snd (rs ! i)) = Some l \<Longrightarrow> login_Name l = n"
        by (cases "decode_body dec_Login zero_Login (snd (rs ! i))") auto
      then have "takes can_incept (name_free n) (proc_Incept (fst (rs ! m)) (snd (rs ! m)))" if "m \<in> {i, j}" for m
        using that eq by (intro takes_Incept(2)) auto
      with start [of "name_free n"] no show False by (simp add: keeps_Incept_tables)
    qed
  qed
qed

section \<open>Completing a task at the same time\<close>

lemma put_reads:
  assumes "put_parse r sv = Inr (u, us, old, sent)"
  obtains f g where "proc_Task_Put timer r = Tx f" "f sv = (Tx g, sv)" "g sv = (tx_last (put_dispatch timer u us old sent), sv)"
  using assms by (auto simp: put_parse_def proc_Task_Put_def tx_View_def Let_def split: go.splits option.splits if_splits)

lemma proc_step_at: "i < length ps \<Longrightarrow> ps ! i = Tx f \<Longrightarrow> f sv = (p, sv') \<Longrightarrow> proc_step i (ps, sv) = (ps[i := p], sv')"
  by (simp add: proc_step_def)

lemma two_reads:
  assumes "put_parse r1 sv = Inr (u1, us1, old1, sent1)" "put_parse r2 sv = Inr (u2, us2, old2, sent2)"
  shows "interleave [0, 0, 1, 1] ([proc_Task_Put t1 r1, proc_Task_Put t2 r2], sv) =
    ([tx_last (put_dispatch t1 u1 us1 old1 sent1), tx_last (put_dispatch t2 u2 us2 old2 sent2)], sv)"
proof -
  obtain f1 g1 where 1: "proc_Task_Put t1 r1 = Tx f1" "f1 sv = (Tx g1, sv)" "g1 sv = (tx_last (put_dispatch t1 u1 us1 old1 sent1), sv)"
    using put_reads [OF assms(1)] .
  obtain f2 g2 where 2: "proc_Task_Put t2 r2 = Tx f2" "f2 sv = (Tx g2, sv)" "g2 sv = (tx_last (put_dispatch t2 u2 us2 old2 sent2), sv)"
    using put_reads [OF assms(2)] .
  show ?thesis by (simp add: 1 2 proc_step_def)
qed

text \<open>
  C30 (bounty_paid_twice).  Two writers complete the same open task at the same time.  Both read
  the open task before either of them commits, both requests succeed, and the owner pays the
  bounty twice.
\<close>

theorem bounty_paid_twice:
  assumes "put_parse r1 sv = Inr (u1, us1, old, sent1)" and "put_parse r2 sv = Inr (u2, us2, old, sent2)"
    and "put_decide u1 old sent1 = PutCompleteAsWriter" and "put_decide u2 old sent2 = PutCompleteAsWriter" and "u1 \<noteq> u2"
    and "coin_ok (sv_db sv)" and "task_tables (sv_db sv)"
    and "uuid_ok (task_ID old)" and "task_readable (sv_db sv) (task_ID old)" and "task_ok sent1"
    and "user_at (sv_db sv) (g_Owner (task_Group old)) = Some vo" and "valid_key (g_Owner (task_Group old))"
    and "user_at (sv_db sv) u1 = Some v1" and "valid_key u1" and "user_at (sv_db sv) u2 = Some v2" and "valid_key u2"
  shows "\<exists>j1 j2 sv'.
    interleave [0, 0, 1, 1, 0, 1] ([proc_Task_Put (Some t1) r1, proc_Task_Put (Some t2) r2], sv) =
      ([Done (OkBody j1), Done (OkBody j2)], sv') \<and>
    user_at (sv_db sv') (g_Owner (task_Group old)) = Some (vo\<lparr>user_Coin := user_Coin vo - task_Bounty old - task_Bounty old\<rparr>) \<and>
    user_at (sv_db sv') u1 = Some (v1\<lparr>user_Coin := user_Coin v1 + task_Bounty old\<rparr>) \<and>
    user_at (sv_db sv') u2 = Some (v2\<lparr>user_Coin := user_Coin v2 + task_Bounty old\<rparr>)"
proof -
  let ?o = "g_Owner (task_Group old)"
  have d: "u1 \<noteq> ?o" "u2 \<noteq> ?o" "task_Bounty sent1 = task_Bounty old" "task_Bounty sent2 = task_Bounty old"
    using assms(3,4) by (auto simp: put_decide_def Let_def split: if_splits)
  have chk: "users_CheckUsersExist us1 (sv_db sv) = (Ret (), sv_db sv)" "users_CheckUsersExist us2 (sv_db sv) = (Ret (), sv_db sv)"
    using put_parse_Inr [OF assms(1)] put_parse_Inr [OF assms(2)] by (simp_all add: sv_View_eq prod_eq_iff)
  from complete_dispatch [OF assms(3) chk(1) assms(6-9,11-14), of t1] obtain j1 sv1 where
    run1: "put_dispatch (Some t1) u1 us1 old sent1 sv = (OkBody j1, sv1)"
    and at1: "\<And>n. user_at (sv_db sv1) n = (if n = u1 then Some (v1\<lparr>user_Coin := user_Coin v1 + task_Bounty old\<rparr>)
        else if n = ?o then Some (vo\<lparr>user_Coin := user_Coin vo - task_Bounty old\<rparr>) else user_at (sv_db sv) n)"
    and tsk: "table (sv_db sv1) TaskBucket (task_ID old) = Some (Doc (enc_Task (stored_form (task_ID old)
       (sent1\<lparr>task_CompletedBy := u1, task_CompletedAt := Some (t1\<lparr>t_zone := ZUTC\<rparr>)\<rparr>))))"
    and ok: "task_tables (sv_db sv1)" "coin_ok (sv_db sv1)"
      "\<And>n. table (sv_db sv1) UserBucket n = None \<longleftrightarrow> table (sv_db sv) UserBucket n = None"
    unfolding d(3) by blast
  have "users_CheckUsersExist us2 (sv_db sv1) = (Ret (), sv_db sv1)"
    using chk(2) assms(6) ok(2,3) by (simp add: users_CheckUsersExist_eq coin_ok_def split: option.splits)
  moreover have "task_readable (sv_db sv1) (task_ID old)"
    by (rule task_readable_ok [OF _ tsk]) (use assms(10) in \<open>simp add: task_ok_def stored_form_def\<close>)
  moreover have "user_at (sv_db sv1) ?o = Some (vo\<lparr>user_Coin := user_Coin vo - task_Bounty old\<rparr>)" "user_at (sv_db sv1) u2 = Some v2"
    using at1 d assms(5,15) by auto
  ultimately obtain j2 sv2 where run2: "put_dispatch (Some t2) u2 us2 old sent2 sv1 = (OkBody j2, sv2)"
    and at2: "\<And>n. user_at (sv_db sv2) n = (if n = u2 then Some (v2\<lparr>user_Coin := user_Coin v2 + task_Bounty old\<rparr>)
        else if n = ?o then Some (vo\<lparr>user_Coin := user_Coin vo - task_Bounty old - task_Bounty old\<rparr>) else user_at (sv_db sv1) n)"
    using complete_dispatch [OF assms(4) _ ok(2,1) assms(8), of us2 _ v2 t2] assms(12,16) d by fastforce
  have "interleave [0, 0, 1, 1, 0, 1] ([proc_Task_Put (Some t1) r1, proc_Task_Put (Some t2) r2], sv) =
      ([Done (OkBody j1), Done (OkBody j2)], sv2)"
    using two_reads [OF assms(1,2), of "Some t1" "Some t2"] run1 run2 by (simp add: tx_last_def proc_step_def)
  then show ?thesis using at1 at2 d assms(5) by auto
qed

section \<open>Logging in while the user is deleted\<close>

text \<open>The last transaction of \<^verbatim>\<open>Profile.Delete\<close> and \<^verbatim>\<open>Admin.DeleteUser\<close>.\<close>

definition proc_removal :: "string \<Rightarrow> process" where
  "proc_removal u = tx_last (\<lambda>sv. case sv_Update (user_removal u) sv of
       (Ret _, sv1) \<Rightarrow> (OkEmpty, sv1)
     | (Fail _, sv1) \<Rightarrow> (HttpError StatusInternalServerError, sv1)
     | (Panic, sv1) \<Rightarrow> (Panicked, sv1))"

text \<open>
  C32 (login_survives_removal).  A user is deleted between the two transactions of a login: both
  requests succeed, the user is gone, and there is a session in the user's name that is
  accepted until it expires.
\<close>

theorem login_survives_removal:
  assumes "decode_body dec_Login zero_Login r = Some l" and "fst (auth_Check l (sv_db sv)) = Ret ()"
    and "accounts_ok (login_Name l) (sv_db sv)" and "valid_key (login_Name l)" and "uuid_ok uTok" and "uuid_ok uRef"
  shows "\<exists>j sv'. interleave [0, 1, 0] ([proc_Token_Create uTok uRef now r, proc_removal (login_Name l)], sv) =
      ([Done (OkBody j), Done OkEmpty], sv') \<and>
    fst (users_CheckUsersExist [login_Name l] (sv_db sv')) = Fail (users_ErrMissing (login_Name l)) \<and>
    (\<forall>t. t_ns t \<le> t_ns (time_Add now auth_Expiration) \<longrightarrow> fst (auth_CheckToken t uTok (sv_db sv')) = Ret ()) \<and>
    (\<exists>c. fst (auth_GetContext zero_Context uTok (sv_db sv')) = Ret c \<and> ctx_UserID c = login_Name l)"
proof -
  let ?u = "login_Name l" and ?x = "fill_session zero_Session (time_Add now auth_Expiration) auth_Expiration uTok uRef"
  obtain s1 where rem: "user_removal ?u (sv_db sv) = (Ret (), s1)" and out: "locked_out ?u s1"
    and tbl: "auth_tables s1" "has_tbl UserBucket s1"
    using user_removal_locks [OF assms(3,4)] by blast
  have gone: "table s1 UserBucket ?u = None"
    using out tbl(2) by (auto simp: locked_out_def users_CheckUsersExist_eq split: option.splits if_splits)
  define s2 where "s2 = db_put RefreshBucket uRef (Raw [])
       (db_put ContextBucket uTok (Doc (enc_Context \<lparr>ctx_Token = uTok, ctx_RefreshToken = uRef, ctx_UserID = ?u\<rparr>))
          (db_put SessionBucket uTok (Doc (enc_Session ?x)) s1))"
  have new: "auth_NewSession zero_Session (time_Add now auth_Expiration) auth_Expiration uTok uRef ?u s1 = (Ret ?x, s2)"
    using auth_NewSession_eq [OF tbl(1), of uTok uRef] assms(5,6) by (simp add: s2_def)
  have has: "has_tbl SessionBucket s1" "has_tbl ContextBucket s1" "has_tbl RefreshBucket s1"
    using tbl(1) by (simp_all add: auth_tables_def)
  have ne: "UserBucket \<noteq> SessionBucket" "UserBucket \<noteq> ContextBucket" "UserBucket \<noteq> RefreshBucket"
    by (simp_all add: UserBucket_def auth_bucket_defs)
  have "interleave [0, 1, 0] ([proc_Token_Create uTok uRef now r, proc_removal ?u], sv) =
      ([Done (OkBody (enc_Session ?x)), Done OkEmpty], sv\<lparr>sv_db := s2\<rparr>)"
    using assms(1,2) rem new
    by (simp add: proc_step_def proc_Token_Create_def proc_removal_def tx_View_def tx_Update_def tx_last_def sv_View_eq
        sv_Update_def db_Update_def auth_NewToken_def)
  moreover have "fst (users_CheckUsersExist [?u] s2) = Fail (users_ErrMissing ?u)"
    using gone has tbl(2) ne by (simp add: s2_def users_CheckUsersExist_eq)
  moreover have "fst (auth_CheckToken t uTok s2) = Ret ()" if "t_ns t \<le> t_ns (time_Add now auth_Expiration)" for t
    using that has by (simp add: s2_def auth_CheckToken_eq)
  moreover have "fst (auth_GetContext zero_Context uTok s2) = Ret \<lparr>ctx_Token = uTok, ctx_RefreshToken = uRef, ctx_UserID = ?u\<rparr>"
    using has by (simp add: s2_def auth_GetContext_eq)
  ultimately show ?thesis by auto
qed

section \<open>Schedules on concrete input\<close>

definition demo_members :: server where
  "demo_members = \<lparr>sv_db = db_put LoginBucket ''ann''
     (Doc (enc_Login (demo_new_login\<lparr>login_PWHash := sha256_Sum256 (demo_pw @ nil_uuid)\<rparr>))) demo_accounts, sv_out = []\<rparr>"

lemma demo_members_ok: "accounts_ok ''ann'' (sv_db demo_members)" "fst (auth_Check demo_new_login (sv_db demo_members)) = Ret ()"
proof -
  obtain t ol where ok: "wf_bucket demo_accounts" "auth_tables demo_accounts" "has_tbl UserBucket demo_accounts"
    "holds_tbl enc_Context (\<lambda>_. True) ContextBucket t demo_accounts" "contexts_keyed t"
    using demo_accounts_ok(1) by (auto simp: accounts_ok_def)
  have has: "has_tbl LoginBucket demo_accounts" using ok(2) by (simp add: auth_tables_def)
  have "LoginBucket \<noteq> ContextBucket" by (simp add: auth_bucket_defs)
  then have "holds_tbl enc_Context (\<lambda>_. True) ContextBucket t (sv_db demo_members)"
    using ok(4) has by (simp add: holds_tbl_def demo_members_def)
  moreover have "table (sv_db demo_members) LoginBucket ''ann'' =
      map_option (\<lambda>l. Doc (enc_Login l)) (Some (demo_new_login\<lparr>login_PWHash := sha256_Sum256 (demo_pw @ nil_uuid)\<rparr>))"
    using has by (simp add: demo_members_def)
  moreover have "wf_bucket (sv_db demo_members)" "auth_tables (sv_db demo_members)" "has_tbl UserBucket (sv_db demo_members)"
    using ok has by (simp_all add: demo_members_def wf_db_put)
  ultimately show "accounts_ok ''ann'' (sv_db demo_members)" unfolding accounts_ok_def using ok(5) by blast
  show "fst (auth_Check demo_new_login (sv_db demo_members)) = Ret ()"
    using has by (simp add: demo_members_def auth_Check_eq demo_new_login_def demo_login_def)
qed

theorem login_survives_removal_witness:
  "\<exists>j sv'. interleave [0, 1, 0] ([proc_Token_Create nil_uuid nil_uuid \<lparr>t_ns = 0, t_zone = ZUTC\<rparr>
        (no_request\<lparr>rq_body := Some (enc_Login demo_new_login)\<rparr>), proc_removal ''ann''], demo_members) =
      ([Done (OkBody j), Done OkEmpty], sv') \<and>
    fst (users_CheckUsersExist [''ann''] (sv_db sv')) = Fail (users_ErrMissing ''ann'') \<and>
    fst (auth_CheckToken \<lparr>t_ns = 1, t_zone = ZUTC\<rparr> nil_uuid (sv_db sv')) = Ret ()"
proof -
  have name: "login_Name demo_new_login = ''ann''" by (simp add: demo_new_login_def demo_login_def)
  have exp: "t_ns (time_Add \<lparr>t_ns = 0, t_zone = ZUTC\<rparr> auth_Expiration) = 300000000000"
    by (simp add: time_Add_def auth_Expiration_def minute_ns_def)
  show ?thesis
    using login_survives_removal [of "no_request\<lparr>rq_body := Some (enc_Login demo_new_login)\<rparr>" demo_new_login demo_members
        nil_uuid nil_uuid "\<lparr>t_ns = 0, t_zone = ZUTC\<rparr>", unfolded name exp] demo_members_ok
    by (force simp: decode_body_def uuid_ok_def nil_uuid_def)
qed

text \<open>Two tickets and two new users.\<close>

definition demo_newcomer :: "string \<Rightarrow> Login" where
  "demo_newcomer n = \<lparr>login_User = \<lparr>user_Name = n, user_Coin = 0\<rparr>, login_Disabled = False,
     login_PWHash = replicate 32 (CHR ''p''), login_Salt = nil_uuid\<rparr>"

definition demo_ask :: "uuid \<Rightarrow> string \<Rightarrow> request" where
  "demo_ask k n = no_request\<lparr>rq_params := [(''key'', uuid_String k)], rq_body := Some (enc_Login (demo_newcomer n))\<rparr>"

definition demo_tickets :: server where
  "demo_tickets = \<lparr>sv_db = db_put TicketBucket (replicate 16 (CHR ''k'')) (Raw []) demo_incept, sv_out = []\<rparr>"

lemma demo_proc:
  assumes "length k = 16" "n \<noteq> []"
  shows "proc_Incept nil_uuid (demo_ask k n) =
    tx_View (incept_checks k (demo_newcomer n)) (\<lambda>x. case x of
        Ret _ \<Rightarrow> tx_Update (incept_creates nil_uuid k (demo_newcomer n)) (\<lambda>y. (incept_answer (demo_newcomer n) y, \<lambda>sv. sv))
      | _ \<Rightarrow> Done (incept_answer (demo_newcomer n) x))"
proof -
  have "auth_ValidateNew (demo_newcomer n) = Ret ()"
    using assms(2) by (simp add: auth_ValidateNew_def users_ValidateNew_def demo_newcomer_def sha256_Size_def)
  then show ?thesis using uuid_roundtrip [OF assms(1)] by (simp add: proc_Incept_def demo_ask_def decode_body_def ByName_def)
qed

lemma incept_runs:
  assumes "incept_tables s" "table s TicketBucket k \<noteq> None" "table s UserBucket (login_Name l) = None"
    "table s LoginBucket (login_Name l) = None" "valid_key (login_Name l)"
  shows "incept_checks k l s = (Ret (), s)" "incept_creates salt k l s = (Ret (), incepted salt k l s)"
  using assms
  by (auto simp: incept_checks_def incept_creates_def incept_tables_def incept_CheckTicketExist_eq users_CheckNotExist_single
      auth_CheckLoginNotExist_eq incept_PunchTicket_def users_Create_def auth_Create_def incepted_def Let_def)

lemma demo_inceptions:
  "\<exists>j1 j2 sv'. interleave [0, 1, 0, 1] ([proc_Incept nil_uuid (demo_ask nil_uuid ''cy''),
        proc_Incept nil_uuid (demo_ask (replicate 16 (CHR ''k'')) ''di'')], demo_tickets) =
      ([Done (OkBody j1), Done (OkBody j2)], sv')"
proof -
  let ?k = "replicate 16 (CHR ''k'')" and ?c = "demo_newcomer ''cy''" and ?d = "demo_newcomer ''di''"
  let ?s = "sv_db demo_tickets" and ?s1 = "incepted nil_uuid nil_uuid (demo_newcomer ''cy'') (sv_db demo_tickets)"
  have len: "length nil_uuid = 16" "length ?k = 16" and kk: "nil_uuid \<noteq> ?k" by (simp_all add: nil_uuid_def)
  have name: "login_Name ?c = ''cy''" "login_Name ?d = ''di''" by (simp_all add: demo_newcomer_def)
  have has: "has_tbl TicketBucket demo_incept" using demo_incept_facts(1) by (simp add: incept_tables_def)
  have s: "incept_tables ?s" "table ?s TicketBucket nil_uuid \<noteq> None" "table ?s TicketBucket ?k \<noteq> None"
    "table ?s UserBucket n = None" "table ?s LoginBucket n = None" for n
    using has kk demo_incept_facts(1) by (auto simp: demo_tickets_def incept_tables_def)
  have s1: "incept_tables ?s1" "table ?s1 TicketBucket ?k \<noteq> None" "table ?s1 UserBucket ''di'' = None" "table ?s1 LoginBucket ''di'' = None"
    using s kk by (auto simp: incepted_def incept_tables_def name)
  have key: "valid_key ''cy''" "valid_key ''di''" by (simp_all add: valid_key_def MaxKeySize_def)
  note runs = incept_runs(1) [OF s(1,2), of ?c, unfolded name] incept_runs(1) [OF s(1,3), of ?d, unfolded name]
    incept_runs(2) [OF s(1,2), of ?c nil_uuid, unfolded name] incept_runs(2) [OF s1(1,2), of ?d nil_uuid, unfolded name]
  show ?thesis
    using runs s s1 key len
    by (simp add: demo_proc proc_step_def tx_View_def tx_Update_def sv_View_eq sv_Update_def db_Update_def incept_answer_def)
qed

theorem inceptions_exclusive_witness:
  "uuid_FromString (ByName (demo_ask nil_uuid ''cy'') ''key'') \<noteq>
     uuid_FromString (ByName (demo_ask (replicate 16 (CHR ''k'')) ''di'') ''key'') \<and>
   incept_tables (sv_db demo_tickets)"
proof -
  have t: "incept_tables (sv_db demo_tickets)"
    using demo_incept_facts(1) by (simp add: demo_tickets_def incept_tables_def)
  obtain j1 j2 sv' where "interleave [0, 1, 0, 1] ([proc_Incept nil_uuid (demo_ask nil_uuid ''cy''),
        proc_Incept nil_uuid (demo_ask (replicate 16 (CHR ''k'')) ''di'')], demo_tickets) =
      ([Done (OkBody j1), Done (OkBody j2)], sv')" using demo_inceptions by blast
  then show ?thesis
    using t inceptions_exclusive [of demo_tickets "[0, 1, 0, 1]" "[(nil_uuid, demo_ask nil_uuid ''cy''),
        (nil_uuid, demo_ask (replicate 16 (CHR ''k'')) ''di'')]" _ _ 0 1] by simp
qed

text \<open>A task of ann's with two other writers.\<close>

definition demo_chore :: Task where
  "demo_chore = demo_stored\<lparr>task_Group := \<lparr>g_Owner = ''ann'',
     g_Readers = Some [(''ann'', True), (''bob'', True), (''cal'', True)],
     g_Writers = Some [(''ann'', True), (''bob'', True), (''cal'', True)]\<rparr>\<rparr>"

definition demo_circle :: server where
  "demo_circle = \<lparr>sv_db = db_put TaskBucket demo_id (Doc (enc_Task demo_chore))
     (db_put UserBucket ''cal'' (Doc (enc_User \<lparr>user_Name = ''cal'', user_Coin = 0\<rparr>))
       (db_put UserBucket ''bob'' (Doc (enc_User \<lparr>user_Name = ''bob'', user_Coin = 5\<rparr>))
         (db_put UserBucket ''ann'' (Doc (enc_User \<lparr>user_Name = ''ann'', user_Coin = 7\<rparr>))
           (db_of [LoginBucket, TaskBucket, TextBucket, TicketBucket, UserBucket])))), sv_out = []\<rparr>"

lemma demo_circle_facts [simp]:
  "coin_ok (sv_db demo_circle)" "incept_tables (sv_db demo_circle)" "task_tables (sv_db demo_circle)"
  "table (sv_db demo_circle) TaskBucket demo_id = Some (Doc (enc_Task demo_chore))"
  "user_at (sv_db demo_circle) ''ann'' = Some \<lparr>user_Name = ''ann'', user_Coin = 7\<rparr>"
  "user_at (sv_db demo_circle) ''bob'' = Some \<lparr>user_Name = ''bob'', user_Coin = 5\<rparr>"
  "user_at (sv_db demo_circle) ''cal'' = Some \<lparr>user_Name = ''cal'', user_Coin = 0\<rparr>"
  "table (sv_db demo_circle) UserBucket ''ann'' = Some (Doc (enc_User \<lparr>user_Name = ''ann'', user_Coin = 7\<rparr>))"
  "table (sv_db demo_circle) UserBucket ''bob'' = Some (Doc (enc_User \<lparr>user_Name = ''bob'', user_Coin = 5\<rparr>))"
  "table (sv_db demo_circle) UserBucket ''cal'' = Some (Doc (enc_User \<lparr>user_Name = ''cal'', user_Coin = 0\<rparr>))"
  by (auto simp: demo_circle_def coin_ok_def incept_tables_def task_tables_def wf_db_put LoginBucket_def TaskBucket_def
      TextBucket_def TicketBucket_def UserBucket_def less_char_def)

lemma demo_chore_ok: "task_ok demo_chore" "task_ID demo_chore = demo_id" "task_Notes demo_chore = []"
  by (simp_all add: demo_chore_def demo_stored_def task_ok_def group_ok_def smap_ok_def zero_Task_def)

lemma demo_chore_parse:
  assumes "u \<in> {''bob'', ''cal''}"
  shows "put_parse (demo_put_by u (demo_chore\<lparr>task_Completed := True\<rparr>)) demo_circle =
    Inr (u, u # [''ann'', ''bob'', ''cal'', ''ann'', ''bob'', ''cal''], demo_chore, demo_chore\<lparr>task_Completed := True\<rparr>)"
proof -
  define g where "g = task_Group demo_chore"
  have g: "add_member u g = Ret g" "writers_read g = g" "all_users u g = u # [''ann'', ''bob'', ''cal'', ''ann'', ''bob'', ''cal'']"
    "smap_get (g_Writers g) u"
    using assms by (auto simp: g_def demo_chore_def add_member_def writers_read_def all_users_def smap_keys_def smap_get_def)
  have sent: "task_Group (demo_chore\<lparr>task_Completed := True\<rparr>) = g" "demo_chore\<lparr>task_Completed := True, task_Group := g\<rparr> = demo_chore\<lparr>task_Completed := True\<rparr>"
    by (simp_all add: g_def)
  have ok: "task_ok (demo_chore\<lparr>task_Completed := True\<rparr>)" using demo_chore_ok by (simp add: task_ok_def)
  have "users_exist (sv_db demo_circle) (u # [''ann'', ''bob'', ''cal'', ''ann'', ''bob'', ''cal''])"
    using assms demo_circle_facts(1) by (auto simp: users_exist_def coin_ok_def simp del: demo_circle_facts(1))
  then have chk: "sv_View (users_CheckUsersExist (u # [''ann'', ''bob'', ''cal'', ''ann'', ''bob'', ''cal''])) demo_circle = Ret ()"
    by (simp add: sv_View_eq CheckUsersExist_ok)
  have "stored_form demo_id demo_chore = demo_chore" "demo_chore\<lparr>task_ID := demo_id, task_Resources := []\<rparr> = demo_chore"
    by (simp_all add: stored_form_def demo_chore_def demo_stored_def zero_Task_def)
  then have load: "sv_View (task_Load demo_id zero_Task) demo_circle = Ret demo_chore"
    using task_Load_eq [of "sv_db demo_circle" demo_chore demo_id] demo_chore_ok by (simp add: sv_View_eq)
  show ?thesis
    using chk load g sent ok
    by (simp add: put_parse_def demo_put_by_def mw_CtxGetUserID_def go_assert_def ByName_def decode_body_def dec_enc_Task Let_def)
qed

lemma demo_chore_decide:
  "u \<in> {''bob'', ''cal''} \<Longrightarrow> put_decide u demo_chore (demo_chore\<lparr>task_Completed := True\<rparr>) = PutCompleteAsWriter"
  by (auto simp: put_decide_def time_ptr_ne_def group_deep_equal_def Let_def demo_chore_def demo_stored_def zero_Task_def smap_get_def)

theorem bounty_paid_twice_witness:
  "\<exists>j1 j2 sv'. interleave [0, 0, 1, 1, 0, 1]
      ([proc_Task_Put (Some zero_time) (demo_put_by ''bob'' (demo_chore\<lparr>task_Completed := True\<rparr>)),
        proc_Task_Put (Some zero_time) (demo_put_by ''cal'' (demo_chore\<lparr>task_Completed := True\<rparr>))], demo_circle) =
      ([Done (OkBody j1), Done (OkBody j2)], sv') \<and>
    user_at (sv_db sv') ''ann'' = Some \<lparr>user_Name = ''ann'', user_Coin = 1\<rparr> \<and>
    user_at (sv_db sv') ''bob'' = Some \<lparr>user_Name = ''bob'', user_Coin = 8\<rparr> \<and>
    user_at (sv_db sv') ''cal'' = Some \<lparr>user_Name = ''cal'', user_Coin = 3\<rparr>"
proof -
  have d: "g_Owner (task_Group demo_chore) = ''ann''" "task_Bounty demo_chore = 3" by (simp_all add: demo_chore_def)
  have key: "valid_key ''cal''" by (simp add: valid_key_def MaxKeySize_def)
  have rd: "task_readable (sv_db demo_circle) demo_id" by (rule task_readable_ok [OF demo_chore_ok(1)]) simp
  have ok: "task_ok (demo_chore\<lparr>task_Completed := True\<rparr>)" using demo_chore_ok by (simp add: task_ok_def)
  show ?thesis
    using bounty_paid_twice [OF demo_chore_parse [of "''bob''"] demo_chore_parse [of "''cal''"] demo_chore_decide demo_chore_decide,
        of "\<lparr>user_Name = ''ann'', user_Coin = 7\<rparr>" "\<lparr>user_Name = ''bob'', user_Coin = 5\<rparr>" "\<lparr>user_Name = ''cal'', user_Coin = 0\<rparr>"
          zero_time zero_time]
      rd ok key by (simp add: d demo_chore_ok)
qed

theorem coin_conserved_witness:
  "total_coin (sv_db (snd (interleave [0, 1, 0, 1, 1] ([proc_Incept nil_uuid (demo_ask nil_uuid ''cy''),
      proc_Task_Put (Some zero_time) (demo_put_by ''bob'' (demo_chore\<lparr>task_Completed := True\<rparr>))], demo_circle)))) =
   total_coin (sv_db demo_circle)"
  by (rule coin_conserved) auto

end
