(* ===== verification/Histories.thy ===== *)
theory Histories
  imports Convos
begin

text \<open>
  What the scribe of a convo writes down and what \<^verbatim>\<open>GetMessageRange\<close> and \<^verbatim>\<open>GetMessages\<close> read back,
  for any order of arrivals and ticks of the scribe's timer: the composition of
  \<^verbatim>\<open>convo/scribe.go\<close> and \<^verbatim>\<open>convo/message.go\<close> over the order of RFC 3339 keys.
\<close>

section \<open>The messages kept for a convo\<close>

text \<open>What the scribe sees: \<open>None\<close> is a tick of the timer, \<open>Some\<close> a message.\<close>

definition event_of :: "Message option \<Rightarrow> scribe_event" where
  "event_of e = (case e of None \<Rightarrow> Tick | Some m \<Rightarrow> Arrived (Doc (enc_Message m)))"

definition arrived :: "Message option list \<Rightarrow> Message list" where
  "arrived es = concat (map (case_option [] (\<lambda>m. [m])) es)"

abbreviation msg_key :: "(int \<Rightarrow> int) \<Rightarrow> Message \<Rightarrow> bytes" where
  "msg_key local m \<equiv> rfc3339 local (msg_Timestamp m)"

abbreviation keyed :: "(int \<Rightarrow> int) \<Rightarrow> Message list \<Rightarrow> (bytes \<times> Message) list" where
  "keyed local \<equiv> map (\<lambda>m. (msg_key local m, m))"

abbreviation buffered :: "(int \<Rightarrow> int) \<Rightarrow> Message list \<Rightarrow> Entry list" where
  "buffered local \<equiv> map (\<lambda>m. (msg_key local m, Doc (enc_Message m)))"

definition kept :: "(int \<Rightarrow> int) \<Rightarrow> string \<Rightarrow> db \<Rightarrow> Message list \<Rightarrow> bool" where
  "kept local c s ms \<longleftrightarrow> (\<exists>q. bkt_at [MessageBucket, c] s = Some (Bucket q (msg_ents (keyed local ms))))"

lemma keptE:
  assumes "kept local c s ms"
  obtains B q where "bkt_at [MessageBucket] s = Some B" and "ent c B = Some (Sub (Bucket q (msg_ents (keyed local ms))))"
  using assms bkt_at_append [of "[MessageBucket]" "[c]" s]
  by (auto simp: kept_def split: option.splits entry.splits)

text \<open>Keys that may be stored, in strictly increasing order.\<close>

definition keys_ok :: "(int \<Rightarrow> int) \<Rightarrow> Message list \<Rightarrow> bool" where
  "keys_ok local ms \<longleftrightarrow> list_all (\<lambda>m. valid_key (msg_key local m)) ms \<and> sorted_wrt (<) (map (msg_key local) ms)"

lemma al_put_above: "\<forall>p \<in> set ps. fst p < k \<Longrightarrow> al_put k v ps = ps @ [(k, v)]"
  by (induction ps) auto

lemma fold_puts:
  "keys_ok local (done @ ms) \<Longrightarrow>
   fold (\<lambda>(k, v). set_ent k (Leaf v)) (buffered local ms) (Bucket q (msg_ents (keyed local done))) =
     Bucket q (msg_ents (keyed local (done @ ms)))"
proof (induction ms arbitrary: "done")
  case (Cons m ms)
  have "al_put (msg_key local m) (Leaf (Doc (enc_Message m))) (msg_ents (keyed local done)) =
      msg_ents (keyed local (done @ [m]))"
    using Cons.prems by (subst al_put_above) (auto simp: keys_ok_def sorted_wrt_append)
  then show ?case using Cons.IH [of "done @ [m]"] Cons.prems by (simp add: set_ent_def)
qed simp

lemma kept_write:
  assumes "kept local c s ms" and "keys_ok local (ms @ buf)" and "c \<noteq> []"
  shows "\<exists>s'. db_Update (scribe_write c (buffered local buf)) s = (Ret (), s') \<and> kept local c s' (ms @ buf)"
proof -
  obtain B q where B: "bkt_at [MessageBucket] s = Some B" and e: "ent c B = Some (Sub (Bucket q (msg_ents (keyed local ms))))"
    using assms(1) by (rule keptE)
  from e have n: "no_leaf c B" and ch: "child c B = Bucket q (msg_ents (keyed local ms))" by (simp_all add: no_leaf_def child_def)
  have flat: "flat_bucket (child c B)" by (simp add: ch flat_bucket_def list_all_iff)
  have valid: "\<forall>kv \<in> set (buffered local buf). valid_key (fst kv)"
    using assms(2) by (auto simp: keys_ok_def list_all_iff)
  obtain s' where s': "db_Update (scribe_write c (buffered local buf)) s = (Ret (), s')"
    "bkt_at [MessageBucket, c] s' = Some (Bucket q (msg_ents (keyed local (ms @ buf))))"
    using scribe_write_eq [OF B n assms(3) flat valid, unfolded ch fold_puts [OF assms(2)]] by blast
  then show ?thesis by (auto simp: kept_def)
qed

text \<open>
  At every moment the messages that were written and those in the buffer are, in this order, the
  messages that have arrived.
\<close>

lemma scribe_run_keeps:
  assumes "kept local c s ms" and "keys_ok local (ms @ buf @ arrived es)" and "c \<noteq> []"
  shows "\<exists>ms' buf' s'. scribe_run local c (map event_of es) (buffered local buf) s = Some (False, buffered local buf', s') \<and>
    kept local c s' ms' \<and> ms' @ buf' = ms @ buf @ arrived es"
  using assms(1,2)
proof (induction es arbitrary: ms buf s)
  case Nil
  then show ?case by (auto simp: arrived_def)
next
  case (Cons e es)
  let ?buf = "buf @ arrived [e]"
  have arr: "arrived (e # es) = arrived [e] @ arrived es" by (simp add: arrived_def)
  have keys: "keys_ok local (ms @ ?buf)" using Cons.prems(2) by (auto simp: arr keys_ok_def sorted_wrt_append)
  then obtain s1 where w: "db_Update (scribe_write c (buffered local ?buf)) s = (Ret (), s1)" "kept local c s1 (ms @ ?buf)"
    using kept_write [OF Cons.prems(1) _ assms(3)] by blast
  have keep: "?case" if "scribe_run local c (map event_of (e # es)) (buffered local buf) s =
      scribe_run local c (map event_of es) (buffered local ?buf) s"
    using Cons.IH [OF Cons.prems(1), of ?buf] Cons.prems(2) that by (simp add: arr)
  have flush: "?case" if "scribe_run local c (map event_of (e # es)) (buffered local buf) s =
      scribe_run local c (map event_of es) (buffered local []) s1"
    using Cons.IH [OF w(2), of "[]"] Cons.prems(2) that by (simp add: arr)
  show ?case
  proof (cases e)
    case None
    then show ?thesis using keep flush w(1) by (cases "buf = []") (simp_all add: event_of_def arrived_def)
  next
    case (Some m)
    then show ?thesis using keep flush w(1)
      by (cases "Suc (length buf) < MaxBuffer") (simp_all add: event_of_def arrived_def Let_def)
  qed
qed

lemma scribe_run_append:
  "scribe_run local c (evs @ evs') buf s =
     (case scribe_run local c evs buf s of
        Some (False, buf', s') \<Rightarrow> scribe_run local c evs' buf' s'
      | r \<Rightarrow> r)"
  by (induction local c evs buf s rule: scribe_run.induct) (auto simp: Let_def split: go.splits prod.splits)

lemma scribe_run_all:
  assumes "kept local c s ms" and "keys_ok local (ms @ arrived es)" and "c \<noteq> []"
  shows "\<exists>s'. scribe_run local c (map event_of es @ [Tick]) [] s = Some (False, [], s') \<and> kept local c s' (ms @ arrived es)"
proof -
  obtain ms' buf' s1 where run: "scribe_run local c (map event_of es) [] s = Some (False, buffered local buf', s1)"
    and k: "kept local c s1 ms'" "ms' @ buf' = ms @ arrived es"
    using scribe_run_keeps [OF assms(1) _ assms(3), of "[]" es] assms(2) by auto
  obtain s2 where "db_Update (scribe_write c (buffered local buf')) s1 = (Ret (), s2)" "kept local c s2 (ms' @ buf')"
    using kept_write [OF k(1) _ assms(3), of buf'] assms(2) k(2) by auto
  then show ?thesis using k by (cases "buf' = []") (simp_all add: scribe_run_append run)
qed

section \<open>Times and keys\<close>

abbreviation seconds :: "gtime \<Rightarrow> int" where
  "seconds t \<equiv> t_ns t div 1000000000"

text \<open>Times the keys of which are comparable: one offset of the zone, below 100 hours, and years of four digits.\<close>

definition in_zone :: "(int \<Rightarrow> int) \<Rightarrow> int \<Rightarrow> gtime \<Rightarrow> bool" where
  "in_zone local off t \<longleftrightarrow> zone_offset local t = off \<and> \<bar>off\<bar> < 360000 \<and> four_digits local t"

definition chronological :: "(int \<Rightarrow> int) \<Rightarrow> int \<Rightarrow> Message list \<Rightarrow> bool" where
  "chronological local off ms \<longleftrightarrow> list_all (\<lambda>m. in_zone local off (msg_Timestamp m)) ms \<and>
     sorted_wrt (<) (map (\<lambda>m. seconds (msg_Timestamp m)) ms)"

text \<open>The last \<open>n\<close> of the messages from one second to another.\<close>

definition window :: "int \<Rightarrow> int \<Rightarrow> nat \<Rightarrow> Message list \<Rightarrow> Message list" where
  "window from to n ms =
     (let ms' = filter (\<lambda>m. from \<le> seconds (msg_Timestamp m) \<and> seconds (msg_Timestamp m) \<le> to) ms
      in drop (length ms' - n) ms')"

lemma in_zone_order:
  assumes "in_zone local off a" "in_zone local off b"
  shows "rfc3339 local a < rfc3339 local b \<longleftrightarrow> seconds a < seconds b"
    and "rfc3339 local a \<le> rfc3339 local b \<longleftrightarrow> seconds a \<le> seconds b"
  using assms rfc3339_order [of local a b] by (auto simp: in_zone_def order_le_less)

lemma in_zone_valid: "in_zone local off t \<Longrightarrow> valid_key (rfc3339 local t)"
  using rfc3339_length [of local t] by (intro valid_rfc3339) (simp add: in_zone_def MaxKeySize_def)

lemma chronological_keys:
  assumes "chronological local off ms"
  shows "keys_ok local ms"
proof -
  have "sorted_wrt (\<lambda>m m'. seconds (msg_Timestamp m) < seconds (msg_Timestamp m')) ms"
    using assms by (simp add: chronological_def sorted_wrt_map)
  then have "sorted_wrt (\<lambda>m m'. msg_key local m < msg_key local m') ms"
    by (rule sorted_wrt_mono_rel [rotated]) (use assms in \<open>auto simp: chronological_def list_all_iff in_zone_order(1) [of _ off]\<close>)
  then show ?thesis using assms by (auto simp: keys_ok_def sorted_wrt_map chronological_def list_all_iff intro: in_zone_valid)
qed

lemma kept_range:
  assumes "kept local c s ms" and "chronological local off ms" and "in_zone local off from" "in_zone local off to"
  shows "\<exists>x. convo_GetMessageRange local c from to (int n) s = (Ret x, s) \<and> slice x = window (seconds from) (seconds to) n ms"
proof -
  obtain B q where B: "bkt_at [MessageBucket] s = Some B" "ent c B = Some (Sub (Bucket q (msg_ents (keyed local ms))))"
    using assms(1) by (rule keptE)
  have "sorted_wrt (<) (map fst (keyed local ms))" using chronological_keys [OF assms(2)] by (simp add: keys_ok_def o_def)
  moreover have "range_spec (rfc3339 local from) (rfc3339 local to) n (keyed local ms) = window (seconds from) (seconds to) n ms"
  proof -
    have "filter (\<lambda>m. rfc3339 local from \<le> msg_key local m \<and> msg_key local m \<le> rfc3339 local to) ms =
        filter (\<lambda>m. seconds from \<le> seconds (msg_Timestamp m) \<and> seconds (msg_Timestamp m) \<le> seconds to) ms"
      using assms(2-4) by (intro filter_cong) (auto simp: chronological_def list_all_iff in_zone_order)
    then show ?thesis by (simp add: range_spec_def window_def filter_map o_def)
  qed
  ultimately show ?thesis using GetMessageRange_eq [OF B, of local "from" to n] by simp
qed

lemma window_props:
  fixes ms :: "Message list"
  assumes "sorted_wrt (<) (map (\<lambda>m. seconds (msg_Timestamp m)) ms)"
  shows "length (window a b n ms) \<le> n"
    and "m \<in> set (window a b n ms) \<Longrightarrow> m \<in> set ms \<and> a \<le> seconds (msg_Timestamp m) \<and> seconds (msg_Timestamp m) \<le> b"
    and "length (window a b n ms) < n \<Longrightarrow> m \<in> set ms \<Longrightarrow> a \<le> seconds (msg_Timestamp m) \<Longrightarrow>
      seconds (msg_Timestamp m) \<le> b \<Longrightarrow> m \<in> set (window a b n ms)"
    and "sorted_wrt (<) (map (\<lambda>m. seconds (msg_Timestamp m)) (window a b n ms))"
proof -
  assume "length (window a b n ms) < n" "m \<in> set ms" "a \<le> seconds (msg_Timestamp m)" "seconds (msg_Timestamp m) \<le> b"
  then show "m \<in> set (window a b n ms)"
    by (cases "n \<le> length (filter (\<lambda>m. a \<le> seconds (msg_Timestamp m) \<and> seconds (msg_Timestamp m) \<le> b) ms)")
      (simp_all add: window_def Let_def)
qed (use assms in \<open>auto simp: window_def Let_def sorted_wrt_map intro: sorted_wrt_drop sorted_wrt_filter dest!: in_set_dropD\<close>)

section \<open>Properties\<close>

text \<open>
  C12 (history_read_back).  A convo with any messages \<open>old\<close> stored already, and further messages
  that arrive in any rhythm between the ticks of the scribe's timer.  The timestamps of all of
  them and the two ends of the range have one offset of the zone (below 100 hours) and years of
  four digits, and each message is of a later second than the one before.  Then the scribe
  never aborts; once its timer has ticked after the last message its buffer is empty; and
  \<^verbatim>\<open>GetMessageRange\<close> returns exactly the last \<open>n\<close> messages, old and new, of the
  seconds asked for, in the order they were sent, however many batches they were written in.
\<close>

theorem history_read_back:
  assumes "kept local c s old" and "c \<noteq> []"
    and "chronological local off (old @ arrived es)" and "in_zone local off from" and "in_zone local off to"
  shows "\<exists>s' x. scribe_run local c (map event_of es @ [Tick]) [] s = Some (False, [], s') \<and>
    convo_GetMessageRange local c from to (int n) s' = (Ret x, s') \<and>
    slice x = window (seconds from) (seconds to) n (old @ arrived es)"
proof -
  obtain s' where "scribe_run local c (map event_of es @ [Tick]) [] s = Some (False, [], s')"
    "kept local c s' (old @ arrived es)"
    using scribe_run_all [OF assms(1) chronological_keys [OF assms(3)] assms(2)] by blast
  with kept_range [OF _ assms(3-5)] show ?thesis by blast
qed

text \<open>Three messages, of the seconds 0, 1 and 3.\<close>

definition demo_log :: "Message list" where
  "demo_log = [demo_msg 1, demo_msg 1500000000, demo_msg 3000000000]"

definition demo_old_log :: db where
  "demo_old_log = Bucket 0 [(MessageBucket, Sub (Bucket 0 [(''c1'', Sub (Bucket 0 (msg_ents (keyed (\<lambda>_. 0) [demo_msg 1]))))]))]"

abbreviation utc :: "int \<Rightarrow> gtime" where
  "utc t \<equiv> \<lparr>t_ns = t, t_zone = ZUTC\<rparr>"

lemma civil_1970: "civil 0 = (1970, 1, 1)" "civil (- 7) = (1969, 12, 25)"
  by code_simp+

lemma demo_in_zone: "0 \<le> t \<Longrightarrow> t < 86400000000000 \<Longrightarrow> in_zone local 0 (utc t)"
  using div_less [of 86400000000000 t 1]
  by (simp add: in_zone_def zone_offset_def four_digits_def year_of_def local_sec_def civil_1970 zdiv_zmult2_eq [symmetric])

definition demo_history :: db where
  "demo_history = Bucket 0 [(MessageBucket, Sub (Bucket 0 [(''c1'', Sub (Bucket 0 (msg_ents (keyed (\<lambda>_. 0) demo_log))))]))]"

lemma demo_history_kept: "kept (\<lambda>_. 0) ''c1'' demo_history demo_log"
  by (simp add: kept_def demo_history_def ent_def)

lemma demo_log_ok: "chronological (\<lambda>_. 0) 0 demo_log"
  by (simp add: chronological_def demo_log_def demo_msg_def demo_in_zone)

theorem history_read_back_witness:
  "\<exists>s' x. scribe_run (\<lambda>_. 0) ''c1'' (map event_of [Some (demo_msg 1500000000), None, Some (demo_msg 3000000000)] @ [Tick]) [] demo_old_log =
      Some (False, [], s') \<and>
    convo_GetMessageRange (\<lambda>_. 0) ''c1'' (utc 0) (utc 1999999999) (int 5) s' = (Ret x, s') \<and>
    slice x = [demo_msg 1, demo_msg 1500000000]"
proof -
  let ?es = "[Some (demo_msg 1500000000), None, Some (demo_msg 3000000000)]"
  have all: "[demo_msg 1] @ arrived ?es = demo_log" by (simp add: arrived_def demo_log_def)
  have "kept (\<lambda>_. 0) ''c1'' demo_old_log [demo_msg 1]" by (simp add: kept_def demo_old_log_def ent_def)
  moreover have "window 0 1 5 demo_log = [demo_msg 1, demo_msg 1500000000]"
    by (simp add: window_def demo_log_def demo_msg_def)
  ultimately show ?thesis
    using history_read_back [of "\<lambda>_. 0" "''c1''" demo_old_log "[demo_msg 1]" 0 ?es "utc 0" "utc 1999999999" 5,
        unfolded all, OF _ _ demo_log_ok demo_in_zone demo_in_zone] by simp
qed

text \<open>
  C29 (GetMessages_bounds).  When the stored messages, the current time and the time seven days
  before it have one offset of the zone and years of four digits, and each message is of a
  later second than the one before, \<^verbatim>\<open>GetMessages\<close> returns at most 50 messages, in the order of
  their seconds, none of them older than seven days or newer than now, and leaves a message of
  the last seven days out only when it returns 50.
\<close>

theorem GetMessages_bounds:
  assumes "kept local c s ms" and "chronological local off ms" and "in_zone local off now"
    and "in_zone local off (now\<lparr>t_ns := t_ns now - 604800000000000\<rparr>)"
  shows "\<exists>x. convo_GetMessages local now c s = (Ret x, s) \<and> length (slice x) \<le> 50 \<and>
    (\<forall>m \<in> set (slice x). m \<in> set ms \<and> seconds now - 604800 \<le> seconds (msg_Timestamp m) \<and> seconds (msg_Timestamp m) \<le> seconds now) \<and>
    (length (slice x) < 50 \<longrightarrow> (\<forall>m \<in> set ms. seconds now - 604800 \<le> seconds (msg_Timestamp m) \<and>
       seconds (msg_Timestamp m) \<le> seconds now \<longrightarrow> m \<in> set (slice x))) \<and>
    sorted_wrt (<) (map (\<lambda>m. seconds (msg_Timestamp m)) (slice x))"
proof -
  let ?then = "now\<lparr>t_ns := t_ns now - 604800000000000\<rparr>"
  have "seconds ?then = (t_ns now + - 604800 * 1000000000) div 1000000000" by simp
  then have "seconds ?then = seconds now - 604800" by (simp only: div_mult_self1)
  then obtain x where "convo_GetMessages local now c s = (Ret x, s)" "slice x = window (seconds now - 604800) (seconds now) 50 ms"
    using kept_range [OF assms(1,2,4,3), of 50] by (auto simp: convo_GetMessages_def)
  then show ?thesis using window_props [of ms] assms(2) by (auto simp: chronological_def)
qed

theorem GetMessages_bounds_witness:
  "\<exists>x. convo_GetMessages (\<lambda>_. 0) (utc 4000000000) ''c1'' demo_history = (Ret x, demo_history) \<and> set (slice x) = set demo_log"
proof -
  have "in_zone (\<lambda>_. 0) 0 ((utc 4000000000)\<lparr>t_ns := t_ns (utc 4000000000) - 604800000000000\<rparr>)"
    using civil_1970(2) by (simp add: in_zone_def zone_offset_def four_digits_def year_of_def local_sec_def)
  from GetMessages_bounds [OF demo_history_kept demo_log_ok demo_in_zone this]
  obtain x where x: "convo_GetMessages (\<lambda>_. 0) (utc 4000000000) ''c1'' demo_history = (Ret x, demo_history)"
    and sub: "set (slice x) \<subseteq> set demo_log" and all: "length (slice x) < 50 \<Longrightarrow> set demo_log \<subseteq> set (slice x)"
    and srt: "sorted_wrt (<) (map (\<lambda>m. seconds (msg_Timestamp m)) (slice x))"
    by (auto simp: demo_log_def demo_msg_def)
  have "distinct (slice x)" using srt by (simp add: strict_sorted_iff distinct_map)
  then have "length (slice x) \<le> card (set demo_log)" using card_mono [OF _ sub] by (simp add: distinct_card)
  also have "\<dots> \<le> length demo_log" by (rule card_length)
  finally have "length (slice x) < 50" by (simp add: demo_log_def)
  with x sub all show ?thesis by blast
qed

text \<open>
  The keys are local times.  When the offset of the zone drops by more
  than the time that has passed since \<open>from\<close> (the end of summer time, or a server that was
  moved), \<^verbatim>\<open>GetMessageRange\<close> leaves out a message that was sent after \<open>from\<close>, whatever the end of
  the range.
\<close>

theorem zone_change_hides:
  assumes "kept local c s ms" and "keys_ok local ms" and "m \<in> set ms"
    and "four_digits local from" and "four_digits local (msg_Timestamp m)"
    and "seconds (msg_Timestamp m) - seconds from < zone_offset local from - zone_offset local (msg_Timestamp m)"
  shows "\<exists>x. convo_GetMessageRange local c from to (int n) s = (Ret x, s) \<and> m \<notin> set (slice x)"
proof -
  obtain B q where B: "bkt_at [MessageBucket] s = Some B" "ent c B = Some (Sub (Bucket q (msg_ents (keyed local ms))))"
    using assms(1) by (rule keptE)
  have "sorted_wrt (<) (map fst (keyed local ms))" using assms(2) by (simp add: keys_ok_def o_def)
  from GetMessageRange_eq [OF B this] obtain x where x: "convo_GetMessageRange local c from to (int n) s = (Ret x, s)"
    "slice x = range_spec (rfc3339 local from) (rfc3339 local to) n (keyed local ms)" by blast
  have "local_sec local (msg_Timestamp m) < local_sec local from" using assms(6) unfolding local_sec_def by simp
  from rfc3339_less [OF this assms(5,4)] have "m \<notin> set (slice x)"
    by (auto simp: x(2) range_spec_def Let_def dest!: in_set_dropD)
  with x(1) show ?thesis by blast
qed

text \<open>The clock goes back from two hours east of Greenwich to one, at 01:00 UTC.\<close>

definition demo_autumn :: "int \<Rightarrow> int" where
  "demo_autumn ns = (if ns < 3600000000000 then 7200 else 3600)"

definition demo_late :: Message where
  "demo_late = \<lparr>msg_Sender = ''ann'', msg_Content = ''hi'', msg_Timestamp = \<lparr>t_ns = 3610000000000, t_zone = ZFixed 3600\<rparr>\<rparr>"

theorem zone_change_hides_witness:
  "\<exists>x. convo_GetMessageRange demo_autumn ''c1'' \<lparr>t_ns = 3590000000000, t_zone = ZLocal\<rparr> \<lparr>t_ns = 3620000000000, t_zone = ZLocal\<rparr> (int 9)
      (Bucket 0 [(MessageBucket, Sub (Bucket 0 [(''c1'', Sub (Bucket 0 (msg_ents (keyed demo_autumn [demo_late]))))]))]) =
      (Ret x, Bucket 0 [(MessageBucket, Sub (Bucket 0 [(''c1'', Sub (Bucket 0 (msg_ents (keyed demo_autumn [demo_late]))))]))]) \<and>
    demo_late \<notin> set (slice x)"
proof -
  let ?s = "Bucket 0 [(MessageBucket, Sub (Bucket 0 [(''c1'', Sub (Bucket 0 (msg_ents (keyed demo_autumn [demo_late]))))]))]"
  have k: "kept demo_autumn ''c1'' ?s [demo_late]" by (simp add: kept_def ent_def)
  have z: "in_zone demo_autumn 3600 (msg_Timestamp demo_late)" "four_digits demo_autumn \<lparr>t_ns = 3590000000000, t_zone = ZLocal\<rparr>"
    using civil_1970(1)
    by (simp_all add: demo_late_def demo_autumn_def in_zone_def zone_offset_def four_digits_def year_of_def local_sec_def)
  then have "keys_ok demo_autumn [demo_late]" by (intro chronological_keys) (simp add: chronological_def)
  then show ?thesis
    by (rule zone_change_hides [OF k])
      (use z in \<open>simp_all add: demo_late_def demo_autumn_def zone_offset_def in_zone_def\<close>)
qed

end
