(* ===== verification/Hangup_Recver.thy ===== *)
theory Hangup_Recver
  imports Websockets
begin

text \<open>
  The goroutines that \<^verbatim>\<open>hangupRecver.Recv\<close> (\<^verbatim>\<open>rest/ws/hangup.go\<close>) starts, one for each call: it closes
  the river when the signal of the hangup is closed, or ends when the call has returned.
  Scribes and notification sessions receive through it.
\<close>

text \<open>The flag says that the channel \<^verbatim>\<open>done\<close> of the goroutine is closed.\<close>

datatype closer = KWaits bool | KGone

datatype closer_act = KHup | KQuit

text \<open>A step of the \<open>i\<close>-th goroutine; the second part of the result says that it has closed the river.
  \<^verbatim>\<open>select\<close> takes any of the cases that are ready.\<close>

definition closer_step :: "nat \<Rightarrow> closer_act \<Rightarrow> bool \<Rightarrow> closer list \<Rightarrow> (closer list \<times> bool) option" where
  "closer_step i a signal ks =
     (if i < length ks then
        (case (ks ! i, a) of
           (KWaits d, KHup) \<Rightarrow> if signal then Some (ks[i := KGone], True) else None
         | (KWaits d, KQuit) \<Rightarrow> if d then Some (ks[i := KGone], False) else None
         | (KGone, _) \<Rightarrow> None)
      else None)"

text \<open>\<^verbatim>\<open>Recv\<close> of the river has returned, and with it the call: \<^verbatim>\<open>close(done)\<close>.  Those of the earlier
  calls are closed already.\<close>

definition recv_returned :: "closer list \<Rightarrow> closer list" where
  "recv_returned = map (\<lambda>k. if k = KWaits False then KWaits True else k)"

fun closer_rank :: "closer \<Rightarrow> nat" where
  "closer_rank (KWaits d) = 1"
| "closer_rank KGone = 0"

definition closers_rank :: "closer list \<Rightarrow> nat" where
  "closers_rank ks = sum_list (map closer_rank ks)"

lemma closers_rank_returned [simp]: "closers_rank (recv_returned ks) = closers_rank ks"
  by (induction ks) (auto simp: closers_rank_def recv_returned_def)

lemma closers_rank_snoc [simp]: "closers_rank (ks @ [k]) = closers_rank ks + closer_rank k"
  by (simp add: closers_rank_def)

lemma closers_rank_update: "i < length ks \<Longrightarrow> ks ! i = KWaits d \<Longrightarrow> closers_rank (ks[i := KGone]) < closers_rank ks"
  by (induction ks arbitrary: i) (auto simp: closers_rank_def nth_Cons split: nat.splits)

lemma closers_rank_le: "closers_rank ks \<le> length ks"
proof (induction ks)
  case (Cons k ks)
  then show ?case by (cases k) (simp_all add: closers_rank_def)
qed (simp add: closers_rank_def)

lemma closer_step_cases:
  assumes "closer_step i a signal ks = Some (ks', shut)"
  obtains d where "i < length ks" "ks ! i = KWaits d" "ks' = ks[i := KGone]" "shut \<longleftrightarrow> a = KHup" "shut \<longrightarrow> signal" "\<not> shut \<longrightarrow> d"
  using assms by (auto simp: closer_step_def split: if_splits closer.splits closer_act.splits)

lemma closer_step_rank: "closer_step i a signal ks = Some (ks', shut) \<Longrightarrow> closers_rank ks' < closers_rank ks"
  by (erule closer_step_cases) (simp add: closers_rank_update)

text \<open>As long as the call has not returned its goroutine is there, or has closed the river.\<close>

lemma closer_step_guard:
  assumes "closer_step i a signal ks = Some (ks', shut)" and "KWaits False \<in> set ks"
  shows "KWaits False \<in> set ks' \<or> shut"
  using assms(1)
proof (cases rule: closer_step_cases)
  case (1 d)
  obtain j where j: "j < length ks" "ks ! j = KWaits False" using assms(2) by (auto simp: in_set_conv_nth)
  show ?thesis
  proof (cases "j = i")
    case False
    then have "ks' ! j = KWaits False" "j < length ks'" using 1 j by simp_all
    then show ?thesis by (metis nth_mem)
  qed (use 1 j in auto)
qed

lemma closer_can_close:
  assumes "KWaits d \<in> set ks"
  shows "\<exists>i ks'. closer_step i KHup True ks = Some (ks', True)"
proof -
  obtain i where "i < length ks" "ks ! i = KWaits d" using assms by (auto simp: in_set_conv_nth)
  then have "closer_step i KHup True ks = Some (ks[i := KGone], True)" by (simp add: closer_step_def)
  then show ?thesis by blast
qed

end
