(* ===== verification/Scribe_System.thy ===== *)
theory Scribe_System
  imports Histories Hangup_Recver
begin

text \<open>
  The goroutines of a scribe (\<^verbatim>\<open>Spawn\<close> in \<^verbatim>\<open>convo/scribe.go\<close>) as a system: one waits for the hangup
  survey, one receives from the bus of the convo and passes on to the channel \<^verbatim>\<open>toScribe\<close>,
  one collects the messages and writes them to the database, and every
  \<^verbatim>\<open>hangupRecver.Recv\<close> (\<^verbatim>\<open>rest/ws/hangup.go\<close>) starts one that closes the bus when the scribe is hung
  up.  Other handlers commit to the database in between.

  A step is what a goroutine does between two points at which another one can be scheduled; an
  action names the goroutine and carries what the sockets return.  A step that is blocked
  gives \<open>None\<close>.  \<^verbatim>\<open>log.Fatal\<close> ends the process: no step follows.
\<close>

section \<open>The state\<close>

text \<open>The receiving goroutine: before \<^verbatim>\<open>Recv\<close>, in it, with a message for the channel, before the
  channel is closed, returned.\<close>

datatype feeder = FCall | FRecv | FSend val | FClose | FDone

text \<open>The writing goroutine: in the \<^verbatim>\<open>select\<close>, before the transaction, waiting for \<^verbatim>\<open>errCh\<close>, before the
  clean-up, returned; the last three still have the messages that were never written.\<close>

datatype collector =
    CRead "Entry list" | CWrite "Entry list" | CAwait "Entry list" | CClean "Entry list" | CDone "Entry list" | CFatal

datatype awaiter = AWait | AReport | ADone

text \<open>\<open>g_received\<close>, \<open>g_events\<close> and \<open>g_written\<close> record what has happened: the messages that came from the
  bus, what the \<^verbatim>\<open>select\<close> has seen, and what was written.\<close>

record scribe_state =
  g_signal :: bool
  g_open :: bool
  g_chan :: "val list"
  g_closed :: bool
  g_feeder :: feeder
  g_collector :: collector
  g_awaiter :: awaiter
  g_closers :: "closer list"
  g_db :: db
  g_received :: "val list"
  g_events :: "scribe_event list"
  g_written :: "Entry list"

definition toScribe_cap :: nat where "toScribe_cap = 1024"

definition spawned :: "db \<Rightarrow> scribe_state" where
  "spawned s = \<lparr>g_signal = False, g_open = True, g_chan = [], g_closed = False, g_feeder = FCall, g_collector = CRead [],
     g_awaiter = AWait, g_closers = [], g_db = s, g_received = [], g_events = [], g_written = []\<rparr>"

section \<open>The goroutines\<close>

text \<open>\<^verbatim>\<open>AwaitHangup\<close>: whatever survey comes is answered, and \<^verbatim>\<open>HangupRecver.Send\<close> closes the signal.\<close>

fun awaiter_at :: "awaiter \<Rightarrow> bytes go \<Rightarrow> scribe_state \<Rightarrow> scribe_state option" where
  "awaiter_at AWait (Ret bs) g = Some (g\<lparr>g_awaiter := AReport, g_signal := True\<rparr>)"
| "awaiter_at AWait (Fail e) g = Some (g\<lparr>g_awaiter := AReport\<rparr>)"
| "awaiter_at _ _ g = None"

text \<open>The loop around \<^verbatim>\<open>Recv\<close>.  A closed bus gives an error or a message that was queued in it; when
  the bus returns, \<^verbatim>\<open>done\<close> of the closing goroutine is closed.\<close>

datatype feeder_act = FGo | FGets "val go"

fun feeder_at :: "feeder \<Rightarrow> feeder_act \<Rightarrow> scribe_state \<Rightarrow> scribe_state option" where
  "feeder_at FCall FGo g =
     Some (if g_signal g then g\<lparr>g_feeder := FClose\<rparr>
           else g\<lparr>g_feeder := FRecv, g_closers := g_closers g @ [KWaits False]\<rparr>)"
| "feeder_at FRecv (FGets (Ret bs)) g =
     Some (g\<lparr>g_feeder := FSend bs, g_received := g_received g @ [bs],
              g_closers := recv_returned (g_closers g)\<rparr>)"
| "feeder_at FRecv (FGets (Fail e)) g =
     Some (g\<lparr>g_feeder := FClose, g_closers := recv_returned (g_closers g)\<rparr>)"
| "feeder_at (FSend bs) FGo g =
     (if length (g_chan g) < toScribe_cap then Some (g\<lparr>g_feeder := FCall, g_chan := g_chan g @ [bs]\<rparr>) else None)"
| "feeder_at FClose FGo g = Some (g\<lparr>g_feeder := FDone, g_closed := True\<rparr>)"
| "feeder_at _ _ g = None"

text \<open>The write loop: the timer, the next value of the channel or its end; the transaction; the end.\<close>

datatype collector_act = CTick | CGo

fun collector_at :: "(int \<Rightarrow> int) \<Rightarrow> string \<Rightarrow> uint64 \<Rightarrow> uint64 \<Rightarrow> collector \<Rightarrow> collector_act \<Rightarrow> scribe_state \<Rightarrow> scribe_state option" where
  "collector_at local c scrID hID (CRead buf) CTick g =
     Some (g\<lparr>g_collector := (if length buf > 0 then CWrite buf else CRead buf), g_events := g_events g @ [Tick]\<rparr>)"
| "collector_at local c scrID hID (CRead buf) CGo g =
     (case g_chan g of
        bs # rest \<Rightarrow>
          Some (g\<lparr>g_chan := rest, g_events := g_events g @ [Arrived bs],
                  g_collector :=
                    (case json_Unmarshal dec_Message bs zero_Message of
                       Ret msg \<Rightarrow>
                         (let buf' = buf @ [(rfc3339 local (msg_Timestamp msg), bs)]
                          in if length buf' < MaxBuffer then CRead buf' else CWrite buf')
                     | _ \<Rightarrow> CFatal)\<rparr>)
      | [] \<Rightarrow> if g_closed g then Some (g\<lparr>g_collector := CAwait buf, g_events := g_events g @ [InputClosed]\<rparr>) else None)"
| "collector_at local c scrID hID (CWrite buf) CGo g =
     Some (case db_Update (scribe_write c buf) (g_db g) of
             (Ret _, s) \<Rightarrow> g\<lparr>g_collector := CRead [], g_db := s, g_written := g_written g @ buf\<rparr>
           | (_, s) \<Rightarrow> g\<lparr>g_collector := CFatal, g_db := s\<rparr>)"
| "collector_at local c scrID hID (CAwait buf) CGo g =
     (if g_awaiter g = AReport then Some (g\<lparr>g_collector := CClean buf, g_awaiter := ADone\<rparr>) else None)"
| "collector_at local c scrID hID (CClean buf) CGo g =
     Some (case db_Update (scribe_cleanup c scrID hID) (g_db g) of
             (Ret _, s) \<Rightarrow> g\<lparr>g_collector := CDone buf, g_db := s\<rparr>
           | (_, s) \<Rightarrow> g\<lparr>g_collector := CFatal, g_db := s\<rparr>)"
| "collector_at _ _ _ _ _ _ g = None"

section \<open>Runs\<close>

datatype scribe_act = Awaiter "bytes go" | Feeder feeder_act | Closer nat closer_act | Collector collector_act | Commit db

text \<open>The offset of the server's zone, the convo, and the numbers of the scribe's bus and responder.\<close>

type_synonym scribe_env = "(int \<Rightarrow> int) \<times> string \<times> uint64 \<times> uint64"

fun scribe_step :: "scribe_env \<Rightarrow> scribe_act \<Rightarrow> scribe_state \<Rightarrow> scribe_state option" where
  "scribe_step (local, c, scrID, hID) a g =
     (if g_collector g = CFatal then None
      else case a of
          Awaiter r \<Rightarrow> awaiter_at (g_awaiter g) r g
        | Feeder b \<Rightarrow> feeder_at (g_feeder g) b g
        | Closer i b \<Rightarrow> map_option (\<lambda>(ks, shut). g\<lparr>g_closers := ks, g_open := (g_open g \<and> \<not> shut)\<rparr>) (closer_step i b (g_signal g) (g_closers g))
        | Collector b \<Rightarrow> collector_at local c scrID hID (g_collector g) b g
        | Commit s \<Rightarrow> Some (g\<lparr>g_db := s\<rparr>))"

inductive scribe_runs :: "scribe_env \<Rightarrow> scribe_state \<Rightarrow> scribe_act list \<Rightarrow> scribe_state \<Rightarrow> bool" for me where
  scribe_start: "scribe_runs me g [] g"
| scribe_next: "scribe_runs me g as g' \<Longrightarrow> scribe_step me a g' = Some g'' \<Longrightarrow> scribe_runs me g (as @ [a]) g''"

fun scribe_exec :: "scribe_env \<Rightarrow> scribe_act list \<Rightarrow> scribe_state \<Rightarrow> scribe_state option" where
  "scribe_exec me [] g = Some g"
| "scribe_exec me (a # as) g = (case scribe_step me a g of None \<Rightarrow> None | Some g' \<Rightarrow> scribe_exec me as g')"

lemma scribe_exec_runs: "scribe_exec me bs g' = Some g'' \<Longrightarrow> scribe_runs me g as g' \<Longrightarrow> scribe_runs me g (as @ bs) g''"
proof (induction bs arbitrary: as g')
  case (Cons a bs)
  then obtain h where "scribe_step me a g' = Some h" "scribe_exec me bs h = Some g''" by (auto split: option.splits)
  then show ?case using Cons.IH [of h "as @ [a]"] scribe_next [OF Cons.prems(2)] by simp
qed simp

fun_cases awaiter_atE: "awaiter_at p r g = Some g'"
fun_cases feeder_atE: "feeder_at p a g = Some g'"

section \<open>Nothing is lost on the way\<close>

fun collected :: "collector \<Rightarrow> Entry list" where
  "collected (CRead buf) = buf"
| "collected (CWrite buf) = buf"
| "collected (CAwait buf) = buf"
| "collected (CClean buf) = buf"
| "collected (CDone buf) = buf"
| "collected CFatal = []"

fun at_hand :: "feeder \<Rightarrow> val list" where
  "at_hand (FSend bs) = [bs]"
| "at_hand _ = []"

definition ended :: "collector \<Rightarrow> bool" where
  "ended p \<longleftrightarrow> (\<exists>buf. p = CAwait buf \<or> p = CClean buf \<or> p = CDone buf)"

text \<open>Every message is written, in the buffer, in the channel or in the hand of the receiver, in
  the order of arrival.\<close>

definition scribe_inv :: "scribe_state \<Rightarrow> bool" where
  "scribe_inv g \<longleftrightarrow> length (g_chan g) \<le> toScribe_cap \<and> (g_collector g = CFatal \<or>
     g_received g = map snd (g_written g) @ map snd (collected (g_collector g)) @ g_chan g @ at_hand (g_feeder g) \<and>
     (g_closed g \<longleftrightarrow> g_feeder g = FDone) \<and>
     (ended (g_collector g) \<longrightarrow> g_feeder g = FDone \<and> g_chan g = [] \<and> length (collected (g_collector g)) < MaxBuffer) \<and>
     (\<forall>buf. g_collector g = CRead buf \<longrightarrow> length buf < MaxBuffer) \<and>
     (g_signal g \<longrightarrow> g_awaiter g \<noteq> AWait) \<and>
     (g_awaiter g = ADone \<longrightarrow> (\<exists>buf. g_collector g = CClean buf \<or> g_collector g = CDone buf)))"

lemma awaiter_inv: "scribe_inv g \<Longrightarrow> g_collector g \<noteq> CFatal \<Longrightarrow> awaiter_at (g_awaiter g) r g = Some g' \<Longrightarrow> scribe_inv g'"
  by (erule awaiter_atE) (simp_all add: scribe_inv_def)

lemma feeder_inv: "scribe_inv g \<Longrightarrow> g_collector g \<noteq> CFatal \<Longrightarrow> feeder_at (g_feeder g) a g = Some g' \<Longrightarrow> scribe_inv g'"
  by (erule feeder_atE) (auto simp: scribe_inv_def split: if_splits)

lemma closer_inv:
  "scribe_inv g \<Longrightarrow> scribe_inv (g\<lparr>g_closers := ks, g_open := shut\<rparr>)"
  by (simp add: scribe_inv_def)

lemma collector_inv:
  assumes "scribe_inv g" "g_collector g \<noteq> CFatal" "collector_at local c scrID hID (g_collector g) a g = Some g'"
  shows "scribe_inv g'"
proof (cases "g_collector g")
  case (CRead buf)
  with assms show ?thesis
    by (cases a) (auto simp: scribe_inv_def ended_def Let_def split: list.splits if_splits go.splits)
next
  case (CWrite buf)
  with assms show ?thesis
    by (cases a) (auto simp: scribe_inv_def ended_def MaxBuffer_def split: prod.splits go.splits)
qed (use assms in \<open>cases a; force simp: scribe_inv_def ended_def split: prod.splits go.splits if_splits\<close>)+

lemma scribe_inv_step:
  assumes "scribe_inv g" "scribe_step me a g = Some g'"
  shows "scribe_inv g'"
proof (cases a)
  case (Awaiter r)
  then show ?thesis using assms awaiter_inv [OF assms(1)] by (cases me) (simp split: if_splits)
next
  case (Feeder b)
  then show ?thesis using assms feeder_inv [OF assms(1)] by (cases me) (simp split: if_splits)
next
  case (Closer i b)
  then show ?thesis using assms closer_inv [OF assms(1)] by (cases me) (auto split: if_splits)
next
  case (Collector b)
  then show ?thesis using assms collector_inv [OF assms(1)] by (cases me) (simp split: if_splits)
next
  case (Commit s)
  then show ?thesis using assms by (cases me) (auto simp: scribe_inv_def split: if_splits)
qed

text \<open>While \<^verbatim>\<open>Recv\<close> waits at an open bus, there is a goroutine that would close it.\<close>

definition guarded :: "scribe_state \<Rightarrow> bool" where
  "guarded g \<longleftrightarrow> (g_feeder g = FRecv \<and> g_open g \<longrightarrow> KWaits False \<in> set (g_closers g))"

lemma guarded_step:
  assumes "guarded g" "scribe_step me a g = Some g'"
  shows "guarded g'"
proof (cases a)
  case (Awaiter r)
  then show ?thesis using assms by (cases me) (auto simp: guarded_def split: if_splits elim!: awaiter_atE)
next
  case (Feeder b)
  then show ?thesis using assms by (cases me) (auto simp: guarded_def split: if_splits elim!: feeder_atE)
next
  case (Closer i b)
  then show ?thesis using assms by (cases me) (auto simp: guarded_def split: if_splits dest: closer_step_guard)
next
  case (Collector b)
  then have "g_feeder g' = g_feeder g \<and> g_open g' = g_open g \<and> g_closers g' = g_closers g"
    using assms(2) by (cases me; cases "g_collector g"; cases b) (auto split: if_splits list.splits prod.splits go.splits)
  then show ?thesis using assms(1) by (simp add: guarded_def)
next
  case (Commit s)
  then show ?thesis using assms by (cases me) (auto simp: guarded_def split: if_splits)
qed

lemma guarded_runs: "scribe_runs me g as g' \<Longrightarrow> guarded g \<Longrightarrow> guarded g'"
  by (induction rule: scribe_runs.induct) (auto intro: guarded_step)

lemma scribe_inv_runs: "scribe_runs me g as g' \<Longrightarrow> scribe_inv g \<Longrightarrow> scribe_inv g'"
  by (induction rule: scribe_runs.induct) (auto intro: scribe_inv_step)

lemma scribe_inv_spawned: "scribe_inv (spawned s)"
  by (simp add: spawned_def scribe_inv_def ended_def MaxBuffer_def)

section \<open>The end\<close>

text \<open>All steps but ticks of the timer and what other handlers do.\<close>

definition own_act :: "scribe_act \<Rightarrow> bool" where
  "own_act a \<longleftrightarrow> (case a of Collector CTick \<Rightarrow> False | Commit _ \<Rightarrow> False | _ \<Rightarrow> True)"

fun feeder_rank :: "feeder \<Rightarrow> nat" where
  "feeder_rank FCall = 2"
| "feeder_rank FRecv = 7"
| "feeder_rank (FSend bs) = 6"
| "feeder_rank FClose = 1"
| "feeder_rank FDone = 0"

fun collector_rank :: "collector \<Rightarrow> nat" where
  "collector_rank (CRead buf) = (if buf = [] then 3 else 4)"
| "collector_rank (CWrite buf) = 4"
| "collector_rank (CAwait buf) = 2"
| "collector_rank (CClean buf) = 1"
| "collector_rank _ = 0"

fun awaiter_rank :: "awaiter \<Rightarrow> nat" where
  "awaiter_rank AWait = 2"
| "awaiter_rank AReport = 1"
| "awaiter_rank ADone = 0"

definition scribe_rank :: "scribe_state \<Rightarrow> nat" where
  "scribe_rank g = feeder_rank (g_feeder g) + 3 * length (g_chan g) + collector_rank (g_collector g) +
     awaiter_rank (g_awaiter g) + closers_rank (g_closers g)"

lemma feeder_rank_step:
  assumes "g_signal g" "feeder_at (g_feeder g) a g = Some g'"
  shows "scribe_rank g' < scribe_rank g \<and> g_signal g'"
  using assms(2) by (cases rule: feeder_atE) (use assms(1) in \<open>auto simp: scribe_rank_def split: if_splits\<close>)

lemma collector_rank_step:
  assumes "collector_at local c i j (g_collector g) a g = Some g'"
  shows "(if a = CTick then scribe_rank g' \<le> scribe_rank g else scribe_rank g' < scribe_rank g) \<and> g_signal g' = g_signal g"
  using assms
  by (cases "g_collector g"; cases a) (auto simp: scribe_rank_def Let_def split: list.splits if_splits go.splits prod.splits)

lemma awaiter_rank_step:
  "awaiter_at (g_awaiter g) r g = Some g' \<Longrightarrow> scribe_rank g' < scribe_rank g \<and> (g_signal g \<longrightarrow> g_signal g')"
  by (erule awaiter_atE) (simp_all add: scribe_rank_def)

lemma scribe_rank_step:
  assumes "g_signal g" "scribe_step me a g = Some g'"
  shows "g_signal g' \<and> (if own_act a then scribe_rank g' < scribe_rank g else scribe_rank g' \<le> scribe_rank g)"
proof -
  obtain local c i j where me: "me = (local, c, i, j)" by (meson prod_cases4)
  show ?thesis
  proof (cases a)
    case (Collector b)
    then show ?thesis using assms collector_rank_step [of local c i j g b g']
      by (cases b) (simp_all add: me own_act_def split: if_splits)
  next
    case (Awaiter r)
    then show ?thesis using assms awaiter_rank_step [of g r g'] by (simp add: me own_act_def split: if_splits)
  next
    case (Feeder b)
    then show ?thesis using assms feeder_rank_step [of g b g'] by (simp add: me own_act_def split: if_splits)
  next
    case (Closer n b)
    then show ?thesis using assms by (auto simp: me own_act_def scribe_rank_def dest!: closer_step_rank split: if_splits)
  next
    case (Commit s)
    then show ?thesis using assms by (auto simp: me own_act_def scribe_rank_def split: if_splits)
  qed
qed

lemma steps_after_hup:
  "scribe_runs me g bs g' \<Longrightarrow> g_signal g \<Longrightarrow> g_signal g' \<and> length (filter own_act bs) + scribe_rank g' \<le> scribe_rank g"
proof (induction rule: scribe_runs.induct)
  case (scribe_next g as g' a g'')
  then show ?case using scribe_rank_step [of g' me a g''] by (cases "own_act a") simp_all
qed simp

text \<open>What does not happen of itself: a return of \<^verbatim>\<open>Recv\<close> while the bus is open, a survey, a tick, and what
  others do.\<close>

definition due :: "scribe_state \<Rightarrow> scribe_act \<Rightarrow> bool" where
  "due g a \<longleftrightarrow> own_act a \<and> (\<forall>r. a = Feeder (FGets r) \<longrightarrow> \<not> g_open g) \<and> (\<forall>r. a \<noteq> Awaiter r)"

definition scribe_rest :: "scribe_env \<Rightarrow> scribe_state \<Rightarrow> bool" where
  "scribe_rest me g \<longleftrightarrow> (\<forall>a. due g a \<longrightarrow> scribe_step me a g = None)"

lemma restD: "scribe_rest me g \<Longrightarrow> due g a \<Longrightarrow> scribe_step me a g = None"
  by (simp add: scribe_rest_def)

lemma rest_ended:
  assumes "scribe_inv g" "g_signal g" "scribe_rest me g" "g_collector g \<noteq> CFatal" "guarded g"
  shows "\<exists>buf. g_collector g = CDone buf"
proof -
  obtain local c i j where me: "me = (local, c, i, j)" by (meson prod_cases4)
  have C: "collector_at local c i j (g_collector g) CGo g = None" and F: "feeder_at (g_feeder g) FGo g = None"
    using assms(4) restD [OF assms(3), of "Collector CGo"] restD [OF assms(3), of "Feeder FGo"]
    by (simp_all add: me own_act_def due_def)
  have K: "closer_step n KHup True (g_closers g) = None" for n
    using assms(2,4) restD [OF assms(3), of "Closer n KHup"] by (simp add: me own_act_def due_def)
  note inv = assms(1) [unfolded scribe_inv_def]
  have "g_feeder g = FDone"
  proof (cases "g_feeder g")
    case FRecv
    then have "\<not> g_open g" using assms(5) K closer_can_close [of False "g_closers g"] by (auto simp: guarded_def)
    then show ?thesis using FRecv assms(4) restD [OF assms(3), of "Feeder (FGets (Fail io_EOF))"]
      by (simp add: me own_act_def due_def)
  next
    case (FSend bs)
    then have "g_chan g \<noteq> []" using F by (auto simp: toScribe_cap_def split: if_splits)
    then show ?thesis using C inv FSend assms(4)
      by (cases "g_collector g") (auto simp: ended_def split: list.splits)
  qed (use F in simp_all)
  then show ?thesis
    using C inv assms(2,4) by (cases "g_collector g"; cases "g_awaiter g") (auto simp: ended_def split: list.splits if_splits)
qed

section \<open>Properties\<close>

text \<open>
  C14 (scribe_hangup_ends).  Once the survey of a hangup has been answered, the goroutines of a
  scribe make a bounded number of steps, apart from ticks of the timer, in any interleaving
  and whatever other handlers commit.  When none of them has a step to make, other than
  to receive from an open bus, the scribe has cleaned up and returned, unless \<^verbatim>\<open>log.Fatal\<close> has ended the process.  Then every message that it
  has received is written, in the order of arrival, but for fewer than 128 last ones.
\<close>

theorem scribe_hangup_ends:
  assumes "scribe_runs me (spawned s) as g" and "g_signal g" and "scribe_runs me g bs g'"
  shows "length (filter own_act bs) \<le> 3085 + length (g_closers g) \<and>
    (scribe_rest me g' \<longrightarrow> g_collector g' = CFatal \<or>
      (\<exists>lost. g_collector g' = CDone lost \<and> length lost < 128 \<and>
         g_received g' = map snd (g_written g') @ map snd lost))"
proof (intro conjI impI)
  have inv: "scribe_inv g" using scribe_inv_runs [OF assms(1) scribe_inv_spawned] .
  note after = steps_after_hup [OF assms(3,2)]
  have "feeder_rank (g_feeder g) \<le> 7" by (cases "g_feeder g") simp_all
  moreover have "collector_rank (g_collector g) \<le> 4" by (cases "g_collector g") simp_all
  moreover have "awaiter_rank (g_awaiter g) \<le> 2" by (cases "g_awaiter g") simp_all
  moreover have "length (g_chan g) \<le> 1024" using inv by (simp add: scribe_inv_def toScribe_cap_def)
  ultimately have "scribe_rank g \<le> 3085 + length (g_closers g)"
    using closers_rank_le [of "g_closers g"] by (simp add: scribe_rank_def)
  with after show "length (filter own_act bs) \<le> 3085 + length (g_closers g)" by linarith
  assume rest: "scribe_rest me g'"
  have inv': "scribe_inv g'" using scribe_inv_runs [OF assms(3) inv] .
  have "guarded (spawned s)" by (simp add: guarded_def spawned_def)
  then have guard: "guarded g'" using guarded_runs [OF assms(3)] guarded_runs [OF assms(1)] by blast
  show "g_collector g' = CFatal \<or> (\<exists>lost. g_collector g' = CDone lost \<and> length lost < 128 \<and>
      g_received g' = map snd (g_written g') @ map snd lost)"
  proof (cases "g_collector g' = CFatal")
    case False
    from rest_ended [OF inv' _ rest this guard] after obtain lost where "g_collector g' = CDone lost" by blast
    then show ?thesis using inv' by (auto simp: scribe_inv_def ended_def MaxBuffer_def)
  qed simp
qed

text \<open>What the \<^verbatim>\<open>select\<close> has taken from the channel.\<close>

fun taken :: "scribe_event list \<Rightarrow> val list" where
  "taken [] = []"
| "taken (Arrived bs # evs) = bs # taken evs"
| "taken (_ # evs) = taken evs"

lemma taken_append [simp]: "taken (evs @ evs') = taken evs @ taken evs'"
  by (induction evs rule: taken.induct) simp_all

text \<open>Where the goroutine stands in the run of \<open>scribe_run\<close> on what its \<^verbatim>\<open>select\<close> has seen.\<close>

definition refines_run :: "(int \<Rightarrow> int) \<Rightarrow> string \<Rightarrow> uint64 \<Rightarrow> uint64 \<Rightarrow> db \<Rightarrow> scribe_state \<Rightarrow> bool" where
  "refines_run local c scrID hID s g \<longleftrightarrow>
     (case g_collector g of
        CRead buf \<Rightarrow> scribe_run local c (g_events g) [] s = Some (False, buf, g_db g)
      | CWrite buf \<Rightarrow> scribe_run local c (g_events g) [] s =
          (case db_Update (scribe_write c buf) (g_db g) of (Ret _, s') \<Rightarrow> Some (False, [], s') | _ \<Rightarrow> None)
      | CAwait buf \<Rightarrow> scribe_run local c (g_events g) [] s = Some (True, buf, g_db g)
      | CClean buf \<Rightarrow> scribe_run local c (g_events g) [] s = Some (True, buf, g_db g)
      | CDone buf \<Rightarrow> (\<exists>s'. scribe_run local c (g_events g) [] s = Some (True, buf, s') \<and>
          g_db g = snd (db_Update (scribe_cleanup c scrID hID) s'))
      | CFatal \<Rightarrow> True) \<and>
     (g_collector g \<noteq> CFatal \<longrightarrow> taken (g_events g) = map snd (g_written g) @ map snd (collected (g_collector g)))"

lemma collector_refines:
  assumes "refines_run local c scrID hID s g" "collector_at local c scrID hID (g_collector g) a g = Some g'"
  shows "refines_run local c scrID hID s g'"
proof (cases "g_collector g")
  case (CRead buf)
  with assms show ?thesis
    by (cases a) (auto simp: refines_run_def scribe_run_append Let_def split: list.splits if_splits go.splits prod.splits)
next
  case (CWrite buf)
  with assms show ?thesis by (cases a) (auto simp: refines_run_def split: prod.splits go.splits)
next
  case (CClean buf)
  with assms show ?thesis by (cases a) (auto simp: refines_run_def split: prod.splits go.splits)
qed (use assms in \<open>cases a; force simp: refines_run_def split: if_splits\<close>)+

lemma refines_frame:
  assumes "g_collector g' = g_collector g" "g_events g' = g_events g" "g_db g' = g_db g" "g_written g' = g_written g"
  shows "refines_run local c scrID hID s g' = refines_run local c scrID hID s g"
  by (cases "g_collector g") (simp_all add: refines_run_def assms)

lemma refines_step:
  assumes "refines_run local c scrID hID s g" "scribe_step (local, c, scrID, hID) a g = Some g'" "\<forall>x. a \<noteq> Commit x"
  shows "refines_run local c scrID hID s g'"
proof (cases "\<exists>b. a = Collector b")
  case True
  then show ?thesis using assms collector_refines [OF assms(1)] by (auto split: if_splits)
next
  case False
  then have "g_collector g' = g_collector g \<and> g_events g' = g_events g \<and> g_db g' = g_db g \<and> g_written g' = g_written g"
    using assms(2,3)
    by (cases a) (auto elim!: awaiter_atE feeder_atE split: if_splits)
  then show ?thesis using assms(1) refines_frame [of g' g] by simp
qed

lemma refines_runs:
  "scribe_runs (local, c, scrID, hID) g as g' \<Longrightarrow> \<forall>x. Commit x \<notin> set as \<Longrightarrow> refines_run local c scrID hID s g \<Longrightarrow>
   refines_run local c scrID hID s g'"
  by (induction rule: scribe_runs.induct) (auto intro: refines_step simp del: scribe_step.simps)

text \<open>
  C16 (scribe_refines).  As long as nobody else writes to the database, a scribe does in every
  interleaving of its goroutines what its write loop does alone on the ticks and messages that
  its \<^verbatim>\<open>select\<close> has seen, and these messages, what is in the channel and what the receiver holds
  are the messages of the bus in the order of arrival.
\<close>

theorem scribe_refines:
  assumes "scribe_runs (local, c, scrID, hID) (spawned s) as g" and "\<forall>x. Commit x \<notin> set as" and "g_collector g \<noteq> CFatal"
  shows "g_received g = taken (g_events g) @ g_chan g @ at_hand (g_feeder g) \<and>
    (\<forall>buf. g_collector g = CRead buf \<longrightarrow> scribe_run local c (g_events g) [] s = Some (False, buf, g_db g)) \<and>
    (\<forall>lost. g_collector g = CDone lost \<longrightarrow> (\<exists>s'. scribe_run local c (g_events g) [] s = Some (True, lost, s') \<and>
       g_db g = snd (db_Update (scribe_cleanup c scrID hID) s')))"
proof -
  have "refines_run local c scrID hID s (spawned s)" by (simp add: refines_run_def spawned_def)
  from refines_runs [OF assms(1,2) this] have r: "refines_run local c scrID hID s g" .
  moreover have "scribe_inv g" using scribe_inv_runs [OF assms(1) scribe_inv_spawned] .
  ultimately show ?thesis using assms(3) by (auto simp: refines_run_def scribe_inv_def)
qed

text \<open>A message comes and is taken, the scribe is hung up, and all goroutines end.\<close>

definition demo_scribe_db :: db where
  "demo_scribe_db = Bucket 0 [(MessageBucket, Sub (Bucket 0 [(''c1'', Sub empty_bucket)])),
     (RiverBucket, Sub (Bucket 0
       [(''c1'', Sub (Bucket 0 [(''c1'', Sub (Bucket 1 [(''1'', Leaf (Raw []))]))])),
        (HangupBucket, Sub (Bucket 0 [(ScribeBucket, Sub (Bucket 0 [(''c1'', Sub (Bucket 1 [(''1'', Leaf (Raw []))]))]))]))]))]"

definition demo_scribe_start :: "scribe_act list" where
  "demo_scribe_start = [Feeder FGo, Feeder (FGets (Ret (Doc (enc_Message (demo_msg 1))))), Feeder FGo, Feeder FGo,
     Collector CGo, Awaiter (Ret HUP)]"

definition demo_scribe_end :: "scribe_act list" where
  "demo_scribe_end = [Closer 1 KHup, Feeder (FGets (Fail io_EOF)), Feeder FGo, Closer 0 KQuit,
     Collector CGo, Collector CGo, Collector CGo]"

abbreviation demo_me :: scribe_env where
  "demo_me \<equiv> (\<lambda>_. 0, ''c1'', 1, 1)"

lemma demo_cleanup: "\<exists>s. db_Update (scribe_cleanup ''c1'' 1 1) demo_scribe_db = (Ret (), s)"
  by (simp add: db_Update_def scribe_cleanup_def river_DeleteBus_def river_DeleteResp_def river_bucket_def demo_scribe_db_def
      db_bind_def db_catch_def on_bkt_def errors_Wrap_def Bucket_Delete_def Cursor_seek_def strconv_FormatUint_def nat_digits.simps
      ent_def MessageBucket_def RiverBucket_def HangupBucket_def ScribeBucket_def set_ent_def del_ent_def)

lemma demo_scribe_runs:
  "\<exists>g g' k. scribe_exec demo_me demo_scribe_start (spawned demo_scribe_db) = Some g \<and> g_signal g \<and> length (g_closers g) = 2 \<and>
     scribe_exec demo_me demo_scribe_end g = Some g' \<and> g_collector g' = CDone [(k, Doc (enc_Message (demo_msg 1)))] \<and> g_feeder g' = FDone \<and>
     g_awaiter g' = ADone \<and> g_closers g' = [KGone, KGone]"
  using demo_cleanup
  by (auto simp: demo_scribe_start_def demo_scribe_end_def spawned_def toScribe_cap_def MaxBuffer_def closer_step_def
      recv_returned_def)

theorem scribe_hangup_ends_witness:
  "\<exists>g g' lost. scribe_runs demo_me (spawned demo_scribe_db) demo_scribe_start g \<and> scribe_runs demo_me g demo_scribe_end g' \<and>
     g_collector g' = CDone lost \<and> g_received g' = map snd (g_written g') @ map snd lost \<and>
     length (filter own_act demo_scribe_end) \<le> 3087"
proof -
  obtain g g' k where e: "scribe_exec demo_me demo_scribe_start (spawned demo_scribe_db) = Some g" "g_signal g" "length (g_closers g) = 2"
      "scribe_exec demo_me demo_scribe_end g = Some g'"
    and c: "g_collector g' = CDone [(k, Doc (enc_Message (demo_msg 1)))]" "g_feeder g' = FDone" "g_awaiter g' = ADone" "g_closers g' = [KGone, KGone]"
    using demo_scribe_runs by blast
  have r: "scribe_runs demo_me (spawned demo_scribe_db) demo_scribe_start g" "scribe_runs demo_me g demo_scribe_end g'"
    using scribe_exec_runs [OF e(1) scribe_start] scribe_exec_runs [OF e(4) scribe_start] by simp_all
  have "scribe_rest demo_me g'"
    by (auto simp: scribe_rest_def due_def own_act_def c closer_step_def nth_Cons split: scribe_act.splits nat.splits)
  with scribe_hangup_ends [OF r(1) e(2) r(2)] c(1) e(3)
  have "length (filter own_act demo_scribe_end) \<le> 3087"
    "g_received g' = map snd (g_written g') @ map snd [(k, Doc (enc_Message (demo_msg 1)))]" by auto
  with r c(1) show ?thesis by blast
qed

theorem scribe_refines_witness:
  "\<exists>g. scribe_runs demo_me (spawned demo_scribe_db) demo_scribe_start g \<and>
     g_received g = taken (g_events g) @ g_chan g @ at_hand (g_feeder g)"
proof -
  obtain g g' where e: "scribe_exec demo_me demo_scribe_start (spawned demo_scribe_db) = Some g" "scribe_exec demo_me demo_scribe_end g = Some g'"
    using demo_scribe_runs by blast
  have r: "scribe_runs demo_me (spawned demo_scribe_db) demo_scribe_start g" using scribe_exec_runs [OF e(1) scribe_start] by simp
  have "g_collector g \<noteq> CFatal" using e(2) by (auto simp: demo_scribe_end_def)
  from scribe_refines [OF r _ this] r show ?thesis by (auto simp: demo_scribe_start_def)
qed

end
