(* ===== verification/Notif_Session.thy ===== *)
theory Notif_Session
  imports Hangup_Recver
begin

text \<open>
  A notification socket as a system of goroutines: \<^verbatim>\<open>Notif.Connect\<close> (\<^verbatim>\<open>rest/notif.go\<close>) waits for a
  hangup survey in one goroutine and serves \<^verbatim>\<open>ws.BindRead\<close> (\<^verbatim>\<open>rest/ws/ws.go\<close>), which passes on
  what the river brings and discards in another goroutine what the client sends, until that
  one leaves.  Each \<^verbatim>\<open>Recv\<close> goes through \<^verbatim>\<open>hangupRecver\<close>.

  As in a session with a client that writes, a step is what a goroutine does between two points
  at which another one can be scheduled, an action carries what the connection and the
  sockets return, and a step that is blocked gives \<open>None\<close>.
\<close>

section \<open>The state\<close>

text \<open>The loop of \<^verbatim>\<open>BindRead\<close>: before \<^verbatim>\<open>Recv\<close>, in it, before \<^verbatim>\<open>Write\<close>, before the connection is closed,
  returned.\<close>

datatype relay = NCall | NRecv | NWrite bytes | NClose | NReturned

text \<open>The goroutine that discards: in \<^verbatim>\<open>Receive\<close>, before the river is closed, returned.\<close>

datatype discarder = DReceive | DClose | DDone

datatype hup_waiter = HupWait | HupReport | HupDone

text \<open>The handler: in \<^verbatim>\<open>BindRead\<close>, in the transaction with both sockets closed and waiting for \<^verbatim>\<open>errCh\<close>,
  past it.\<close>

datatype connect_point = ServesHTTP | AwaitsHup | CleansUp

text \<open>\<open>n_received\<close> and \<open>n_wire\<close> record what came from the river and what was written.\<close>

record notif_session =
  n_signal :: bool
  n_river :: bool
  n_rsp :: bool
  n_conn :: bool
  n_relay :: relay
  n_discarder :: discarder
  n_waiter :: hup_waiter
  n_connect :: connect_point
  n_closers :: "closer list"
  n_received :: "bytes list"
  n_wire :: "bytes list"

definition connected :: notif_session where
  "connected = \<lparr>n_signal = False, n_river = True, n_rsp = True, n_conn = True, n_relay = NCall, n_discarder = DReceive,
     n_waiter = HupWait, n_connect = ServesHTTP, n_closers = [], n_received = [], n_wire = []\<rparr>"

section \<open>The goroutines\<close>

text \<open>A closed river gives an error; a write to a closed connection fails.\<close>

datatype relay_act = NGo | NGets "bytes go" | NWrites "err option"

fun relay_at :: "relay \<Rightarrow> relay_act \<Rightarrow> notif_session \<Rightarrow> notif_session option" where
  "relay_at NCall NGo n =
     Some (if n_signal n then n\<lparr>n_relay := NClose\<rparr>
           else n\<lparr>n_relay := NRecv, n_closers := n_closers n @ [KWaits False]\<rparr>)"
| "relay_at NRecv (NGets (Ret bs)) n =
     (if n_river n
      then Some (n\<lparr>n_relay := NWrite bs, n_received := n_received n @ [bs], n_closers := recv_returned (n_closers n)\<rparr>)
      else None)"
| "relay_at NRecv (NGets (Fail e)) n = Some (n\<lparr>n_relay := NClose, n_closers := recv_returned (n_closers n)\<rparr>)"
| "relay_at (NWrite bs) (NWrites None) n =
     (if n_conn n then Some (n\<lparr>n_relay := NCall, n_wire := n_wire n @ [bs]\<rparr>) else None)"
| "relay_at (NWrite bs) (NWrites (Some e)) n = Some (n\<lparr>n_relay := NClose\<rparr>)"
| "relay_at NClose NGo n = Some (n\<lparr>n_relay := NReturned, n_conn := False\<rparr>)"
| "relay_at _ _ n = None"

text \<open>\<^verbatim>\<open>Receive\<close> returns \<open>None\<close> for a message; on a closed connection it gives an error.\<close>

datatype discard_act = DGets "err option" | DGo

fun discarder_at :: "discarder \<Rightarrow> discard_act \<Rightarrow> notif_session \<Rightarrow> notif_session option" where
  "discarder_at DReceive (DGets e) n =
     (if n_conn n \<or> e \<noteq> None then Some (n\<lparr>n_discarder := (if e = Some io_EOF then DClose else DReceive)\<rparr>) else None)"
| "discarder_at DClose DGo n = Some (n\<lparr>n_discarder := DDone, n_river := False\<rparr>)"
| "discarder_at _ _ n = None"

text \<open>\<^verbatim>\<open>AwaitHangup\<close>: whatever survey comes is answered, which closes the signal.  A closed responder
  gives an error.\<close>

fun waiter_at :: "hup_waiter \<Rightarrow> bytes go \<Rightarrow> notif_session \<Rightarrow> notif_session option" where
  "waiter_at HupWait (Ret bs) n = (if n_rsp n then Some (n\<lparr>n_waiter := HupReport, n_signal := True\<rparr>) else None)"
| "waiter_at HupWait (Fail e) n = Some (n\<lparr>n_waiter := HupReport\<rparr>)"
| "waiter_at _ _ n = None"

definition connect_step :: "notif_session \<Rightarrow> notif_session option" where
  "connect_step n =
     (case n_connect n of
        ServesHTTP \<Rightarrow> if n_relay n = NReturned then Some (n\<lparr>n_connect := AwaitsHup, n_river := False, n_rsp := False\<rparr>) else None
      | AwaitsHup \<Rightarrow> if n_waiter n = HupReport then Some (n\<lparr>n_connect := CleansUp, n_waiter := HupDone\<rparr>) else None
      | CleansUp \<Rightarrow> None)"

section \<open>Runs\<close>

datatype notif_act = Relay relay_act | Discarder discard_act | HupWaiter "bytes go" | NCloser nat closer_act | Connecting

fun notif_step :: "notif_act \<Rightarrow> notif_session \<Rightarrow> notif_session option" where
  "notif_step (Relay a) n = relay_at (n_relay n) a n"
| "notif_step (Discarder a) n = discarder_at (n_discarder n) a n"
| "notif_step (HupWaiter r) n = waiter_at (n_waiter n) r n"
| "notif_step (NCloser i a) n =
     map_option (\<lambda>(ks, shut). n\<lparr>n_closers := ks, n_river := (n_river n \<and> \<not> shut)\<rparr>) (closer_step i a (n_signal n) (n_closers n))"
| "notif_step Connecting n = connect_step n"

inductive notif_runs :: "notif_session \<Rightarrow> notif_act list \<Rightarrow> notif_session \<Rightarrow> bool" where
  notif_start: "notif_runs n [] n"
| notif_next: "notif_runs n as n' \<Longrightarrow> notif_step a n' = Some n'' \<Longrightarrow> notif_runs n (as @ [a]) n''"

fun notif_exec :: "notif_act list \<Rightarrow> notif_session \<Rightarrow> notif_session option" where
  "notif_exec [] n = Some n"
| "notif_exec (a # as) n = (case notif_step a n of None \<Rightarrow> None | Some n' \<Rightarrow> notif_exec as n')"

lemma notif_exec_runs: "notif_exec bs n' = Some n'' \<Longrightarrow> notif_runs n as n' \<Longrightarrow> notif_runs n (as @ bs) n''"
proof (induction bs arbitrary: as n')
  case (Cons a bs)
  then obtain m where "notif_step a n' = Some m" "notif_exec bs m = Some n''" by (auto split: option.splits)
  then show ?case using Cons.IH [of m "as @ [a]"] notif_next [OF Cons.prems(2)] by simp
qed simp

fun_cases relay_atE: "relay_at p a n = Some n'"
fun_cases discarder_atE: "discarder_at p a n = Some n'"
fun_cases waiter_atE: "waiter_at p r n = Some n'"

lemma connect_stepE:
  assumes "connect_step n = Some n'"
  obtains "n_connect n = ServesHTTP" "n_relay n = NReturned" "n' = n\<lparr>n_connect := AwaitsHup, n_river := False, n_rsp := False\<rparr>"
    | "n_connect n = AwaitsHup" "n_waiter n = HupReport" "n' = n\<lparr>n_connect := CleansUp, n_waiter := HupDone\<rparr>"
  using assms by (auto simp: connect_step_def split: connect_point.splits if_splits)

section \<open>The invariant\<close>

text \<open>What came from the river is on the wire, in this order, but for the message in hand and at most one
  that could not be written.\<close>

definition relay_inv :: "notif_session \<Rightarrow> bool" where
  "relay_inv n \<longleftrightarrow>
     (case n_relay n of
        NWrite bs \<Rightarrow> n_received n = n_wire n @ [bs]
      | NCall \<Rightarrow> n_received n = n_wire n
      | NRecv \<Rightarrow> n_received n = n_wire n
      | _ \<Rightarrow> n_received n = n_wire n \<or> (\<exists>bs. n_received n = n_wire n @ [bs]))"

definition closed_inv :: "notif_session \<Rightarrow> bool" where
  "closed_inv n \<longleftrightarrow> (n_relay n = NReturned \<longrightarrow> \<not> n_conn n)"

definition control_inv :: "notif_session \<Rightarrow> bool" where
  "control_inv n \<longleftrightarrow> (n_signal n \<longrightarrow> n_waiter n \<noteq> HupWait) \<and> (n_waiter n = HupDone \<longleftrightarrow> n_connect n = CleansUp) \<and>
     (n_connect n = AwaitsHup \<longrightarrow> \<not> n_rsp n) \<and>
     (n_relay n = NRecv \<and> n_river n \<longrightarrow> KWaits False \<in> set (n_closers n))"

lemma relay_inv_step: "relay_inv n \<Longrightarrow> notif_step a n = Some n' \<Longrightarrow> relay_inv n'"
  by (cases a) (auto simp: relay_inv_def elim!: relay_atE discarder_atE waiter_atE connect_stepE split: if_splits relay.splits)

lemma closed_inv_step: "closed_inv n \<Longrightarrow> notif_step a n = Some n' \<Longrightarrow> closed_inv n'"
  by (cases a) (auto simp: closed_inv_def elim!: relay_atE discarder_atE waiter_atE connect_stepE split: if_splits)

lemma relay_frame:
  "relay_at p a n = Some n' \<Longrightarrow> n_signal n' = n_signal n \<and> n_waiter n' = n_waiter n \<and> n_connect n' = n_connect n \<and>
     n_rsp n' = n_rsp n \<and> n_river n' = n_river n \<and> (n_relay n' = NRecv \<longrightarrow> KWaits False \<in> set (n_closers n'))"
  by (erule relay_atE) (auto split: if_splits)

lemma discarder_frame:
  "discarder_at p a n = Some n' \<Longrightarrow> n_signal n' = n_signal n \<and> n_waiter n' = n_waiter n \<and> n_connect n' = n_connect n \<and>
     n_rsp n' = n_rsp n \<and> (n_river n' \<longrightarrow> n_river n) \<and> n_relay n' = n_relay n \<and> n_closers n' = n_closers n"
  by (erule discarder_atE) (auto split: if_splits)

lemma control_inv_step:
  assumes "control_inv n" "notif_step a n = Some n'"
  shows "control_inv n'"
proof (cases a)
  case (Relay b)
  then show ?thesis using assms relay_frame [of "n_relay n" b n n'] by (simp add: control_inv_def)
next
  case (NCloser i b)
  then show ?thesis using assms by (auto simp: control_inv_def dest: closer_step_guard)
next
  case (Discarder b)
  then show ?thesis using assms discarder_frame [of "n_discarder n" b n n'] by (simp add: control_inv_def)
next
  case (HupWaiter r)
  then show ?thesis using assms by (auto simp: control_inv_def elim!: waiter_atE split: if_splits)
next
  case Connecting
  then show ?thesis using assms by (auto simp: control_inv_def elim!: connect_stepE)
qed

definition notif_ok :: "notif_session \<Rightarrow> bool" where
  "notif_ok n \<longleftrightarrow> relay_inv n \<and> closed_inv n \<and> control_inv n"

lemma notif_inv: "notif_runs n as n' \<Longrightarrow> notif_ok n \<Longrightarrow> notif_ok n'"
  by (induction rule: notif_runs.induct) (auto simp: notif_ok_def intro: relay_inv_step closed_inv_step control_inv_step)

section \<open>The end\<close>

text \<open>All steps but what the client sends.\<close>

definition server_act :: "notif_act \<Rightarrow> bool" where
  "server_act a \<longleftrightarrow> (\<forall>e. a \<noteq> Discarder (DGets e))"

definition relay_rank :: "notif_session \<Rightarrow> nat" where
  "relay_rank n = (case n_relay n of NCall \<Rightarrow> 4 | NRecv \<Rightarrow> if n_river n then 6 else 2 | NWrite bs \<Rightarrow> 5 | NClose \<Rightarrow> 1 | NReturned \<Rightarrow> 0)"

definition notif_rank :: "notif_session \<Rightarrow> nat" where
  "notif_rank n = relay_rank n + (if n_discarder n = DDone then 0 else 1) +
     (case n_waiter n of HupWait \<Rightarrow> 2 | HupReport \<Rightarrow> 1 | HupDone \<Rightarrow> 0) +
     (case n_connect n of ServesHTTP \<Rightarrow> 2 | AwaitsHup \<Rightarrow> 1 | CleansUp \<Rightarrow> 0) + closers_rank (n_closers n)"

text \<open>Hung up, or the client has left and the river is closed.\<close>

definition ending :: "notif_session \<Rightarrow> bool" where
  "ending n \<longleftrightarrow> n_signal n \<or> \<not> n_river n"

lemma relay_rank_step: "ending n \<Longrightarrow> relay_at (n_relay n) b n = Some n' \<Longrightarrow> ending n' \<and> notif_rank n' < notif_rank n"
  by (erule relay_atE) (auto simp: ending_def notif_rank_def relay_rank_def split: if_splits)

lemma discarder_rank_step:
  "ending n \<Longrightarrow> discarder_at (n_discarder n) b n = Some n' \<Longrightarrow>
   ending n' \<and> (if b = DGo then notif_rank n' < notif_rank n else notif_rank n' \<le> notif_rank n)"
  by (erule discarder_atE) (auto simp: ending_def notif_rank_def relay_rank_def split: if_splits relay.splits)

lemma waiter_rank_step: "ending n \<Longrightarrow> waiter_at (n_waiter n) r n = Some n' \<Longrightarrow> ending n' \<and> notif_rank n' < notif_rank n"
  by (erule waiter_atE) (auto simp: ending_def notif_rank_def relay_rank_def split: if_splits relay.splits)

lemma connect_rank_step: "ending n \<Longrightarrow> connect_step n = Some n' \<Longrightarrow> ending n' \<and> notif_rank n' < notif_rank n"
  by (erule connect_stepE) (auto simp: ending_def notif_rank_def relay_rank_def)

lemma closer_notif_rank:
  "ending n \<Longrightarrow> closer_step i a (n_signal n) (n_closers n) = Some (ks, shut) \<Longrightarrow>
   ending (n\<lparr>n_closers := ks, n_river := (n_river n \<and> \<not> shut)\<rparr>) \<and>
   notif_rank (n\<lparr>n_closers := ks, n_river := (n_river n \<and> \<not> shut)\<rparr>) < notif_rank n"
  by (drule closer_step_rank) (auto simp: ending_def notif_rank_def relay_rank_def split: relay.splits)

lemma notif_rank_step:
  assumes "ending n" "notif_step a n = Some n'"
  shows "ending n' \<and> (if server_act a then notif_rank n' < notif_rank n else notif_rank n' \<le> notif_rank n)"
proof (cases a)
  case (Relay b)
  then show ?thesis using assms relay_rank_step [of n b n'] by (simp add: server_act_def)
next
  case (Discarder b)
  then show ?thesis using assms discarder_rank_step [of n b n'] by (cases b) (simp_all add: server_act_def)
next
  case (HupWaiter r)
  then show ?thesis using assms waiter_rank_step [of n r n'] by (simp add: server_act_def)
next
  case (NCloser i b)
  then show ?thesis using assms closer_notif_rank [of n i b] by (auto simp: server_act_def)
next
  case Connecting
  then show ?thesis using assms connect_rank_step [of n n'] by (simp add: server_act_def)
qed

lemma notif_steps_left:
  "notif_runs n bs n' \<Longrightarrow> ending n \<Longrightarrow> ending n' \<and> length (filter server_act bs) + notif_rank n' \<le> notif_rank n"
proof (induction rule: notif_runs.induct)
  case (notif_next n as n' a n'')
  then show ?case using notif_rank_step [of n' a n''] by (cases "server_act a") simp_all
qed simp

text \<open>What does not happen of itself: a return of \<^verbatim>\<open>Recv\<close> from an open river or of an open responder, and what the
  client does.\<close>

definition notif_due :: "notif_session \<Rightarrow> notif_act \<Rightarrow> bool" where
  "notif_due n a \<longleftrightarrow> server_act a \<and> (\<forall>r. a = Relay (NGets r) \<longrightarrow> \<not> n_river n) \<and> (\<forall>r. a = HupWaiter r \<longrightarrow> \<not> n_rsp n)"

definition notif_rest :: "notif_session \<Rightarrow> bool" where
  "notif_rest n \<longleftrightarrow> (\<forall>a. notif_due n a \<longrightarrow> notif_step a n = None)"

lemma notif_restD: "notif_rest n \<Longrightarrow> notif_due n a \<Longrightarrow> notif_step a n = None"
  by (simp add: notif_rest_def)

lemma notif_rest_ended:
  assumes "control_inv n" "ending n" "notif_rest n"
  shows "n_relay n = NReturned \<and> n_connect n = CleansUp"
proof -
  note due = notif_due_def server_act_def
  have R: "relay_at (n_relay n) NGo n = None" "relay_at (n_relay n) (NWrites (Some io_EOF)) n = None"
    and C: "connect_step n = None"
    using notif_restD [OF assms(3), of "Relay NGo"] notif_restD [OF assms(3), of "Relay (NWrites (Some io_EOF))"]
      notif_restD [OF assms(3), of Connecting] by (simp_all add: due)
  have K: "n_signal n \<Longrightarrow> closer_step i KHup True (n_closers n) = None" for i
    using notif_restD [OF assms(3), of "NCloser i KHup"] by (simp add: due)
  have "n_relay n = NReturned"
  proof (cases "n_relay n")
    case NRecv
    then have "\<not> n_river n" using assms(1,2) K closer_can_close [of False "n_closers n"] by (auto simp: control_inv_def ending_def)
    then show ?thesis using NRecv notif_restD [OF assms(3), of "Relay (NGets (Fail io_EOF))"] by (simp add: due)
  qed (use R in simp_all)
  moreover have "n_connect n = CleansUp"
  proof (cases "n_connect n")
    case AwaitsHup
    then have "\<not> n_rsp n" using assms(1) by (simp add: control_inv_def)
    then have "waiter_at (n_waiter n) (Fail io_EOF) n = None"
      using notif_restD [OF assms(3), of "HupWaiter (Fail io_EOF)"] by (simp add: due)
    then show ?thesis using AwaitsHup C assms(1) by (cases "n_waiter n") (simp_all add: connect_step_def control_inv_def)
  qed (use C \<open>n_relay n = NReturned\<close> in \<open>simp_all add: connect_step_def\<close>)
  ultimately show ?thesis ..
qed

section \<open>Properties\<close>

text \<open>
  C15 (notif_session_ends).  Notifications reach the client in the order in which they came from the
  river, and at most one is lost.  After a hangup, or when the client has left, the
  goroutines of the server make a bounded number of steps in any interleaving and whatever the
  client still sends; when none of them has a step to make, other than to receive from an open
  socket, the connection is closed and the handler has come to its clean-up.  Only the
  goroutine that discards the client's input is left: it takes every error other than the end
  of the stream without moving on, so on a connection that the server has closed it spins.
\<close>

theorem notif_session_ends:
  assumes "notif_runs connected as n" and "n_signal n \<or> \<not> n_river n" and "notif_runs n bs n'"
  shows "length (filter server_act bs) \<le> 11 + length (n_closers n) \<and>
    (\<exists>lost. n_received n' = n_wire n' @ lost \<and> length lost \<le> 1) \<and>
    (notif_rest n' \<longrightarrow> \<not> n_conn n' \<and> n_connect n' = CleansUp) \<and>
    (n_discarder n' = DReceive \<longrightarrow> (\<forall>e. e \<noteq> io_EOF \<longrightarrow> notif_step (Discarder (DGets (Some e))) n' = Some n'))"
proof -
  have "notif_ok connected" by (simp add: connected_def notif_ok_def relay_inv_def closed_inv_def control_inv_def)
  then have inv: "relay_inv n'" "closed_inv n'" "control_inv n'"
    using notif_inv [OF assms(1)] notif_inv [OF assms(3)] by (simp_all add: notif_ok_def)
  have e: "ending n" using assms(2) by (simp add: ending_def)
  note left = notif_steps_left [OF assms(3) e]
  have "notif_rank n \<le> 11 + length (n_closers n)"
    using closers_rank_le [of "n_closers n"]
    by (auto simp: notif_rank_def relay_rank_def split: relay.splits hup_waiter.splits connect_point.splits)
  then have "length (filter server_act bs) \<le> 11 + length (n_closers n)" using left by linarith
  moreover have "\<exists>lost. n_received n' = n_wire n' @ lost \<and> length lost \<le> 1"
    using inv(1) by (auto simp: relay_inv_def split: relay.splits)
  moreover have "\<not> n_conn n' \<and> n_connect n' = CleansUp" if "notif_rest n'"
    using notif_rest_ended [OF inv(3) _ that] inv(2) left by (simp add: closed_inv_def)
  moreover have "notif_step (Discarder (DGets (Some e))) n' = Some n'" if "n_discarder n' = DReceive" "e \<noteq> io_EOF" for e
    using that by (cases n') simp
  ultimately show ?thesis by blast
qed

text \<open>A notification is delivered, and the session is hung up.\<close>

definition demo_notif_start :: "notif_act list" where
  "demo_notif_start = [Relay NGo, Relay (NGets (Ret ''hi'')), Relay (NWrites None), Relay NGo, HupWaiter (Ret ''HUP'')]"

definition demo_notif_end :: "notif_act list" where
  "demo_notif_end = [NCloser 1 KHup, Relay (NGets (Fail io_EOF)), Relay NGo, NCloser 0 KQuit, Connecting, Connecting,
     Discarder (DGets (Some (Errorf ''closed'')))]"

lemma demo_notif_runs:
  "\<exists>n n'. notif_exec demo_notif_start connected = Some n \<and> n_signal n \<and> notif_exec demo_notif_end n = Some n' \<and>
     n_relay n' = NReturned \<and> n_discarder n' = DReceive \<and> n_waiter n' = HupDone \<and> n_connect n' = CleansUp \<and>
     n_closers n' = [KGone, KGone] \<and> n_wire n' = [''hi'']"
  by (simp add: demo_notif_start_def demo_notif_end_def connected_def recv_returned_def closer_step_def connect_step_def io_EOF_def)

theorem notif_session_ends_witness:
  "\<exists>n n'. notif_runs connected demo_notif_start n \<and> notif_runs n demo_notif_end n' \<and> n_wire n' = [''hi''] \<and>
     \<not> n_conn n' \<and> n_connect n' = CleansUp \<and> notif_step (Discarder (DGets (Some (Errorf ''closed'')))) n' = Some n'"
proof -
  obtain n n' where e: "notif_exec demo_notif_start connected = Some n" "n_signal n" "notif_exec demo_notif_end n = Some n'"
    and c: "n_relay n' = NReturned" "n_discarder n' = DReceive" "n_waiter n' = HupDone" "n_connect n' = CleansUp"
      "n_closers n' = [KGone, KGone]" "n_wire n' = [''hi'']"
    using demo_notif_runs by blast
  have r: "notif_runs connected demo_notif_start n" "notif_runs n demo_notif_end n'"
    using notif_exec_runs [OF e(1) notif_start] notif_exec_runs [OF e(3) notif_start] by simp_all
  have "notif_step a n' = None" if "server_act a" for a
  proof (cases a)
    case (Discarder b)
    then show ?thesis using that by (cases b) (simp_all add: server_act_def c)
  qed (auto simp: c closer_step_def connect_step_def nth_Cons split: nat.splits)
  then have "notif_rest n'" by (simp add: notif_rest_def notif_due_def)
  moreover have "Errorf ''closed'' \<noteq> io_EOF" by (simp add: io_EOF_def)
  ultimately show ?thesis using notif_session_ends [OF r(1) _ r(2)] e(2) c r by blast
qed

end
