(* ===== verification/Concurrent_Updates.thy ===== *)
theory Concurrent_Updates
  imports Interleaving
begin

text \<open>
  Requests on streams and convos as processes (\<^verbatim>\<open>Create\<close>, \<^verbatim>\<open>Put\<close> and \<^verbatim>\<open>Delete\<close> of
  \<^verbatim>\<open>rest/stream.go\<close> and \<^verbatim>\<open>rest/convo.go\<close>, with the turns of their hangup loops), and what their
  checks are worth when other requests commit between them.  \<^verbatim>\<open>Put\<close> checks the owner in one
  transaction and writes in a later one, which checks again that the stream exists: in every
  schedule a stream keeps its owner, and one that was deleted stays deleted.  A \<^verbatim>\<open>Delete\<close> of a
  convo that succeeds has removed the convo and its messages, in every schedule; its check-ins
  go in a transaction before the last one, and others can check in again in between.  A \<^verbatim>\<open>Put\<close>
  of a task does not check again, and brings a deleted task back.
\<close>

section \<open>Processes\<close>

text \<open>A step that is not the last one.\<close>

definition tx_then :: "(server \<Rightarrow> 'a \<times> server) \<Rightarrow> ('a \<Rightarrow> process) \<Rightarrow> process" where
  "tx_then h k = Tx (\<lambda>sv. case h sv of (a, sv1) \<Rightarrow> (k a, sv1))"

lemma run_alone_then [simp]: "run_alone (tx_then h k) sv = (case h sv of (a, sv1) \<Rightarrow> run_alone (k a) sv1)"
  by (simp add: tx_then_def case_prod_beta)

definition proc_Stream_Create :: "uuid \<Rightarrow> request \<Rightarrow> process" where
  "proc_Stream_Create newV4 r =
     (case decode_body dec_Stream zero_Stream r of
        None \<Rightarrow> Done (HttpError StatusBadRequest)
      | Some sent \<Rightarrow>
          (case mw_CtxGetUserID r of
             Ret userID \<Rightarrow>
               (let i = uuid_String newV4; str = owned userID i sent; allUsers = all_users userID (str_Group str)
                in tx_View (store_Wrap [stream_CheckNotExist i, users_CheckUsersExist allUsers]) (\<lambda>x. case x of
                     Fail e \<Rightarrow> Done (create_status stream_IsExists e)
                   | Panic \<Rightarrow> Done Panicked
                   | Ret _ \<Rightarrow>
                       tx_Update (store_Wrap [stream_CheckNotExist i, users_CheckUsersExist allUsers, stream_Upsert str]) (\<lambda>y. case y of
                         Fail e \<Rightarrow> (create_status stream_IsExists e, \<lambda>sv. sv)
                       | Panic \<Rightarrow> (Panicked, \<lambda>sv. sv)
                       | Ret _ \<Rightarrow>
                           (OkBody (enc_Stream str),
                            notify_all ''streams'' (enc_Stream str) (smap_keys (g_Readers (str_Group str)))))))
           | _ \<Rightarrow> Done Panicked))"

definition proc_Stream_Put :: "request \<Rightarrow> process" where
  "proc_Stream_Put r =
     (case mw_CtxGetUserID r of
        Ret userID \<Rightarrow>
          (let i = ByName r ''stream_id''
           in case uuid_FromString i of
                Fail _ \<Rightarrow> Done (HttpError StatusBadRequest)
              | Panic \<Rightarrow> Done Panicked
              | Ret _ \<Rightarrow>
                  (case decode_body dec_Stream zero_Stream r of
                     None \<Rightarrow> Done (HttpError StatusBadRequest)
                   | Some sent \<Rightarrow>
                       (let str = owned userID i sent; allUsers = all_users userID (str_Group str)
                        in tx_View (store_Wrap [stream_CheckExists i, users_CheckUsersExist allUsers]) (\<lambda>x. case x of
                             Fail e \<Rightarrow> Done (put_status stream_IsMissing e)
                           | Panic \<Rightarrow> Done Panicked
                           | Ret _ \<Rightarrow> tx_View (stream_Get zero_Stream i) (\<lambda>y. case y of
                               Fail e \<Rightarrow> Done (HttpError (if stream_IsMissing e then StatusNotFound else StatusInternalServerError))
                             | Panic \<Rightarrow> Done Panicked
                             | Ret existing \<Rightarrow>
                                 if g_Owner (str_Group existing) \<noteq> userID then Done (HttpError StatusUnauthorized)
                                 else tx_Update (store_Wrap [stream_CheckExists i, users_CheckUsersExist allUsers, stream_Upsert str])
                                   (\<lambda>z. case z of
                                     Fail e \<Rightarrow> (put_status stream_IsMissing e, \<lambda>sv. sv)
                                   | Panic \<Rightarrow> (Panicked, \<lambda>sv. sv)
                                   | Ret _ \<Rightarrow>
                                       (OkBody (enc_Stream str),
                                        notify_update ''streams'' ''stream-removed'' str (update_users userID existing str))))))))
      | _ \<Rightarrow> Done Panicked)"

text \<open>\<^verbatim>\<open>hangupReaders\<close>, with the survey of each reader as a step of its own.\<close>

fun proc_stream_hangup :: "world \<Rightarrow> string \<Rightarrow> string list \<Rightarrow> (unit go \<Rightarrow> process) \<Rightarrow> process" where
  "proc_stream_hangup w i [] k = k (Ret ())"
| "proc_stream_hangup w i (user # us) k =
     tx_then (sv_Update (river_NewSurvey (w_net w) [HangupBucket, i, user])) (\<lambda>x. case x of
        Panic \<Rightarrow> k Panic
      | Fail e \<Rightarrow> if river_IsStreamMissing e then k (Ret ()) else k (Fail e)
      | Ret surv \<Rightarrow>
          tx_then (hup_survey w [HangupBucket, i, user] surv) (\<lambda>y. case y of
             Ret _ \<Rightarrow> proc_stream_hangup w i us k
           | z \<Rightarrow> k z))"

definition proc_Stream_Delete :: "world \<Rightarrow> request \<Rightarrow> process" where
  "proc_Stream_Delete w r =
     (case mw_CtxGetUserID r of
        Ret userID \<Rightarrow>
          (let i = ByName r ''stream_id''
           in case uuid_FromString i of
                Fail _ \<Rightarrow> Done (HttpError StatusBadRequest)
              | Panic \<Rightarrow> Done Panicked
              | Ret _ \<Rightarrow> tx_View (stream_Get zero_Stream i) (\<lambda>x. case x of
                  Fail e \<Rightarrow> Done (HttpError (if stream_IsMissing e then StatusNotFound else StatusInternalServerError))
                | Panic \<Rightarrow> Done Panicked
                | Ret existing \<Rightarrow>
                    if g_Owner (str_Group existing) \<noteq> userID then Done (HttpError StatusUnauthorized)
                    else proc_stream_hangup w i (smap_keys (g_Readers (str_Group existing))) (\<lambda>y. case y of
                        Fail _ \<Rightarrow> Done (HttpError StatusInternalServerError)
                      | Panic \<Rightarrow> Done Panicked
                      | Ret _ \<Rightarrow> tx_Update (stream_Delete i) (\<lambda>z. case z of
                          Fail _ \<Rightarrow> (HttpError StatusInternalServerError, \<lambda>sv. sv)
                        | Panic \<Rightarrow> (Panicked, \<lambda>sv. sv)
                        | Ret _ \<Rightarrow>
                            (OkEmpty, notify_all ''stream-deleted'' (JStr i) (smap_keys (g_Readers (str_Group existing))))))))
      | _ \<Rightarrow> Done Panicked)"

definition proc_Convo_Create :: "uuid \<Rightarrow> request \<Rightarrow> process" where
  "proc_Convo_Create newV4 r =
     (case decode_body dec_Stream zero_Stream r of
        None \<Rightarrow> Done (HttpError StatusBadRequest)
      | Some sent \<Rightarrow>
          (case mw_CtxGetUserID r of
             Ret userID \<Rightarrow>
               (let i = uuid_String newV4; str = owned userID i sent; allUsers = all_users userID (str_Group str)
                in tx_View (store_Wrap [convo_CheckNotExist i, users_CheckUsersExist allUsers]) (\<lambda>x. case x of
                     Fail e \<Rightarrow> Done (create_status convo_IsExists e)
                   | Panic \<Rightarrow> Done Panicked
                   | Ret _ \<Rightarrow>
                       tx_Update (store_Wrap [convo_CheckNotExist i, users_CheckUsersExist allUsers,
                           convo_Upsert str, convo_InitMessages i]) (\<lambda>y. case y of
                         Fail e \<Rightarrow> (create_status convo_IsExists e, \<lambda>sv. sv)
                       | Panic \<Rightarrow> (Panicked, \<lambda>sv. sv)
                       | Ret _ \<Rightarrow>
                           (OkBody (enc_Stream str),
                            notify_all ''convos'' (enc_Stream str) (smap_keys (g_Readers (str_Group str)))))))
           | _ \<Rightarrow> Done Panicked))"

text \<open>A turn of the loops \<^verbatim>\<open>hangupRemoved\<close> and \<^verbatim>\<open>hangupReaders\<close> of convos, and the loop.\<close>

definition proc_hangup_user :: "world \<Rightarrow> string \<Rightarrow> string \<Rightarrow> (hup \<Rightarrow> process) \<Rightarrow> process" where
  "proc_hangup_user w i u k =
     (let bks = [HangupBucket, i, u]
      in tx_View (river_NewSurvey (w_net w) bks) (\<lambda>x. case x of
           Panic \<Rightarrow> k HupPanic
         | Fail e \<Rightarrow> k (if river_IsStreamMissing e then HupBreak else HupFailed)
         | Ret surv \<Rightarrow> tx_then (hup_survey w bks surv) (\<lambda>y. case y of
             Ret _ \<Rightarrow> k HupNext
           | Panic \<Rightarrow> k HupPanic
           | Fail e \<Rightarrow>
               if river_IsMissing e then tx_View (river_CheckMissing bks) (\<lambda>z. case z of
                    Ret _ \<Rightarrow> k HupNext
                  | Panic \<Rightarrow> k HupPanic
                  | Fail _ \<Rightarrow> k HupFailed)
               else k HupFailed)))"

fun proc_convo_hangup :: "world \<Rightarrow> string \<Rightarrow> string list \<Rightarrow> (hup \<Rightarrow> process) \<Rightarrow> process" where
  "proc_convo_hangup w i [] k = k HupNext"
| "proc_convo_hangup w i (u # us) k =
     proc_hangup_user w i u (\<lambda>h. case h of
        HupNext \<Rightarrow> proc_convo_hangup w i us k
      | HupBreak \<Rightarrow> k HupNext
      | _ \<Rightarrow> k h)"

definition proc_Convo_Put :: "world \<Rightarrow> request \<Rightarrow> process" where
  "proc_Convo_Put w r =
     (case mw_CtxGetUserID r of
        Ret userID \<Rightarrow>
          (let i = ByName r ''convo_id''
           in case uuid_FromString i of
                Fail _ \<Rightarrow> Done (HttpError StatusBadRequest)
              | Panic \<Rightarrow> Done Panicked
              | Ret _ \<Rightarrow>
                  (case decode_body dec_Stream zero_Stream r of
                     None \<Rightarrow> Done (HttpError StatusBadRequest)
                   | Some sent \<Rightarrow>
                       (let str = owned userID i sent; allUsers = all_users userID (str_Group str)
                        in tx_View (store_Wrap [convo_CheckExists i, users_CheckUsersExist allUsers]) (\<lambda>x. case x of
                             Fail e \<Rightarrow> Done (put_status convo_IsMissing e)
                           | Panic \<Rightarrow> Done Panicked
                           | Ret _ \<Rightarrow> tx_View (convo_Get zero_Stream i) (\<lambda>y. case y of
                               Fail e \<Rightarrow> Done (convo_get_status e)
                             | Panic \<Rightarrow> Done Panicked
                             | Ret existing \<Rightarrow>
                                 if g_Owner (str_Group existing) \<noteq> userID then Done (HttpError StatusUnauthorized)
                                 else
                                   (let updateUsers = users_DiffGroups (str_Group existing) (str_Group str)
                                    in proc_convo_hangup w i (map fst (filter (\<lambda>(u, ok). \<not> ok) updateUsers)) (\<lambda>h. case h of
                                         HupFailed \<Rightarrow> Done (HttpError StatusInternalServerError)
                                       | HupPanic \<Rightarrow> Done Panicked
                                       | _ \<Rightarrow>
                                           tx_Update (store_Wrap [convo_CheckExists i, users_CheckUsersExist allUsers, convo_Upsert str])
                                             (\<lambda>z. case z of
                                               Fail e \<Rightarrow> (put_status convo_IsMissing e, \<lambda>sv. sv)
                                             | Panic \<Rightarrow> (Panicked, \<lambda>sv. sv)
                                             | Ret _ \<Rightarrow>
                                                 (OkBody (enc_Stream str),
                                                  notify_update ''convos'' ''convo-removed'' str updateUsers)))))))))
      | _ \<Rightarrow> Done Panicked)"

definition proc_Convo_Delete :: "world \<Rightarrow> request \<Rightarrow> process" where
  "proc_Convo_Delete w r =
     (case mw_CtxGetUserID r of
        Ret userID \<Rightarrow>
          (let i = ByName r ''convo_id''
           in case uuid_FromString i of
                Fail _ \<Rightarrow> Done (HttpError StatusBadRequest)
              | Panic \<Rightarrow> Done Panicked
              | Ret _ \<Rightarrow> tx_View (convo_Get zero_Stream i) (\<lambda>x. case x of
                  Fail e \<Rightarrow> Done (convo_get_status e)
                | Panic \<Rightarrow> Done Panicked
                | Ret existing \<Rightarrow>
                    if g_Owner (str_Group existing) \<noteq> userID then Done (HttpError StatusUnauthorized)
                    else proc_convo_hangup w i (smap_keys (g_Readers (str_Group existing))) (\<lambda>h. case h of
                        HupFailed \<Rightarrow> Done (HttpError StatusInternalServerError)
                      | HupPanic \<Rightarrow> Done Panicked
                      | _ \<Rightarrow> tx_then (sv_Update (convo_DeleteCheckins i)) (\<lambda>y.
                          if y = Panic then Done Panicked
                          else if (case y of Fail e \<Rightarrow> \<not> store_IsMissingBucket e | _ \<Rightarrow> False) then Done Exited
                          else tx_Update (store_Wrap [convo_Delete i, convo_DeleteMessages i]) (\<lambda>z. case z of
                              Fail _ \<Rightarrow> (HttpError StatusInternalServerError, \<lambda>sv. sv)
                            | Panic \<Rightarrow> (Panicked, \<lambda>sv. sv)
                            | Ret _ \<Rightarrow>
                                (OkEmpty, notify_all ''convo-deleted'' (JStr i) (smap_keys (g_Readers (str_Group existing)))))))))
      | _ \<Rightarrow> Done Panicked)"

section \<open>Alone\<close>

lemma stream_hangup_alone:
  "run_alone (proc_stream_hangup w i us k) sv = (case stream_hangup w i us sv of (x, sv1) \<Rightarrow> run_alone (k x) sv1)"
proof (induction us arbitrary: sv)
  case (Cons u us)
  then show ?case by (simp split: prod.splits go.splits)
qed simp

lemma hangup_user_alone:
  "run_alone (proc_hangup_user w i u k) sv = (case hangup_user w i u sv of (h, sv1) \<Rightarrow> run_alone (k h) sv1)"
  by (simp add: proc_hangup_user_def hangup_user_def Let_def split: prod.splits go.splits)

lemma convo_hangup_alone:
  "run_alone (proc_convo_hangup w i us k) sv = (case convo_hangup w i us sv of (h, sv1) \<Rightarrow> run_alone (k h) sv1)"
proof (induction us arbitrary: sv)
  case (Cons u us)
  then show ?case by (simp add: hangup_user_alone split: prod.splits hup.splits)
qed simp

lemma stream_processes_alone:
  "run_alone (proc_Stream_Create n r) sv = rest_Stream_Create n r sv"
  "run_alone (proc_Stream_Put r) sv = rest_Stream_Put r sv"
  "run_alone (proc_Stream_Delete w r) sv = rest_Stream_Delete w r sv"
proof -
  show "run_alone (proc_Stream_Create n r) sv = rest_Stream_Create n r sv"
    by (simp add: proc_Stream_Create_def rest_Stream_Create_def Let_def split: option.splits go.splits prod.splits)
  show "run_alone (proc_Stream_Put r) sv = rest_Stream_Put r sv"
    by (simp add: proc_Stream_Put_def rest_Stream_Put_def Let_def split: option.splits go.splits prod.splits)
  show "run_alone (proc_Stream_Delete w r) sv = rest_Stream_Delete w r sv"
    by (simp add: proc_Stream_Delete_def rest_Stream_Delete_def Let_def stream_hangup_alone split: go.splits prod.splits)
qed

lemma convo_processes_alone:
  "run_alone (proc_Convo_Create n r) sv = rest_Convo_Create n r sv"
  "run_alone (proc_Convo_Put w r) sv = rest_Convo_Put w r sv"
  "run_alone (proc_Convo_Delete w r) sv = rest_Convo_Delete w r sv"
proof -
  show "run_alone (proc_Convo_Create n r) sv = rest_Convo_Create n r sv"
    by (simp add: proc_Convo_Create_def rest_Convo_Create_def Let_def split: option.splits go.splits prod.splits)
  show "run_alone (proc_Convo_Put w r) sv = rest_Convo_Put w r sv"
    by (simp add: proc_Convo_Put_def rest_Convo_Put_def convo_replace_def convo_hangup_alone Let_def
        split: option.splits go.splits prod.splits hup.splits)
  show "run_alone (proc_Convo_Delete w r) sv = rest_Convo_Delete w r sv"
    by (simp add: proc_Convo_Delete_def rest_Convo_Delete_def convo_remove_def convo_hangup_alone Let_def
        split: go.splits prod.splits hup.splits)
qed

section \<open>What every row promises\<close>

text \<open>A table in which the row \<open>i\<close>, if there is one, satisfies \<open>P\<close>.\<close>

definition row_ok :: "(val \<Rightarrow> bool) \<Rightarrow> bytes \<Rightarrow> string \<Rightarrow> db \<Rightarrow> bool" where
  "row_ok P b i s \<longleftrightarrow> has_tbl b s \<and> (\<forall>v. table s b i = Some v \<longrightarrow> P v)"

definition stays_row :: "(val \<Rightarrow> bool) \<Rightarrow> bytes \<Rightarrow> string \<Rightarrow> db \<Rightarrow> db \<Rightarrow> bool" where
  "stays_row P b i s s' \<longleftrightarrow> (row_ok P b i s \<longrightarrow> row_ok P b i s')"

interpretation row: db_relation "stays_row P b i"
  by unfold_locales (auto simp: stays_row_def)

definition owned_by :: "string \<Rightarrow> val \<Rightarrow> bool" where
  "owned_by u v \<longleftrightarrow> (\<forall>y. json_Unmarshal dec_Stream v zero_Stream = Ret y \<longrightarrow> g_Owner (str_Group y) = u)"

lemma dec_enc_owner: "dec_Stream (enc_Stream x) zero_Stream = Some y \<Longrightarrow> g_Owner (str_Group y) = g_Owner (str_Group x)"
  by (auto simp: dec_Stream_def enc_Stream_def dec_Group_def enc_Group_def split: bind_splits)

text \<open>Two promises: the row has the owner \<open>u\<close>, and there is no row.\<close>

definition no_row :: "val \<Rightarrow> bool" where
  "no_row v = False"

lemma owned_enc: "g_Owner (str_Group x) = u \<Longrightarrow> owned_by u (Doc (enc_Stream x))"
  by (auto simp: owned_by_def dest: dec_enc_owner)

lemma row_same: "keeps (same_bkt b) m \<Longrightarrow> keeps (stays_row P b i) m"
  by (auto simp: keeps_def same_bkt_def stays_row_def row_ok_def has_tbl_def table_def simp del: bkt_at.simps)

lemma row_CheckUsers: "keeps (stays_row P b i) (users_CheckUsersExist us)"
  by (simp add: keeps_def stays_row_def users_CheckUsersExist_state)

locale group_rows = group_table +
  assumes Get_row: "has_tbl bkt s \<Longrightarrow> fst (Get zero_Stream i s) = Ret y \<longleftrightarrow>
      (\<exists>v. table s bkt i = Some v \<and> json_Unmarshal dec_Stream v zero_Stream = Ret y)"
    and Upsert_row: "has_tbl bkt s \<Longrightarrow> Upsert x s = (r, s') \<Longrightarrow> s' = s \<or> s' = db_put bkt (str_ID x) (Doc (enc_Stream x)) s"
begin

lemma keeps_Upsert:
  "str_ID x = i \<Longrightarrow> P (Doc (enc_Stream x)) \<Longrightarrow> keeps (stays_row P bkt i) (Upsert x)"
  "str_ID x \<noteq> i \<Longrightarrow> keeps (stays_row P bkt i) (Upsert x)"
  unfolding keeps_def stays_row_def row_ok_def using Upsert_row [of _ x, OF _ surjective_pairing] by force+

lemma keeps_Delete: "keeps (stays_row P bkt i) (Delete j)"
  by (auto simp: keeps_def stays_row_def row_ok_def Delete_eq split: if_splits)

lemma keeps_checks: "keeps (stays_row P bkt i) (CheckExists j)" "keeps (stays_row P bkt i) (CheckNotExist j)"
  by (auto simp: keeps_def stays_row_def row_ok_def CheckExists_eq CheckNotExist_eq)

text \<open>An update that checks that the row is there, and keeps the owner that was read at some
  moment at which the row was right.\<close>

lemma keeps_replace:
  assumes "row_ok (owned_by u) bkt i s0" and "fst (Get zero_Stream (str_ID x) s0) = Ret y"
    and "g_Owner (str_Group y) = g_Owner (str_Group x)" and "Q = owned_by u \<or> Q = no_row"
  shows "keeps (stays_row Q bkt i) (store_Wrap [CheckExists (str_ID x), users_CheckUsersExist us, Upsert x])"
proof (cases "str_ID x = i")
  case True
  have "owned_by u (Doc (enc_Stream x))"
    using True assms(1-3) by (intro owned_enc) (auto simp: row_ok_def Get_row owned_by_def)
  then have "Q = owned_by u \<Longrightarrow> ?thesis"
    using True by (auto simp: row_CheckUsers keeps_checks keeps_Upsert)
  moreover have "Q = no_row \<Longrightarrow> ?thesis"
    using True by (auto simp: keeps_def stays_row_def row_ok_def no_row_def CheckExists_eq)
  ultimately show ?thesis using assms(4) by metis
qed (auto simp: row_CheckUsers keeps_checks keeps_Upsert)

lemma keeps_put:
  assumes "row_ok (owned_by u) bkt i s0" and "fst (Get zero_Stream j s0) = Ret y" and "Q = owned_by u \<or> Q = no_row"
  shows "keeps (stays_row Q bkt i) (store_Wrap [CheckExists j, users_CheckUsersExist us, Upsert (owned (g_Owner (str_Group y)) j x)])"
  using keeps_replace [of u i s0 "owned (g_Owner (str_Group y)) j x" y Q us] assms by (simp only: owned_simps)

lemma keeps_create:
  assumes "str_ID x \<noteq> i" and "\<forall>m \<in> set ms. keeps (same_bkt bkt) m"
  shows "keeps (stays_row P bkt i) (store_Wrap (CheckNotExist (str_ID x) # users_CheckUsersExist us # Upsert x # ms))"
  using assms by (intro row.keeps_Wrap) (auto simp: row_CheckUsers keeps_checks keeps_Upsert row_same)

end

section \<open>Every schedule\<close>

lemma keeps_inv_tx_then:
  "(\<And>sv. I sv \<Longrightarrow> J sv \<Longrightarrow> J (snd (h sv))) \<Longrightarrow> (\<And>a. keeps_inv I J (k a)) \<Longrightarrow> keeps_inv I J (tx_then h k)"
  by (simp add: tx_then_def keeps_inv_Tx case_prod_beta)

text \<open>A transaction that reads, with what the invariant says of its result.\<close>

lemma keeps_inv_read: "(\<And>sv. I sv \<Longrightarrow> keeps_inv I J (k (sv_View m sv))) \<Longrightarrow> keeps_inv I J (tx_View m k)"
  by (simp add: tx_View_def keeps_inv_Tx)

lemma interleave_keeps:
  "interleave is (ps, sv) = (ps', sv') \<Longrightarrow> I sv \<Longrightarrow> \<forall>p \<in> set ps. keeps_inv I I p \<and> keeps_inv I J p \<Longrightarrow>
     I sv' \<and> (J sv \<longrightarrow> J sv') \<and> (\<forall>p \<in> set ps'. keeps_inv I I p \<and> keeps_inv I J p)"
proof (induction "is" arbitrary: ps sv)
  case (Cons i "is")
  obtain ps1 sv1 where st: "proc_step i (ps, sv) = (ps1, sv1)" by force
  then show ?case
    using Cons.IH [of ps1 sv1] Cons.prems proc_step_inv [OF st, of I I] proc_step_inv [OF st, of I J] by simp
qed simp

abbreviation sv_row :: "(val \<Rightarrow> bool) \<Rightarrow> bytes \<Rightarrow> string \<Rightarrow> server \<Rightarrow> bool" where
  "sv_row P b i sv \<equiv> row_ok P b i (sv_db sv)"

lemma row_Update: "keeps (stays_row P b i) m \<Longrightarrow> sv_row P b i sv \<Longrightarrow> sv_row P b i (snd (sv_Update m sv))"
  using row.keeps_Update [of P b i m] by (simp add: keeps_def stays_row_def sv_Update_def case_prod_beta)

lemma row_tx_Update:
  "keeps (stays_row Q b i) m \<Longrightarrow> (\<And>r sv. sv_db (snd (k r) sv) = sv_db sv) \<Longrightarrow> keeps_inv I (sv_row Q b i) (tx_Update m k)"
  using row_Update [of Q b i m] by (intro keeps_inv_tx_Update) simp

text \<open>Surveys read the river, and the connections that they end change nothing else.\<close>

definition env_keeps :: "bytes \<Rightarrow> world \<Rightarrow> bool" where
  "env_keeps b w \<longleftrightarrow> (\<forall>bks s. same_bkt b s (w_env w bks s))"

lemma NestedBucket_state: "snd (store_GetNestedBucket p bks s) = s"
  by (induction p bks s rule: store_GetNestedBucket.induct) (auto split: option.splits entry.splits)

lemma row_NewSurvey: "keeps (stays_row P b i) (river_NewSurvey net bks)"
proof -
  have "keeps (stays_row P b i) (store_GetNestedBucket [RiverBucket] bks)"
    by (simp add: keeps_def NestedBucket_state row.refl)
  then show ?thesis
    by (auto simp: river_NewSurvey_def errors_Wrap_def sock_def split: err.splits option.splits)
qed

lemma row_survey: "env_keeps b w \<Longrightarrow> sv_row P b i sv \<Longrightarrow> sv_row P b i (snd (hup_survey w bks surv sv))"
  by (auto simp: env_keeps_def hup_survey_def same_bkt_def row_ok_def has_tbl_def table_def simp del: bkt_at.simps)

lemma keeps_stream_hangup:
  "env_keeps b w \<Longrightarrow> (\<And>x. keeps_inv I (sv_row Q b i) (k x)) \<Longrightarrow> keeps_inv I (sv_row Q b i) (proc_stream_hangup w j us k)"
  by (induction us) (auto intro!: keeps_inv_tx_then row_Update row_NewSurvey row_survey split: go.splits)

lemma keeps_convo_hangup:
  "env_keeps b w \<Longrightarrow> (\<And>x. keeps_inv I (sv_row Q b i) (k x)) \<Longrightarrow> keeps_inv I (sv_row Q b i) (proc_convo_hangup w j us k)"
  by (induction us) (auto simp: proc_hangup_user_def Let_def intro!: keeps_inv_tx_then keeps_inv_tx_View row_survey split: go.splits hup.splits)

section \<open>Streams\<close>

lemma group_row_laws:
  assumes "has_tbl b s"
  shows "fst (db_catch (store_Unmarshal dec_Stream b zero_Stream i) (\<lambda>e. if store_IsMissing e then db_fail x else db_fail e) s) = Ret y \<longleftrightarrow>
      (\<exists>v. table s b i = Some v \<and> json_Unmarshal dec_Stream v zero_Stream = Ret y)"
    and "store_Marshal enc_Stream b z k s = (r, s') \<Longrightarrow> s' = s \<or> s' = db_put b k (Doc (enc_Stream z)) s"
proof -
  show "fst (db_catch (store_Unmarshal dec_Stream b zero_Stream i) (\<lambda>e. if store_IsMissing e then db_fail x else db_fail e) s) = Ret y \<longleftrightarrow>
      (\<exists>v. table s b i = Some v \<and> json_Unmarshal dec_Stream v zero_Stream = Ret y)"
    using assms by (auto simp: db_catch_def store_Unmarshal_eq db_fail_def split: option.splits go.splits)
  show "s' = s \<or> s' = db_put b k (Doc (enc_Stream z)) s" if "store_Marshal enc_Stream b z k s = (r, s')"
    using that assms store_Put_invalid [OF assms, of k "Doc (enc_Stream z)"]
    by (cases "valid_key k") (auto simp: store_Marshal_def)
qed

interpretation stream_rows: group_rows StreamBucket stream_errMissing stream_errExists
  stream_CheckNotExist stream_CheckExists stream_Get stream_GetAll stream_Upsert stream_Delete
  by unfold_locales (simp_all add: stream_Get_def stream_Upsert_def group_row_laws)

interpretation convo_rows: group_rows ConvoBucket convo_errMissing convo_errExists
  convo_CheckNotExist convo_CheckExists convo_Get convo_GetAll convo_Upsert convo_Delete
  by unfold_locales (simp_all add: convo_Get_def convo_Upsert_def group_row_laws)

text \<open>Both promises, for a process.\<close>

definition row_safe :: "string \<Rightarrow> bytes \<Rightarrow> string \<Rightarrow> process \<Rightarrow> bool" where
  "row_safe u b i p \<longleftrightarrow>
     keeps_inv (sv_row (owned_by u) b i) (sv_row (owned_by u) b i) p \<and> keeps_inv (sv_row (owned_by u) b i) (sv_row no_row b i) p"

lemma row_safeI:
  "(\<And>Q. Q = owned_by u \<or> Q = no_row \<Longrightarrow> keeps_inv (sv_row (owned_by u) b i) (sv_row Q b i) p) \<Longrightarrow> row_safe u b i p"
  by (simp add: row_safe_def)

lemma notify_update_db [simp]: "sv_db (notify_update a b str us sv) = sv_db sv"
  unfolding notify_update_def by (induction us arbitrary: sv) (auto simp: notif_Encode_def)

declare row.keeps_Wrap [rule del] same.keeps_Wrap [rule del] tbl.keeps_Wrap [rule del] wf.keeps_Wrap [rule del]

lemma safe_Stream_Create: "uuid_String n \<noteq> i \<Longrightarrow> row_safe u StreamBucket i (proc_Stream_Create n r)"
  using stream_rows.keeps_create [of "owned v (uuid_String n) x" i "[]" for v x]
  by (auto intro!: row_safeI keeps_inv_tx_View row_tx_Update keeps_Done
      simp: proc_Stream_Create_def Let_def split: option.splits go.splits)

lemma safe_Stream_Put: "row_safe u StreamBucket i (proc_Stream_Put r)"
proof (rule row_safeI)
  fix Q assume Q: "Q = owned_by u \<or> Q = no_row"
  show "keeps_inv (sv_row (owned_by u) StreamBucket i) (sv_row Q StreamBucket i) (proc_Stream_Put r)"
    by (auto simp: proc_Stream_Put_def Let_def sv_View_eq intro!: keeps_Done keeps_inv_read row_tx_Update split: option.splits go.splits)
      (rule stream_rows.keeps_put [OF _ _ Q]; assumption)+
qed

lemma safe_Stream_Delete: "env_keeps StreamBucket w \<Longrightarrow> row_safe u StreamBucket i (proc_Stream_Delete w r)"
  by (auto intro!: row_safeI keeps_Done keeps_inv_tx_View keeps_stream_hangup row_tx_Update stream_rows.keeps_Delete
      simp: proc_Stream_Delete_def Let_def split: go.splits)

section \<open>Convos\<close>

lemma convo_buckets: "ConvoBucket \<noteq> MessageBucket" "ConvoBucket \<noteq> RiverBucket"
  by (simp_all add: ConvoBucket_def MessageBucket_def RiverBucket_def)

lemma same_messages: "keeps (same_bkt ConvoBucket) (convo_InitMessages i)" "keeps (same_bkt ConvoBucket) (convo_DeleteMessages i)"
  using convo_buckets by (auto simp: convo_InitMessages_def convo_DeleteMessages_def)

lemma safe_Convo_Create: "uuid_String n \<noteq> i \<Longrightarrow> row_safe u ConvoBucket i (proc_Convo_Create n r)"
  using convo_rows.keeps_create [of "owned v (uuid_String n) x" i "[convo_InitMessages (uuid_String n)]" for v x]
  by (auto intro!: row_safeI keeps_inv_tx_View row_tx_Update keeps_Done
      simp: proc_Convo_Create_def Let_def same_messages split: option.splits go.splits)

lemma safe_Convo_Put:
  assumes "env_keeps ConvoBucket w"
  shows "row_safe u ConvoBucket i (proc_Convo_Put w r)"
proof (rule row_safeI)
  fix Q assume Q: "Q = owned_by u \<or> Q = no_row"
  show "keeps_inv (sv_row (owned_by u) ConvoBucket i) (sv_row Q ConvoBucket i) (proc_Convo_Put w r)"
    using assms
    by (auto simp: proc_Convo_Put_def Let_def sv_View_eq intro!: keeps_Done keeps_inv_read keeps_convo_hangup row_tx_Update
        split: option.splits go.splits hup.splits)
      (rule convo_rows.keeps_put [OF _ _ Q]; assumption)+
qed

lemma same_DeleteCheckins: "keeps (same_bkt ConvoBucket) (convo_DeleteCheckins i)"
proof -
  have "bkt_at [ConvoBucket] (snd (on_bkt [RiverBucket, ScribeBucket] f s)) = bkt_at [ConvoBucket] s" for f s
    using convo_buckets by (auto simp: on_bkt_def split: option.splits sum.splits entry.splits)
  moreover have "fst (store_GetNestedBucket [RiverBucket] [ScribeBucket] s) = Ret p \<Longrightarrow> p = [RiverBucket, ScribeBucket]" for s p
    by (auto split: option.splits)
  ultimately show ?thesis
    unfolding keeps_def same_bkt_def convo_DeleteCheckins_def db_bind_def
    using NestedBucket_state [of "[RiverBucket]" "[ScribeBucket]"]
    by (auto simp del: bkt_at.simps store_GetNestedBucket.simps split: prod.splits go.splits) (metis fst_conv snd_conv)+
qed

lemma safe_Convo_Delete:
  assumes "env_keeps ConvoBucket w"
  shows "row_safe u ConvoBucket i (proc_Convo_Delete w r)"
proof -
  have "keeps (stays_row Q ConvoBucket i) (store_Wrap [convo_Delete j, convo_DeleteMessages j])" for Q j
    by (intro row.keeps_Wrap) (auto simp: convo_rows.keeps_Delete row_same same_messages)
  moreover have "keeps (stays_row Q ConvoBucket i) (convo_DeleteCheckins j)" for Q j
    by (rule row_same [OF same_DeleteCheckins])
  ultimately show ?thesis
    using assms
    by (auto intro!: row_safeI keeps_Done keeps_inv_tx_View keeps_convo_hangup keeps_inv_tx_then row_Update row_tx_Update
        simp: proc_Convo_Delete_def Let_def split: go.splits hup.splits)
qed

section \<open>The properties\<close>

lemma rows_in_every_schedule:
  assumes "row_ok (owned_by u) b i (sv_db sv)" and "\<forall>p \<in> set ps. row_safe u b i p"
    and "interleave is1 (ps, sv) = (ps1, sv1)" and "interleave is2 (ps1, sv1) = (ps2, sv2)"
  shows "row_ok (owned_by u) b i (sv_db sv1)" "row_ok no_row b i (sv_db sv1) \<Longrightarrow> row_ok no_row b i (sv_db sv2)"
proof -
  let ?I = "sv_row (owned_by u) b i" and ?J = "sv_row no_row b i"
  have 1: "?I sv1 \<and> (\<forall>p \<in> set ps1. keeps_inv ?I ?I p \<and> keeps_inv ?I ?J p)"
    using interleave_keeps [OF assms(3), of ?I ?J] assms(1,2) by (simp add: row_safe_def)
  then show "row_ok (owned_by u) b i (sv_db sv1)" by simp
  show "row_ok no_row b i (sv_db sv2)" if "row_ok no_row b i (sv_db sv1)"
    using interleave_keeps [OF assms(4), of ?I ?J] 1 that by simp
qed

context group_rows
begin

lemma owner_kept:
  assumes "has_tbl bkt (sv_db sv)" and "fst (Get zero_Stream i (sv_db sv)) = Ret x"
    and "\<forall>p \<in> set ps. row_safe (g_Owner (str_Group x)) bkt i p"
    and "interleave is1 (ps, sv) = (ps1, sv1)" and "interleave is2 (ps1, sv1) = (ps2, sv2)"
  shows "(\<forall>y. fst (Get zero_Stream i (sv_db sv1)) = Ret y \<longrightarrow> g_Owner (str_Group y) = g_Owner (str_Group x)) \<and>
    (table (sv_db sv1) bkt i = None \<longrightarrow> table (sv_db sv2) bkt i = None)"
proof -
  have "row_ok (owned_by (g_Owner (str_Group x))) bkt i (sv_db sv)"
    using assms(1,2) by (auto simp: row_ok_def Get_row owned_by_def)
  from rows_in_every_schedule [OF this assms(3-5)] show ?thesis
    by (auto simp: row_ok_def Get_row owned_by_def no_row_def)
qed

end

text \<open>
  C5 (stream_owner_kept).  However requests that create, update and delete streams interleave:
  a stream that is still there has the owner that it had, and once it is gone, no \<^verbatim>\<open>PUT\<close> that read
  it before brings it back.  The connections that a \<^verbatim>\<open>DELETE\<close> hangs up leave the streams alone, and
  no new stream gets the ID of the old one.
\<close>

theorem stream_owner_kept:
  assumes "has_tbl StreamBucket (sv_db sv)" and "fst (stream_Get zero_Stream i (sv_db sv)) = Ret x"
    and "\<forall>bks s. bkt_at [StreamBucket] (w_env w bks s) = bkt_at [StreamBucket] s"
    and "\<forall>p \<in> set ps. \<exists>n r. p = proc_Stream_Put r \<or> p = proc_Stream_Delete w r \<or> p = proc_Stream_Create n r \<and> uuid_String n \<noteq> i"
    and "interleave is1 (ps, sv) = (ps1, sv1)" and "interleave is2 (ps1, sv1) = (ps2, sv2)"
  shows "(\<forall>y. fst (stream_Get zero_Stream i (sv_db sv1)) = Ret y \<longrightarrow> g_Owner (str_Group y) = g_Owner (str_Group x)) \<and>
    (table (sv_db sv1) StreamBucket i = None \<longrightarrow> table (sv_db sv2) StreamBucket i = None)"
proof -
  have "env_keeps StreamBucket w" using assms(3) by (simp add: env_keeps_def same_bkt_def del: bkt_at.simps)
  then have "\<forall>p \<in> set ps. row_safe (g_Owner (str_Group x)) StreamBucket i p"
    using assms(4) by (auto dest!: bspec simp: safe_Stream_Create safe_Stream_Put safe_Stream_Delete)
  then show ?thesis by (rule stream_rows.owner_kept [OF assms(1,2) _ assms(5,6)])
qed

text \<open>
  C6 (convo_owner_kept).  The same for convos, whose \<^verbatim>\<open>PUT\<close> hangs up the users that it removes
  before it writes.
\<close>

theorem convo_owner_kept:
  assumes "has_tbl ConvoBucket (sv_db sv)" and "fst (convo_Get zero_Stream i (sv_db sv)) = Ret x"
    and "\<forall>bks s. bkt_at [ConvoBucket] (w_env w bks s) = bkt_at [ConvoBucket] s"
    and "\<forall>p \<in> set ps. \<exists>n r. p = proc_Convo_Put w r \<or> p = proc_Convo_Delete w r \<or> p = proc_Convo_Create n r \<and> uuid_String n \<noteq> i"
    and "interleave is1 (ps, sv) = (ps1, sv1)" and "interleave is2 (ps1, sv1) = (ps2, sv2)"
  shows "(\<forall>y. fst (convo_Get zero_Stream i (sv_db sv1)) = Ret y \<longrightarrow> g_Owner (str_Group y) = g_Owner (str_Group x)) \<and>
    (table (sv_db sv1) ConvoBucket i = None \<longrightarrow> table (sv_db sv2) ConvoBucket i = None)"
proof -
  have "env_keeps ConvoBucket w" using assms(3) by (simp add: env_keeps_def same_bkt_def del: bkt_at.simps)
  then have "\<forall>p \<in> set ps. row_safe (g_Owner (str_Group x)) ConvoBucket i p"
    using assms(4) by (auto dest!: bspec simp: safe_Convo_Create safe_Convo_Put safe_Convo_Delete)
  then show ?thesis by (rule convo_rows.owner_kept [OF assms(1,2) _ assms(5,6)])
qed

section \<open>Schedules on concrete input\<close>

text \<open>A process that gets all its turns in a row does what it does alone.\<close>

lemma interleave_alone:
  "run_alone p sv = (r, sv') \<Longrightarrow> i < length ps \<Longrightarrow> ps ! i = p \<Longrightarrow> \<exists>n. interleave (replicate n i) (ps, sv) = (ps[i := Done r], sv')"
proof (induction p arbitrary: ps sv)
  case (Done r1)
  then have "ps[i := Done r] = ps" by (metis list_update_id run_alone.simps(1) fst_conv)
  then show ?case using Done by (intro exI [of _ 0]) simp
next
  case (Tx f)
  obtain p sv1 where p: "f sv = (p, sv1)" by force
  have "p \<in> Basic_BNFs.fsts (f sv)" by (simp add: p prod_set_simps)
  from Tx.IH [OF rangeI this, of sv1 "ps[i := p]"] Tx.prems obtain n
    where "interleave (replicate n i) (ps[i := p], sv1) = (ps[i := Done r], sv')" by (auto simp: p)
  then have "interleave (replicate (Suc n) i) (ps, sv) = (ps[i := Done r], sv')"
    using Tx.prems p by (simp add: proc_step_def)
  then show ?case by blast
qed

lemma interleave_append: "interleave (is @ js) c = interleave js (interleave is c)"
  by (simp add: interleave_def)

text \<open>The second process runs between the second and the third step of the first.\<close>

lemma interrupt:
  assumes "interleave [0, 0] ([q, d], sv) = ([p, d], sv)" and "run_alone d sv = (r, sv1)"
  obtains n where "interleave ([0, 0] @ replicate n 1) ([q, d], sv) = ([p, Done r], sv1)"
proof -
  obtain n where "interleave (replicate n 1) ([p, d], sv) = ([p, d][1 := Done r], sv1)"
    using interleave_alone [OF assms(2), of 1 "[p, d]"] by auto
  then have "interleave ([0, 0] @ replicate n 1) ([q, d], sv) = ([p, Done r], sv1)"
    using assms(1) by (simp only: interleave_append) simp
  then show ?thesis by (rule that)
qed

definition demo_rename :: "string \<Rightarrow> request" where
  "demo_rename key = demo_post\<lparr>rq_params := [(key, uuid_String Rest_Stream.demo_id)]\<rparr>"

definition demo_streams :: server where
  "demo_streams = \<lparr>sv_db = db_put StreamBucket (uuid_String Rest_Stream.demo_id)
     (Doc (enc_Stream (owned ''alice'' (uuid_String Rest_Stream.demo_id) demo_group))) demo_social, sv_out = []\<rparr>"

lemma demo_rename_facts:
  "mw_CtxGetUserID (demo_rename key) = Ret ''alice''" "ByName (demo_rename key) key = uuid_String Rest_Stream.demo_id"
  "uuid_FromString (uuid_String Rest_Stream.demo_id) = Ret Rest_Stream.demo_id"
  "decode_body dec_Stream zero_Stream (demo_rename key) = Some demo_group"
  using demo_social_facts(4,5) uuid_roundtrip [OF demo_social_facts(7)]
  by (simp_all add: demo_rename_def ByName_def mw_CtxGetUserID_def decode_body_def)

lemma demo_streams_facts:
  "streams_in StreamBucket [uuid_String Rest_Stream.demo_id \<mapsto> owned ''alice'' (uuid_String Rest_Stream.demo_id) demo_group] (sv_db demo_streams)"
  "bkt_at [RiverBucket] (sv_db demo_streams) = Some empty_bucket"
proof -
  have ne: "StreamBucket \<noteq> RiverBucket" "UserBucket \<noteq> RiverBucket"
    by (simp_all add: StreamBucket_def RiverBucket_def UserBucket_def)
  show "streams_in StreamBucket [uuid_String Rest_Stream.demo_id \<mapsto> owned ''alice'' (uuid_String Rest_Stream.demo_id) demo_group] (sv_db demo_streams)"
    using streams.streams_in_put [OF demo_social_facts(1) demo_social_facts(6), of "uuid_String Rest_Stream.demo_id"]
      uuid_String_key [OF demo_social_facts(7)] by (simp add: demo_streams_def)
  have "bkt_at [RiverBucket] demo_social = Some empty_bucket"
    using ne by (auto simp: demo_social_def bkt_at_db_put simp del: bkt_at.simps) (simp_all add: ent_db_of)
  then show "bkt_at [RiverBucket] (sv_db demo_streams) = Some empty_bucket"
    using ne bkt_at_db_put [OF streams.in_has_tbl [OF demo_social_facts(1)]] by (auto simp: demo_streams_def simp del: bkt_at.simps)
qed

lemma demo_stream_Delete:
  "\<exists>sv'. rest_Stream_Delete w (demo_rename ''stream_id'') demo_streams = (OkEmpty, sv') \<and>
     table (sv_db sv') StreamBucket (uuid_String Rest_Stream.demo_id) = None"
proof -
  let ?i = "uuid_String Rest_Stream.demo_id"
  note [simp del] = bkt_at.simps
  have has: "has_tbl StreamBucket (sv_db demo_streams)" using demo_streams_facts(1) by (rule streams.in_has_tbl)
  have "bkt_at [RiverBucket, HangupBucket, ?i, ''bob''] (sv_db demo_streams) = None"
    using bkt_at_append [of "[RiverBucket]" "[HangupBucket, ?i, ''bob'']"]
    by (simp add: demo_streams_facts(2)) (simp add: bkt_at.simps)
  then have "stream_hangup w ?i [''bob''] demo_streams = (Ret (), demo_streams)"
    using stream_hangup_stops [of demo_streams ?i "''bob''" w "[]"] by (simp add: demo_streams_facts(2))
  moreover have "smap_keys (g_Readers (str_Group demo_group)) = [''bob'']" by (simp add: demo_group_def smap_keys_def)
  ultimately show ?thesis
    using has streams.Get_eq [OF demo_streams_facts(1), of ?i] streams.Delete_eq [OF has, of ?i]
    by (simp add: rest_Stream_Delete_def demo_rename_facts sv_View_eq sv_Update_Ret Let_def)
qed

lemma Put_reads: "\<exists>p. interleave [0, 0] ([proc_Stream_Put (demo_rename ''stream_id''), d], sv) = ([p, d], sv)"
  "\<exists>p. interleave [0, 0] ([proc_Convo_Put w (demo_rename ''convo_id''), d], sv) = ([p, d], sv)"
  by (auto simp: proc_Stream_Put_def proc_Convo_Put_def demo_rename_facts Let_def proc_step_def tx_View_def split: go.splits)

theorem stream_owner_kept_witness:
  "\<exists>n ps' sv'. interleave ([0, 0] @ replicate n 1 @ [0])
      ([proc_Stream_Put (demo_rename ''stream_id''), proc_Stream_Delete demo_world (demo_rename ''stream_id'')], demo_streams) = (ps', sv') \<and>
    table (sv_db demo_streams) StreamBucket (uuid_String Rest_Stream.demo_id) \<noteq> None \<and>
    table (sv_db sv') StreamBucket (uuid_String Rest_Stream.demo_id) = None"
proof -
  let ?i = "uuid_String Rest_Stream.demo_id" and ?d = "proc_Stream_Delete demo_world (demo_rename ''stream_id'')"
  let ?ps = "[proc_Stream_Put (demo_rename ''stream_id''), ?d]"
  have has: "has_tbl StreamBucket (sv_db demo_streams)" using demo_streams_facts(1) by (rule streams.in_has_tbl)
  obtain sv1 where del: "run_alone ?d demo_streams = (OkEmpty, sv1)" and gone: "table (sv_db sv1) StreamBucket ?i = None"
    using demo_stream_Delete [of demo_world] by (auto simp: stream_processes_alone)
  obtain p where p: "interleave [0, 0] (?ps, demo_streams) = ([p, ?d], demo_streams)" using Put_reads(1) by blast
  obtain n where run1: "interleave ([0, 0] @ replicate n 1) (?ps, demo_streams) = ([p, Done OkEmpty], sv1)" by (rule interrupt [OF p del])
  obtain ps2 sv2 where run2: "interleave [0] ([p, Done OkEmpty], sv1) = (ps2, sv2)" by force
  have "table (sv_db sv2) StreamBucket ?i = None"
    using stream_owner_kept [OF has _ _ _ run1 run2, of ?i "owned ''alice'' ?i demo_group" demo_world] gone
      streams.Get_eq [OF demo_streams_facts(1), of ?i] by (auto simp: demo_world_def simp del: bkt_at.simps)
  moreover have "interleave ([0, 0] @ replicate n 1 @ [0]) (?ps, demo_streams) = (ps2, sv2)"
    using run1 run2 by (simp only: interleave_append append_assoc [symmetric])
  moreover have "table (sv_db demo_streams) StreamBucket ?i \<noteq> None"
    using stream_codec.holds_table [OF demo_streams_facts(1)] by simp
  ultimately show ?thesis by blast
qed

lemma demo_convo_gone:
  "\<exists>sv'. rest_Convo_Delete w (demo_rename ''convo_id'') \<lparr>sv_db = demo_convo_db, sv_out = []\<rparr> = (OkEmpty, sv') \<and>
     table (sv_db sv') ConvoBucket (uuid_String Rest_Stream.demo_id) = None"
proof -
  obtain sv' where run: "rest_Convo_Delete w (demo_rename ''convo_id'') \<lparr>sv_db = demo_convo_db, sv_out = []\<rparr> = (OkEmpty, sv')"
    using demo_convo_Delete [of w] by (auto simp: demo_rename_def)
  then obtain x where "convo_remove w (uuid_String Rest_Stream.demo_id) x \<lparr>sv_db = demo_convo_db, sv_out = []\<rparr> = (OkEmpty, sv')"
    by (auto simp: rest_Convo_Delete_def demo_rename_facts Let_def convo_get_status_def split: go.splits if_splits)
  then obtain sv2 sv3 where "sv_Update (store_Wrap [convo_Delete (uuid_String Rest_Stream.demo_id),
        convo_DeleteMessages (uuid_String Rest_Stream.demo_id)]) sv2 = (Ret (), sv3)" and same: "sv_db sv' = sv_db sv3"
    by (auto simp: convo_remove_def simp del: store_Wrap.simps split: prod.splits hup.splits go.splits if_splits)
  from delete_both(1) [OF sv_Update_RetD [OF this(1)]] same run show ?thesis by auto
qed

theorem convo_owner_kept_witness:
  "\<exists>n ps' sv'. interleave ([0, 0] @ replicate n 1 @ [0])
      ([proc_Convo_Put demo_world (demo_rename ''convo_id''), proc_Convo_Delete demo_world (demo_rename ''convo_id'')],
       \<lparr>sv_db = demo_convo_db, sv_out = []\<rparr>) = (ps', sv') \<and>
    table demo_convo_db ConvoBucket (uuid_String Rest_Stream.demo_id) \<noteq> None \<and>
    table (sv_db sv') ConvoBucket (uuid_String Rest_Stream.demo_id) = None"
proof -
  let ?i = "uuid_String Rest_Stream.demo_id" and ?d = "proc_Convo_Delete demo_world (demo_rename ''convo_id'')"
  let ?ps = "[proc_Convo_Put demo_world (demo_rename ''convo_id''), ?d]" and ?sv = "\<lparr>sv_db = demo_convo_db, sv_out = []\<rparr>"
  have has: "has_tbl ConvoBucket (sv_db ?sv)" using demo_convo_facts(3) convos.in_has_tbl by simp
  obtain sv1 where del: "run_alone ?d ?sv = (OkEmpty, sv1)" and gone: "table (sv_db sv1) ConvoBucket ?i = None"
    using demo_convo_gone [of demo_world] by (auto simp: convo_processes_alone)
  obtain p where p: "interleave [0, 0] (?ps, ?sv) = ([p, ?d], ?sv)" using Put_reads(2) by blast
  obtain n where run1: "interleave ([0, 0] @ replicate n 1) (?ps, ?sv) = ([p, Done OkEmpty], sv1)" by (rule interrupt [OF p del])
  obtain ps2 sv2 where run2: "interleave [0] ([p, Done OkEmpty], sv1) = (ps2, sv2)" by force
  have "table (sv_db sv2) ConvoBucket ?i = None"
    using convo_owner_kept [OF has _ _ _ run1 run2, of ?i demo_convo demo_world] gone
      convos.Get_eq [OF demo_convo_facts(3), of ?i] by (auto simp: demo_world_def simp del: bkt_at.simps)
  moreover have "interleave ([0, 0] @ replicate n 1 @ [0]) (?ps, ?sv) = (ps2, sv2)"
    using run1 run2 by (simp only: interleave_append append_assoc [symmetric])
  moreover have "table demo_convo_db ConvoBucket ?i \<noteq> None"
    using stream_codec.holds_table [OF demo_convo_facts(3)] by simp
  ultimately show ?thesis by blast
qed

section \<open>Deleting a convo\<close>

text \<open>The last transaction of \<^verbatim>\<open>Delete\<close>, and what follows the hangups.\<close>

definition delete_last :: "string \<Rightarrow> Convo \<Rightarrow> process" where
  "delete_last i x = tx_Update (store_Wrap [convo_Delete i, convo_DeleteMessages i]) (\<lambda>z. case z of
      Fail _ \<Rightarrow> (HttpError StatusInternalServerError, \<lambda>sv. sv)
    | Panic \<Rightarrow> (Panicked, \<lambda>sv. sv)
    | Ret _ \<Rightarrow> (OkEmpty, notify_all ''convo-deleted'' (JStr i) (smap_keys (g_Readers (str_Group x)))))"

definition after_hangups :: "string \<Rightarrow> Convo \<Rightarrow> hup \<Rightarrow> process" where
  "after_hangups i x h = (case h of
      HupFailed \<Rightarrow> Done (HttpError StatusInternalServerError)
    | HupPanic \<Rightarrow> Done Panicked
    | _ \<Rightarrow> tx_then (sv_Update (convo_DeleteCheckins i)) (\<lambda>y.
        if y = Panic then Done Panicked
        else if (case y of Fail e \<Rightarrow> \<not> store_IsMissingBucket e | _ \<Rightarrow> False) then Done Exited
        else delete_last i x))"

text \<open>A process that hangs up users and then goes on as \<open>k\<close> says, or that has come to this already.\<close>

inductive hanging :: "(hup \<Rightarrow> process) \<Rightarrow> process \<Rightarrow> bool" for k where
  hung_up: "hanging k (k h)"
| hanging_step: "(\<And>sv. hanging k (fst (f sv))) \<Longrightarrow> hanging k (Tx f)"

lemma hanging_View: "(\<And>x. hanging k (g x)) \<Longrightarrow> hanging k (tx_View m g)"
  unfolding tx_View_def by (rule hanging_step) simp

lemma hanging_then: "(\<And>x. hanging k (g x)) \<Longrightarrow> hanging k (tx_then m g)"
  unfolding tx_then_def by (rule hanging_step) (simp split: prod.split)

lemma hanging_user: "(\<And>h. hanging k (g h)) \<Longrightarrow> hanging k (proc_hangup_user w i u g)"
  unfolding proc_hangup_user_def Let_def
  by (intro hanging_View) (auto split: go.split intro!: hanging_View hanging_then)

lemma hanging_all: "hanging k (proc_convo_hangup w i us k)"
proof (induction us)
  case (Cons u us)
  then show ?case by (auto split: hup.split intro!: hanging_user intro: hung_up)
qed (simp add: hung_up)

lemma hanging_not_ok: "hanging (after_hangups i x) p \<Longrightarrow> p \<noteq> Done OkEmpty"
  by (erule hanging.cases) (auto simp: after_hangups_def tx_then_def split: hup.splits)

text \<open>
  Where a \<^verbatim>\<open>DELETE\<close>, the \<open>p\<close>-th process, is after a schedule: at its beginning; among the
  hangups, having read the convo; before its last transaction, having deleted the check-ins; or
  at its end.
\<close>

definition has_read :: "process list \<times> server \<Rightarrow> request \<Rightarrow> string \<Rightarrow> nat \<Rightarrow> nat list \<Rightarrow> nat list \<Rightarrow> Convo \<Rightarrow> bool" where
  "has_read c r i p is is2 x \<longleftrightarrow> (\<exists>is1. is = is1 @ p # is2 \<and>
     sv_View (convo_Get zero_Stream i) (snd (interleave is1 c)) = Ret x \<and> mw_CtxGetUserID r = Ret (g_Owner (str_Group x)))"

inductive deleting :: "process list \<times> server \<Rightarrow> world \<Rightarrow> request \<Rightarrow> string \<Rightarrow> nat \<Rightarrow> nat list \<Rightarrow> process \<Rightarrow> bool"
  for c w r i p where
  at_start: "deleting c w r i p is (proc_Convo_Delete w r)"
| at_hangups: "has_read c r i p is is2 x \<Longrightarrow> hanging (after_hangups i x) q \<Longrightarrow> deleting c w r i p is q"
| at_last: "has_read c r i p (is' @ is3) (is2 @ p # is3) x \<Longrightarrow> p \<notin> set is3 \<Longrightarrow>
    bkt_at [RiverBucket, ScribeBucket, i] (sv_db (snd (interleave is' c))) = None \<Longrightarrow>
    deleting c w r i p (is' @ is3) (delete_last i x)"
| at_end: "deleting c w r i p is (Done rsp)"

lemma Delete_unfold:
  "proc_Convo_Delete w r =
     (case mw_CtxGetUserID r of
        Ret userID \<Rightarrow>
          (let i = ByName r ''convo_id''
           in case uuid_FromString i of
                Fail _ \<Rightarrow> Done (HttpError StatusBadRequest)
              | Panic \<Rightarrow> Done Panicked
              | Ret _ \<Rightarrow> tx_View (convo_Get zero_Stream i) (\<lambda>x. case x of
                  Fail e \<Rightarrow> Done (convo_get_status e)
                | Panic \<Rightarrow> Done Panicked
                | Ret existing \<Rightarrow>
                    if g_Owner (str_Group existing) \<noteq> userID then Done (HttpError StatusUnauthorized)
                    else proc_convo_hangup w i (smap_keys (g_Readers (str_Group existing))) (after_hangups i existing)))
      | _ \<Rightarrow> Done Panicked)"
  unfolding proc_Convo_Delete_def after_hangups_def delete_last_def by (rule refl)

lemma Delete_first:
  assumes "proc_Convo_Delete w r = Tx f" and "f sv = (q, sv')" and "i = ByName r ''convo_id''"
  shows "(\<exists>rsp. q = Done rsp \<and> rsp \<noteq> OkEmpty) \<or>
    (\<exists>x. sv_View (convo_Get zero_Stream i) sv = Ret x \<and> mw_CtxGetUserID r = Ret (g_Owner (str_Group x)) \<and>
      hanging (after_hangups i x) q)"
proof -
  obtain u where u: "mw_CtxGetUserID r = Ret u" using assms(1) by (auto simp: Delete_unfold split: go.splits)
  obtain k where k: "uuid_FromString i = Ret k"
    using assms(1) u by (auto simp: Delete_unfold Let_def assms(3) split: go.splits)
  show ?thesis
    using assms(1,2) u k hanging_all
    by (cases "sv_View (convo_Get zero_Stream i) sv")
      (auto simp: Delete_unfold Let_def assms(3) [symmetric] tx_View_def convo_get_status_def split: if_splits)
qed

lemma Delete_checkins:
  assumes "hanging (after_hangups i x) (Tx f)" and "f sv = (q, sv')"
  shows "hanging (after_hangups i x) q \<or> (\<exists>rsp. q = Done rsp \<and> rsp \<noteq> OkEmpty) \<or>
    q = delete_last i x \<and> bkt_at [RiverBucket, ScribeBucket, i] (sv_db sv') = None"
  using assms(1)
proof (cases rule: hanging.cases)
  case (hung_up h)
  then have f: "f = (\<lambda>sv. case sv_Update (convo_DeleteCheckins i) sv of (y, sv1) \<Rightarrow>
      (if y = Panic then Done Panicked
        else if (case y of Fail e \<Rightarrow> \<not> store_IsMissingBucket e | _ \<Rightarrow> False) then Done Exited else delete_last i x, sv1))"
    by (cases h) (simp_all add: after_hangups_def tx_then_def)
  obtain y sv1 where y: "sv_Update (convo_DeleteCheckins i) sv = (y, sv1)" by force
  show ?thesis using DeleteCheckins_gone [OF y] assms(2) by (cases y) (auto simp: f y simp del: bkt_at.simps split: if_splits)
next
  case hanging_step
  then show ?thesis using assms(2) by (metis fst_conv)
qed

lemma interleave_last: "interleave (is @ [j]) c = proc_step j (interleave is c)"
  by (simp add: interleave_def)

lemma deleting_other:
  assumes "deleting c w r i p is q" and "j \<noteq> p"
  shows "deleting c w r i p (is @ [j]) q"
proof -
  have read: "has_read c r i p (is @ [j]) (is2 @ [j]) x" if "has_read c r i p is is2 x" for is2 x "is"
    using that by (auto simp: has_read_def)
  from assms(1) show ?thesis
  proof cases
    case (at_last is' is3 is2 x)
    then have "has_read c r i p (is' @ (is3 @ [j])) (is2 @ p # (is3 @ [j])) x" "p \<notin> set (is3 @ [j])"
      using read [OF at_last(3)] assms(2) by simp_all
    from deleting.at_last [OF this at_last(5)] show ?thesis by (simp add: at_last(1,2))
  qed (auto intro: deleting.intros read)
qed

lemma deleting_own:
  assumes "deleting c w r i p is (Tx f)" and "interleave is c = (ps, sv)" and "p < length ps" "ps ! p = Tx f"
    and "f sv = (q, sv')" and "i = ByName r ''convo_id''"
  shows "deleting c w r i p (is @ [p]) q"
  using assms(1)
proof cases
  case at_start
  from Delete_first [OF this [symmetric] assms(5,6)] show ?thesis
  proof (elim disjE exE conjE)
    fix x assume "sv_View (convo_Get zero_Stream i) sv = Ret x" "mw_CtxGetUserID r = Ret (g_Owner (str_Group x))"
      and h: "hanging (after_hangups i x) q"
    then have "has_read c r i p (is @ [p]) [] x" using assms(2) by (simp add: has_read_def)
    then show ?thesis using h by (rule at_hangups)
  qed (simp add: at_end)
next
  case (at_hangups is2 x)
  have now: "interleave (is @ [p]) c = (ps[p := q], sv')"
    using assms(2-5) by (simp add: interleave_last proc_step_def)
  have read: "has_read c r i p ((is @ [p]) @ []) (is2 @ p # []) x" using at_hangups(1) by (auto simp: has_read_def)
  from Delete_checkins [OF at_hangups(2) assms(5)] show ?thesis
  proof (elim disjE exE conjE)
    assume "hanging (after_hangups i x) q"
    with read show ?thesis by (auto intro: deleting.at_hangups)
  next
    assume "q = delete_last i x" "bkt_at [RiverBucket, ScribeBucket, i] (sv_db sv') = None"
    then show ?thesis using deleting.at_last [OF read, of w] by (simp add: now del: bkt_at.simps)
  qed (simp add: at_end)
next
  case (at_last is' is3 is2 x)
  then have "\<exists>rsp. q = Done rsp" using assms(5) by (auto simp: delete_last_def tx_Update_def split: prod.splits)
  then show ?thesis by (auto intro: at_end)
qed

lemma deleting_always:
  assumes "p < length ps" and "ps ! p = proc_Convo_Delete w r" and "i = ByName r ''convo_id''"
  shows "\<exists>ps' sv'. interleave is (ps, sv) = (ps', sv') \<and> p < length ps' \<and> deleting (ps, sv) w r i p is (ps' ! p)"
proof (induction "is" rule: rev_induct)
  case Nil
  then show ?case using assms(1,2) by (simp add: deleting.at_start)
next
  case (snoc j js)
  then obtain ps1 sv1 where run: "interleave js (ps, sv) = (ps1, sv1)" and p: "p < length ps1"
    and del: "deleting (ps, sv) w r i p js (ps1 ! p)" by blast
  obtain ps2 sv2 where st: "proc_step j (ps1, sv1) = (ps2, sv2)" by force
  have "p < length ps2" using p by (rule_tac proc_step_cases [OF st]) auto
  moreover have "deleting (ps, sv) w r i p (js @ [j]) (ps2 ! p)"
  proof (cases "j = p")
    case True
    show ?thesis
    proof (cases "ps1 ! p")
      case (Done rsp)
      then have "ps2 = ps1" using st True p by (simp add: proc_step_def)
      then show ?thesis using Done by (simp add: deleting.at_end)
    next
      case (Tx f)
      then obtain q where q: "f sv1 = (q, sv2)" "ps2 = ps1[p := q]"
        using st True p by (auto simp: proc_step_def split: prod.splits)
      then show ?thesis using deleting_own [OF _ run p Tx q(1) assms(3)] del Tx True p by simp
    qed
  next
    case False
    have "ps2 ! p = ps1 ! p" using False by (rule_tac proc_step_cases [OF st]) auto
    then show ?thesis using deleting_other [OF del False] by simp
  qed
  ultimately show ?case by (simp add: interleave_last run st)
qed

text \<open>
  C26 (convo_delete_commits).  A \<^verbatim>\<open>DELETE\<close> of a convo among any other requests, in any
  interleaving.  At the step at which it comes to answer 200, an earlier step has read the convo
  with the caller as its owner; a later one has left no check-ins of the convo's scribe, and from
  then on only other requests made steps.  Now the convo and its messages are gone and exactly
  the readers it read have been told; the check-ins are as the other requests left them since,
  so there are none if none of them came between.
\<close>

theorem convo_delete_commits:
  assumes "p < length ps" and "ps ! p = proc_Convo_Delete w r"
    and "interleave is (ps, sv) = (ps1, sv1)" and "proc_step p (ps1, sv1) = (ps2, sv2)"
    and "ps1 ! p \<noteq> Done OkEmpty" and "ps2 ! p = Done OkEmpty" and "i = ByName r ''convo_id''"
  shows "\<exists>is1 is2 is3 x. is = is1 @ p # is2 @ p # is3 \<and> p \<notin> set is3 \<and>
    sv_View (convo_Get zero_Stream i) (snd (interleave is1 (ps, sv))) = Ret x \<and> mw_CtxGetUserID r = Ret (g_Owner (str_Group x)) \<and>
    bkt_at [RiverBucket, ScribeBucket, i] (sv_db (snd (interleave (is1 @ p # is2 @ [p]) (ps, sv)))) = None \<and>
    table (sv_db sv2) ConvoBucket i = None \<and> bkt_at [MessageBucket, i] (sv_db sv2) = None \<and>
    bkt_at [RiverBucket] (sv_db sv2) = bkt_at [RiverBucket] (sv_db sv1) \<and>
    (is3 = [] \<longrightarrow> bkt_at [RiverBucket, ScribeBucket, i] (sv_db sv2) = None) \<and>
    sv_out sv2 = sv_out sv1 @ map (\<lambda>v. (v, ''convo-deleted'', JStr i)) (smap_keys (g_Readers (str_Group x)))"
proof -
  have len: "p < length ps1" and del: "deleting (ps, sv) w r i p is (ps1 ! p)"
    using deleting_always [OF assms(1,2,7), of "is" sv] assms(3) by auto
  obtain f where f: "ps1 ! p = Tx f" "f sv1 = (Done OkEmpty, sv2)"
    using assms(4-6) len by (cases "ps1 ! p") (auto simp: proc_step_def split: prod.splits)
  from del [unfolded f(1)] show ?thesis
  proof cases
    case at_start
    from Delete_first [OF this [symmetric] f(2) assms(7)] hanging_not_ok show ?thesis by blast
  next
    case (at_hangups is2 x)
    have False
      using Delete_checkins [OF at_hangups(2) f(2)] hanging_not_ok [of i x "Done OkEmpty"]
      by (auto simp: delete_last_def tx_Update_def)
    then show ?thesis ..
  next
    case (at_last is' is3 is2 x)
    obtain is1 where is1: "is = is1 @ p # is2 @ p # is3" "sv_View (convo_Get zero_Stream i) (snd (interleave is1 (ps, sv))) = Ret x"
        "mw_CtxGetUserID r = Ret (g_Owner (str_Group x))"
      using at_last(1,3) by (auto simp: has_read_def)
    have is': "is' = is1 @ p # is2 @ [p]" using is1(1) at_last(1) by simp
    obtain sv3 where up: "sv_Update (store_Wrap [convo_Delete i, convo_DeleteMessages i]) sv1 = (Ret (), sv3)"
        and sv2: "sv2 = notify_all ''convo-deleted'' (JStr i) (smap_keys (g_Readers (str_Group x))) sv3"
      using f(2) at_last(2) by (auto simp: delete_last_def tx_Update_def simp del: store_Wrap.simps split: prod.splits go.splits)
    note gone = delete_both [OF sv_Update_RetD [OF up]]
    have "is3 = [] \<Longrightarrow> bkt_at [RiverBucket, ScribeBucket, i] (sv_db sv2) = None"
      using gone(3) [of "[ScribeBucket, i]"] at_last(1,5) assms(3) by (simp add: sv2 del: bkt_at.simps)
    then show ?thesis
      using is1 at_last(4,5) is' gone(1,2) gone(3) [of "[]"] sv_Update_out [OF up]
      by (intro exI [of _ is1] exI [of _ is2] exI [of _ is3] exI [of _ x]) (simp add: sv2 del: bkt_at.simps)
  qed
qed
lemma first_done:
  assumes "interleave (replicate n p) c = (ps', sv')" and "fst c ! p \<noteq> Done rsp" and "ps' ! p = Done rsp"
  shows "\<exists>m ps1 sv1. interleave (replicate m p) c = (ps1, sv1) \<and> ps1 ! p \<noteq> Done rsp \<and> proc_step p (ps1, sv1) = (ps', sv')"
  using assms(1,3)
proof (induction n arbitrary: ps' sv')
  case (Suc n)
  obtain ps1 sv1 where run: "interleave (replicate n p) c = (ps1, sv1)" by force
  have "replicate (Suc n) p = replicate n p @ [p]" by (simp add: replicate_append_same)
  then have st: "proc_step p (ps1, sv1) = (ps', sv')" using Suc.prems(1) run by (simp only: interleave_last)
  show ?case
  proof (cases "ps1 ! p = Done rsp")
    case True
    then have "(ps', sv') = (ps1, sv1)" using st by (auto simp: proc_step_def split: if_splits)
    then show ?thesis using Suc.IH [OF run True] by simp
  qed (use run st in blast)
qed (use assms(2) in auto)

theorem convo_delete_commits_witness:
  "\<exists>n sv'. interleave (replicate n 0) ([proc_Convo_Delete demo_world (demo_rename ''convo_id'')], \<lparr>sv_db = demo_convo_db, sv_out = []\<rparr>) =
      ([Done OkEmpty], sv') \<and>
    table (sv_db sv') ConvoBucket (uuid_String Rest_Stream.demo_id) = None \<and>
    bkt_at [MessageBucket, uuid_String Rest_Stream.demo_id] (sv_db sv') = None \<and>
    bkt_at [RiverBucket, ScribeBucket, uuid_String Rest_Stream.demo_id] (sv_db sv') = None"
proof -
  let ?i = "uuid_String Rest_Stream.demo_id" and ?d = "proc_Convo_Delete demo_world (demo_rename ''convo_id'')"
  let ?sv = "\<lparr>sv_db = demo_convo_db, sv_out = []\<rparr>"
  obtain sv' where "run_alone ?d ?sv = (OkEmpty, sv')" using demo_convo_gone [of demo_world] by (auto simp: convo_processes_alone)
  then obtain n where run: "interleave (replicate n 0) ([?d], ?sv) = ([Done OkEmpty], sv')"
    using interleave_alone [of ?d ?sv OkEmpty sv' 0 "[?d]"] by auto
  have "?d \<noteq> Done OkEmpty" by (simp add: Delete_unfold demo_rename_facts Let_def tx_View_def)
  then obtain m ps1 sv1 where m: "interleave (replicate m 0) ([?d], ?sv) = (ps1, sv1)" "ps1 ! 0 \<noteq> Done OkEmpty"
      "proc_step 0 (ps1, sv1) = ([Done OkEmpty], sv')"
    using first_done [OF run, of OkEmpty] by auto
  obtain is1 is2 is3 where is3: "replicate m (0 :: nat) = is1 @ 0 # is2 @ 0 # is3" "0 \<notin> set is3"
    and gone: "table (sv_db sv') ConvoBucket ?i = None" "bkt_at [MessageBucket, ?i] (sv_db sv') = None"
      "is3 = [] \<longrightarrow> bkt_at [RiverBucket, ScribeBucket, ?i] (sv_db sv') = None"
    using convo_delete_commits [OF _ _ m(1) m(3) m(2), where r = "demo_rename ''convo_id''" and w = demo_world and i = ?i]
    by (auto simp: demo_rename_facts simp del: bkt_at.simps)
  have "set is3 \<subseteq> set (replicate m 0)" by (simp only: is3(1)) auto
  then have "is3 = []" using is3(2) by (cases is3) auto
  with run gone show ?thesis by blast
qed

section \<open>A deleted task\<close>

text \<open>
  C31 (deleted_task_returns).  A writer's \<^verbatim>\<open>PUT\<close> has read a task when its owner deletes it.  The
  \<^verbatim>\<open>DELETE\<close> succeeds, the \<^verbatim>\<open>PUT\<close> then succeeds too, and the task is stored again.
\<close>

theorem deleted_task_returns:
  assumes "put_parse r1 sv = Inr (u, us, old, sent)" and "put_decide u old sent = PutUpdateAsWriter"
    and "uuid_FromString (ByName r1 ''id'') = Ret (task_ID old)" and "ByName r2 ''id'' = ByName r1 ''id''"
    and "mw_CtxGetUserID r2 = Ret (g_Owner (task_Group old))"
    and "task_tables (sv_db sv)" and "has_tbl UserBucket (sv_db sv)" and "uuid_ok (task_ID old)" and "task_readable (sv_db sv) (task_ID old)"
  shows "\<exists>sv1 j sv'.
    interleave [0, 0, 1, 1] ([proc_Task_Put timer r1, proc_Task_Delete r2], sv) =
      ([tx_last (put_dispatch timer u us old sent), Done OkEmpty], sv1) \<and>
    table (sv_db sv1) TaskBucket (task_ID old) = None \<and>
    interleave [0, 0, 1, 1, 0] ([proc_Task_Put timer r1, proc_Task_Delete r2], sv) = ([Done (OkBody j), Done OkEmpty], sv') \<and>
    table (sv_db sv') TaskBucket (task_ID old) = Some (Doc (enc_Task (stored_form (task_ID old) sent)))"
proof -
  let ?i = "task_ID old" and ?put = "put_dispatch timer u us old sent"
  let ?s1 = "db_del TaskBucket (task_ID old) (sv_db sv)"
  define sv1 where "sv1 = notify_all ''task-deleted'' (JStr (ByName r2 ''id''))
     (map fst (users_AllUsers (task_Group old))) (sv\<lparr>sv_db := db_del TaskBucket (task_ID old) (sv_db sv)\<rparr>)"
  have t: "has_tbl TaskBucket (sv_db sv)" "has_tbl TextBucket (sv_db sv)" "TaskBucket \<noteq> UserBucket"
    using assms(6) by (simp_all add: task_tables_def TaskBucket_def UserBucket_def)
  obtain f g where put: "proc_Task_Put timer r1 = Tx f" "f sv = (Tx g, sv)" "g sv = (tx_last ?put, sv)"
    using put_reads [OF assms(1)] .
  have load: "sv_View (task_Load ?i zero_Task) sv = Ret old" and chk: "sv_View (users_CheckUsersExist us) sv = Ret ()"
    using put_parse_Inr [OF assms(1)] assms(3) by auto
  have reads: "interleave [0, 0, 1, 1] ([proc_Task_Put timer r1, proc_Task_Delete r2], sv) = ([tx_last ?put, Done OkEmpty], sv1)"
    using put load assms(3-5) task_Delete_eq [OF assms(6,9)]
    by (simp add: proc_step_def proc_Task_Delete_def tx_View_def tx_Update_def sv_Update_def db_Update_def sv1_def)
  have s1: "sv_db sv1 = ?s1" by (simp add: sv1_def)
  have "users_CheckUsersExist us ?s1 = (Ret (), ?s1)"
    using chk assms(7) t by (simp add: sv_View_eq users_CheckUsersExist_eq split: option.splits)
  moreover have "task_Store ?i sent ?s1 = (Ret (stored_form ?i sent),
      db_put TaskBucket ?i (Doc (enc_Task (stored_form ?i sent))) (put_texts ?i (task_Notes sent) ?s1))"
    using t assms(6,8) by (intro task_Store_eq) (auto simp: task_tables_def task_readable_def)
  ultimately have "\<exists>j sv'. ?put sv1 = (OkBody j, sv') \<and> table (sv_db sv') TaskBucket ?i = Some (Doc (enc_Task (stored_form ?i sent)))"
    using assms(2) t by (simp add: put_dispatch_def rest_updateAsWriter_def Let_def put_answer_def sv_Update_def
        db_Update_def tx_updateAsWriter_def db_bind_def db_return_def s1 table_put_texts)
  moreover have "interleave [0, 0, 1, 1, 0] c = proc_step 0 (interleave [0, 0, 1, 1] c)" for c by simp
  moreover have "table (sv_db sv1) TaskBucket ?i = None" using t by (simp add: s1)
  ultimately show ?thesis using reads by (auto simp del: interleave_simps simp: proc_step_def tx_last_def)
qed

theorem deleted_task_returns_witness:
  "\<exists>j sv'. interleave [0, 0, 1, 1, 0] ([proc_Task_Put None (demo_put_by ''bob'' (demo_stored\<lparr>task_Name := ''again''\<rparr>)),
        proc_Task_Delete (demo_put_by ''ann'' demo_stored)], demo_at demo_stored) = ([Done (OkBody j), Done OkEmpty], sv') \<and>
    table (sv_db sv') TaskBucket Tasks.demo_id \<noteq> None"
proof -
  let ?sent = "demo_stored\<lparr>task_Name := ''again''\<rparr>"
  have form: "demo_form demo_stored" "demo_form ?sent" by (simp_all add: demo_form_def demo_stored_def zero_Task_def)
  have "put_decide ''bob'' demo_stored ?sent = PutUpdateAsWriter"
    by (simp add: put_decide_def time_ptr_ne_def group_deep_equal_def Let_def demo_stored_def zero_Task_def smap_get_def)
  from deleted_task_returns [OF demo_parse [OF _ form] this, of "demo_put_by ''ann'' demo_stored" None] form demo_at_readable [OF form(1)]
  show ?thesis
    by (force simp: demo_put_by_def ByName_def mw_CtxGetUserID_def go_assert_def demo_form_def)
qed

end
