(* ===== verification/Spec2Isabelle.thy ===== *)
theory Spec2Isabelle
  imports Sg_Main Sessions Interleaving Scribe_System Notif_Session Concurrent_Updates
begin

text \<open>
  A verification development for sg-proto, a server in Go through which users hold coin, work on
  tasks with a bounty, and talk over streams and convos.

  \<^bold>\<open>The program and its parts.\<close>  \<^verbatim>\<open>sg/main.go\<close> opens a bolt database and serves the router that
  \<^verbatim>\<open>rest.Bind\<close> builds.  The handlers of the package \<^verbatim>\<open>rest\<close> run behind the gates of
  \<^verbatim>\<open>rest/middleware\<close> and work on the database in short transactions, which they compose from
  the functions of \<^verbatim>\<open>users\<close>, \<^verbatim>\<open>auth\<close>, \<^verbatim>\<open>admin\<close>, \<^verbatim>\<open>incept\<close>, \<^verbatim>\<open>text\<close>, \<^verbatim>\<open>task\<close>, \<^verbatim>\<open>stream\<close> and
  \<^verbatim>\<open>convo\<close>; these in turn use \<^verbatim>\<open>store\<close>.  Live connections are rivers (\<^verbatim>\<open>stream/river\<close>): sockets of
  the mangos library with a register of them in the database.  A connection is hung up by a
  survey that its responder answers; \<^verbatim>\<open>rest/ws\<close> ties a river to a web socket, \<^verbatim>\<open>convo/scribe.go\<close>
  writes a convo's messages down, and \<^verbatim>\<open>notif\<close> tells users of changes.

  \<^bold>\<open>Theories.\<close>
  \<^item> \<open>SG_Prelude\<close>: bytes, 64-bit integers, Go maps and times, the error values of all packages,
    the result of a Go call (value, error or panic), ordered association lists.
  \<^item> \<open>Bolt\<close>: buckets, cursors, sequence numbers and transactions with rollback (vendored bolt).
    \<open>Store\<close>: package \<^verbatim>\<open>store\<close>, with the locale \<open>kv_tables\<close> that its clients use, interpreted on
    the model of bolt.  \<open>Json\<close>: how structs are decoded, locale \<open>json_codec\<close>, interpreted for every
    stored type.  \<open>Frames\<close>: what operations leave alone, locale \<open>db_relation\<close>.
  \<^item> \<open>Go_Sha256\<close>, \<open>Go_Uuid\<close>, \<open>Go_Strings\<close>, \<open>Go_Binary\<close>: the parts of the standard library and of
    go.uuid and blake2b that the program computes with, as executable functions; locale
    \<open>alphabet\<close> for the base64 round trip.
  \<^item> \<open>Users\<close> (\<^verbatim>\<open>users\<close>), \<open>Auth\<close> (\<^verbatim>\<open>auth\<close>), \<open>Incept\<close> (\<^verbatim>\<open>admin\<close>, \<^verbatim>\<open>incept\<close>), \<open>Tasks\<close> (\<^verbatim>\<open>text\<close>,
    \<^verbatim>\<open>task\<close>), \<open>Streams\<close> (\<^verbatim>\<open>stream\<close> and the handles of \<^verbatim>\<open>convo\<close>, locale \<open>group_table\<close> for what both
    promise), \<open>River\<close> (\<^verbatim>\<open>stream/river\<close>), \<open>Notifs\<close> (\<^verbatim>\<open>notif\<close>, locale \<open>topic\<close>), \<open>Convos\<close> (messages
    and scribes of \<^verbatim>\<open>convo\<close>).  \<open>Rfc3339\<close>: the calendar and the text of times, which are the keys of
    messages, and their order.  \<open>Histories\<close>: scribe and range query together.  \<open>Scribe_System\<close>: the
    goroutines of a scribe.
  \<^item> \<open>Rest_Middleware\<close> (\<^verbatim>\<open>rest/middleware\<close>, requests, responses and the server's state),
    \<open>Rest_Accounts\<close> (\<^verbatim>\<open>rest/token.go\<close>, \<^verbatim>\<open>incept.go\<close>, \<^verbatim>\<open>profile.go\<close>, \<^verbatim>\<open>admin.go\<close>), \<open>Rest_Task\<close>
    (\<^verbatim>\<open>rest/task.go\<close>, locale \<open>task_frame\<close>), \<open>Rest_Stream\<close> and \<open>Rest_Convo\<close> (\<^verbatim>\<open>rest/stream.go\<close>,
    \<^verbatim>\<open>rest/convo.go\<close>, locale \<open>group_api\<close> for both), \<open>Rest_Users\<close> (deletion of users,
    \<^verbatim>\<open>rest/notif.go\<close>), \<open>Rest_Api\<close> and \<open>Rest_Startup\<close> (\<^verbatim>\<open>rest/rest.go\<close>, \<^verbatim>\<open>rest/source.go\<close> and the
    \<^verbatim>\<open>Bind\<close> methods), \<open>Sg_Main\<close> (\<^verbatim>\<open>sg/main.go\<close>, \<^verbatim>\<open>sg/serve.go\<close>).
  \<^item> \<open>Websockets\<close> and \<open>Sessions\<close> (\<^verbatim>\<open>rest/ws\<close>): the loops of a connection, and a session as a
    system of goroutines.  \<open>Hangup_Recver\<close>: the goroutine that every \<^verbatim>\<open>Recv\<close> of a hangup receiver
    starts, shared by scribes and by \<open>Notif_Session\<close>, the goroutines of a notification socket
    (\<^verbatim>\<open>ws.BindRead\<close> under \<^verbatim>\<open>rest/notif.go\<close>).
  \<^item> \<open>Interleaving\<close>: handlers as sequences of transactions, run at the same time under any schedule.
    \<open>Concurrent_Updates\<close>: the writing handlers of streams and convos as such sequences, locale
    \<open>group_rows\<close> for both.

  \<^bold>\<open>How state and operations correspond.\<close>  A Go \<^verbatim>\<open>func(*bolt.Tx) error\<close> is a function from the
  database to a result and the database; \<open>db_Update\<close> and \<open>db_View\<close> run it as a transaction and
  roll back when it fails.  A handler takes a request and the server's state (the database and
  the notifications published so far) to a response and the new state, with every early return
  as a branch.  A definition carries the name of its Go function, with the package in front
  where two packages share a name (\<open>auth_Disable\<close> is \<^verbatim>\<open>auth.Disable\<close>, \<open>rest_Stream_Put\<close> is the
  method \<^verbatim>\<open>Put\<close> of \<^verbatim>\<open>rest.Stream\<close>).  A value is stored as the JSON tree that \<^verbatim>\<open>json.Marshal\<close> makes
  of it.

  \<^bold>\<open>What is an argument.\<close>  The clock, random UUIDs, the results of socket calls (\<open>net\<close>), the
  replies to surveys and what other handlers commit while a survey or a web socket session is
  under way (\<open>world\<close>), the order in which results of several surveys arrive (\<open>picks\<close>), the offset of
  the server's time zone, the growth of a slice by \<^verbatim>\<open>append\<close>, and what a connection's \<^verbatim>\<open>Read\<close> and
  \<^verbatim>\<open>Write\<close> return.  The theorems quantify over all of these.

  \<^bold>\<open>What the theorems show.\<close>
  \<^item> Accounts: an inception uses its ticket up and succeeds as a whole or not at all; logins,
    sessions and tokens round-trip; disabling a login ends all access of one user and touches
    no other; deleting a user ends all access and does succeed when the user's connections
    answer.
  \<^item> Gates: a request without a stored session or the admin token gets nowhere, on every route
    but three; with one, the handler runs with the right user; startup establishes all buckets
    from an empty or an earlier database, keeps what is stored, drops old sessions, and can be
    repeated; the command listens where and how its command line says, and the admin key it
    prints, asked for or made up, opens the gate.
  \<^item> Requests at the same time: in every interleaving of inceptions and requests on tasks the coin
    in circulation stays the same, and no two inceptions share a ticket or a name; in every
    interleaving of requests on streams or on convos each keeps its owner, and what is deleted
    stays deleted; a deletion of a convo that succeeds has removed it with its messages.
  \<^item> Tasks: the bounty is paid and returned; only
    owner and writers change a task; tasks with their notes round-trip.
  \<^item> Streams and convos: who can read, change, delete and connect, proved once for both; deleting
    a convo leaves no messages; the range query over messages equals a filter; what a scribe has
    received is read back in the order of time, with bounds on number and age, as long as the
    offset of the zone stays the same and no two messages are of one second.
  \<^item> Rivers: the register of buses refines a set; a hangup survey succeeds when all answer within
    its three rounds, and succeeds only if all have answered; notifications reach their user and nobody else.
  \<^item> Sessions: in every interleaving of the goroutines messages keep their order, at most one
    each way is lost at the end; a hangup ends the session within a bounded number of steps.
  \<^item> Notification sockets: notifications reach the client in order, and a hangup or the client's
    leaving brings the handler to its clean-up within a bounded number of steps.
  \<^item> Scribes: in every interleaving of the goroutines messages keep their order and are written,
    but for fewer than 128 at the end; a hangup ends the scribe within a bounded number of steps.
  \<^item> Behaviour that is not what the code means to do is stated as theorems too: lost messages of
    a scribe, shared check-in numbers, texts that are never deleted, a refresh token that
    renews a session of somebody else, the missing timer of the task API, a deletion of a
    stream that stops early, bytes that \<^verbatim>\<open>DefaultRead\<close> overwrites, a session that jams, a bounty
    that is paid twice, a deleted task that an update brings back, a login that survives the
    deletion of its user, messages that a change of the zone's offset hides.

  \<^bold>\<open>Bounds and termination.\<close>  No function has fuel.  Recursions are structural or carry a
  termination proof (\<open>await_hangups\<close>, where each turn takes one survey; the blocks of
  BLAKE2b).  \<^verbatim>\<open>MakeSurvey\<close> makes its three rounds.  \<^verbatim>\<open>DefaultRead\<close> may read forever, so its
  result is an option, and it is proved to be defined as soon as one read does not fill the
  buffer.  Coin and bounties are 64-bit words and wrap around; sequence numbers are 64-bit words.

  \<^bold>\<open>What is not modelled.\<close>  The network listener and the database file; the helpers
  of the tests (\<^verbatim>\<open>testing\<close>); the wrapper of \<^verbatim>\<open>time.Now\<close> (\<^verbatim>\<open>util\<close>); path matching by httprouter; the
  sockets of mangos and the frames of web sockets; the pages and the file of bolt; JSON at the
  level of bytes, so that strings are stored as they are (Go replaces bytes that are not UTF-8) and
  every time can be written (Go refuses years beyond 9999); the texts of errors; the log, but for
  the lines of a migration, of a new admin key and of the server at startup; a failing write of a
  response, except in \<^verbatim>\<open>NewTicket\<close>, which reacts to it.  The database is always open.  A process that calls
  \<^verbatim>\<open>log.Fatal\<close> ends with the response \<open>Exited\<close>.  In the theories of the handlers the transactions
  of one handler run back to back except around surveys and sessions, where other handlers may
  commit anything; \<open>Interleaving\<close> and \<open>Concurrent_Updates\<close> split inception, login, the last step of
  the deletion of a user and the writing requests on tasks, streams and convos into their
  transactions.  Handlers that only read have one transaction that matters, and are not split;
  neither are the set-up and the clean-up of connections, where a theorem about them says what other
  handlers may commit.  A wait for the responder of a closed socket (\<^verbatim>\<open><-errCh\<close>) is taken to end in the
  handlers; for notification sockets that is a theorem.  \<^verbatim>\<open>ClearRivers\<close> deletes from the bucket that
  it iterates over, for which bolt promises nothing; the model deletes all that was there at
  its start.  The empty value of a check-in (\<^verbatim>\<open>nil\<close>) is the empty string of bytes, as bolt reads it back.
\<close>

end
